(* ===== verification/Prelude.thy ===== *)
theory Prelude
  imports Main "HOL-Library.Sublist" "HOL-Library.Code_Target_Nat"
begin

text \<open>
  Shared foundations of the development: the part of Rust's standard library that the
  modelled crates use.

  A Rust \<open>char\<close> is a Unicode scalar value and is modelled by its code point, a natural
  number; a Rust \<open>str\<close> or \<open>String\<close> is the list of its chars.  Byte lengths are computed
  from the chars (\<open>str_len\<close>), so that code which counts bytes (budgets, offsets) is modelled
  with the byte count that Rust computes.  A position that the code obtains from a search and
  uses only to slice the same string is modelled by the number of chars before it.

  \<open>usize\<close> and \<open>u64\<close> values are natural numbers; the saturating operations are written out at
  64 bits.
\<close>

text \<open>The collection \<open>result_iff\<close> unfolds a successful chain of fallible steps.\<close>

named_theorems result_iff

section \<open>Characters and strings\<close>

type_synonym rchar = nat
type_synonym rstring = "rchar list"

definition lit :: "string \<Rightarrow> rstring" where
  "lit s = map of_char s"

lemma lit_simps [simp]: "lit [] = []" "lit (c # cs) = of_char c # lit cs"
  by (simp_all add: lit_def)

lemma lit_append [simp]: "lit (s @ t) = lit s @ lit t"
  by (simp add: lit_def)

lemma length_lit [simp]: "length (lit s) = length s"
  by (simp add: lit_def)

definition newline :: rchar where "newline = 10"

definition carriage_return :: rchar where "carriage_return = 13"

text \<open>Length in bytes of the UTF-8 encoding (\<open>char::len_utf8\<close>, \<open>str::len\<close>).\<close>

definition len_utf8 :: "rchar \<Rightarrow> nat" where
  "len_utf8 c = (if c < 128 then 1 else if c < 2048 then 2 else if c < 65536 then 3 else 4)"

definition str_len :: "rstring \<Rightarrow> nat" where
  "str_len s = sum_list (map len_utf8 s)"

lemma len_utf8_pos [simp]: "0 < len_utf8 c"
  by (simp add: len_utf8_def)

lemma len_utf8_le: "len_utf8 c \<le> 4"
  by (simp add: len_utf8_def)

lemma str_len_simps [simp]:
  "str_len [] = 0"
  "str_len (c # s) = len_utf8 c + str_len s"
  "str_len (s @ t) = str_len s + str_len t"
  by (simp_all add: str_len_def)

lemma str_len_0_iff [simp]: "str_len s = 0 \<longleftrightarrow> s = []"
  by (cases s) simp_all

lemma length_le_str_len: "length s \<le> str_len s"
proof (induction s)
  case (Cons c s)
  have "0 < len_utf8 c" by simp
  with Cons.IH show ?case by (simp del: len_utf8_pos)
qed simp

text \<open>The Unicode \<open>White_Space\<close> property (\<open>char::is_whitespace\<close>) and the trimming functions.\<close>

definition is_whitespace :: "rchar \<Rightarrow> bool" where
  "is_whitespace c \<longleftrightarrow>
     (9 \<le> c \<and> c \<le> 13) \<or> c = 32 \<or> c = 133 \<or> c = 160 \<or> c = 5760 \<or>
     (8192 \<le> c \<and> c \<le> 8202) \<or> c = 8232 \<or> c = 8233 \<or> c = 8239 \<or> c = 8287 \<or> c = 12288"

definition trim_start :: "rstring \<Rightarrow> rstring" where
  "trim_start s = dropWhile is_whitespace s"

definition trim_end :: "rstring \<Rightarrow> rstring" where
  "trim_end s = rev (dropWhile is_whitespace (rev s))"

definition trim :: "rstring \<Rightarrow> rstring" where
  "trim s = trim_end (trim_start s)"

text \<open>\<open>str::strip_prefix\<close>, \<open>str::strip_suffix\<close>, \<open>str::find\<close> on a string pattern.\<close>

definition strip_prefix :: "'a list \<Rightarrow> 'a list \<Rightarrow> 'a list option" where
  "strip_prefix p s = (if prefix p s then Some (drop (length p) s) else None)"

definition strip_suffix :: "'a list \<Rightarrow> 'a list \<Rightarrow> 'a list option" where
  "strip_suffix p s = (if suffix p s then Some (take (length s - length p) s) else None)"

fun find_sub :: "'a list \<Rightarrow> 'a list \<Rightarrow> nat option" where
  "find_sub p [] = (if p = [] then Some 0 else None)"
| "find_sub p (x # xs) = (if prefix p (x # xs) then Some 0 else map_option Suc (find_sub p xs))"

text \<open>\<open>str::split\<close> on one char, \<open>[String]::join\<close>, and \<open>str::lines\<close>: the pieces of
  \<open>split_inclusive('\n')\<close>, each without its line ending.  A carriage return is dropped only in
  front of a line feed.\<close>

fun split_char :: "'a \<Rightarrow> 'a list \<Rightarrow> 'a list list" where
  "split_char c [] = [[]]"
| "split_char c (x # xs) =
     (if x = c then [] # split_char c xs
      else (case split_char c xs of [] \<Rightarrow> [[x]] | l # ls \<Rightarrow> (x # l) # ls))"

fun join :: "'a list \<Rightarrow> 'a list list \<Rightarrow> 'a list" where
  "join sep [] = []"
| "join sep [x] = x"
| "join sep (x # y # ys) = x @ sep @ join sep (y # ys)"

fun split_inclusive :: "'a \<Rightarrow> 'a list \<Rightarrow> 'a list list" where
  "split_inclusive c [] = []"
| "split_inclusive c (x # xs) =
     (if x = c then [x] # split_inclusive c xs
      else (case split_inclusive c xs of [] \<Rightarrow> [[x]] | l # ls \<Rightarrow> (x # l) # ls))"

definition strip_line_ending :: "rstring \<Rightarrow> rstring" where
  "strip_line_ending l =
     (case strip_suffix [newline] l of
        None \<Rightarrow> l
      | Some l' \<Rightarrow> (case strip_suffix [carriage_return] l' of None \<Rightarrow> l' | Some l'' \<Rightarrow> l''))"

definition lines :: "rstring \<Rightarrow> rstring list" where
  "lines s = map strip_line_ending (split_inclusive newline s)"

text \<open>\<open>str::split\<close> on a predicate, \<open>str::split_once\<close>, \<open>str::rsplit_once\<close>, \<open>slice::last\<close>, and the
  ASCII case functions.\<close>

fun split_by :: "('a \<Rightarrow> bool) \<Rightarrow> 'a list \<Rightarrow> 'a list list" where
  "split_by P [] = [[]]"
| "split_by P (x # xs) =
     (if P x then [] # split_by P xs
      else (case split_by P xs of [] \<Rightarrow> [[x]] | l # ls \<Rightarrow> (x # l) # ls))"

definition split_once :: "rchar \<Rightarrow> rstring \<Rightarrow> (rstring \<times> rstring) option" where
  "split_once c s = (if c \<in> set s then Some (takeWhile (\<lambda>x. x \<noteq> c) s, tl (dropWhile (\<lambda>x. x \<noteq> c) s)) else None)"

definition rsplit_once :: "rchar \<Rightarrow> rstring \<Rightarrow> (rstring \<times> rstring) option" where
  "rsplit_once c s =
     (if c \<in> set s then Some (rev (tl (dropWhile (\<lambda>x. x \<noteq> c) (rev s))), rev (takeWhile (\<lambda>x. x \<noteq> c) (rev s)))
      else None)"

definition to_ascii_lowercase :: "rstring \<Rightarrow> rstring" where
  "to_ascii_lowercase s = map (\<lambda>c. if 65 \<le> c \<and> c \<le> 90 then c + 32 else c) s"

definition eq_ignore_ascii_case :: "rstring \<Rightarrow> rstring \<Rightarrow> bool" where
  "eq_ignore_ascii_case s t \<longleftrightarrow> to_ascii_lowercase s = to_ascii_lowercase t"

definition last_opt :: "'a list \<Rightarrow> 'a option" where
  "last_opt xs = (if xs = [] then None else Some (last xs))"

lemma last_opt_simps [simp]: "last_opt [] = None" "last_opt (xs @ [x]) = Some x"
  by (simp_all add: last_opt_def)

lemma last_opt_Some: "last_opt xs = Some x \<longleftrightarrow> xs \<noteq> [] \<and> x = last xs"
  by (auto simp: last_opt_def)

text \<open>Decimal formatting of an unsigned integer (\<open>format!("{n}")\<close>).\<close>

fun fmt_nat :: "nat \<Rightarrow> rstring" where
  "fmt_nat n = (if n < 10 then [48 + n] else fmt_nat (n div 10) @ [48 + n mod 10])"

declare fmt_nat.simps [simp del]

section \<open>Saturating 64-bit arithmetic\<close>

definition usize_max :: nat where
  "usize_max = 2 ^ 64 - 1"

definition sat_add :: "nat \<Rightarrow> nat \<Rightarrow> nat" where
  "sat_add a b = min (a + b) usize_max"

definition sat_mul :: "nat \<Rightarrow> nat \<Rightarrow> nat" where
  "sat_mul a b = min (a * b) usize_max"

text \<open>\<open>saturating_sub\<close> on unsigned integers is the subtraction of natural numbers.\<close>

abbreviation (input) sat_sub :: "nat \<Rightarrow> nat \<Rightarrow> nat" where
  "sat_sub a b \<equiv> a - b"

lemma sat_add_le: "sat_add a b \<le> usize_max"
  by (simp add: sat_add_def)

lemma sat_add_exact: "a + b \<le> usize_max \<Longrightarrow> sat_add a b = a + b"
  by (simp add: sat_add_def)

lemma sat_add_0 [simp]: "a \<le> usize_max \<Longrightarrow> sat_add a 0 = a"
  by (simp add: sat_add_def)

lemma sat_add_assoc: "sat_add (sat_add a b) c = sat_add a (sat_add b c)"
  by (simp add: sat_add_def min_def)

lemma sat_add_sum: "sat_add (min a usize_max) b = min (a + b) usize_max"
  by (simp add: sat_add_def min_def)

lemma sat_add_sums: "sat_add (min a usize_max) (min b usize_max) = min (a + b) usize_max"
  by (simp add: sat_add_def min_def)

section \<open>Results\<close>

text \<open>\<open>Result<T, E>\<close> is the sum \<open>'e + 'a\<close> with \<open>Inl\<close> the error.\<close>

definition bind_res :: "'e + 'a \<Rightarrow> ('a \<Rightarrow> 'e + 'b) \<Rightarrow> 'e + 'b" where
  "bind_res r f = (case r of Inl e \<Rightarrow> Inl e | Inr x \<Rightarrow> f x)"

lemma bind_res_simps [simp]: "bind_res (Inl e) f = Inl e" "bind_res (Inr x) f = f x"
  by (simp_all add: bind_res_def)

lemma bind_res_Inr_iff [result_iff]: "bind_res r f = Inr y \<longleftrightarrow> (\<exists>x. r = Inr x \<and> f x = Inr y)"
  by (cases r) simp_all

lemma bind_res_Inl_iff: "bind_res r f = Inl e \<longleftrightarrow> r = Inl e \<or> (\<exists>x. r = Inr x \<and> f x = Inl e)"
  by (cases r) simp_all

text \<open>The kinds of \<open>std::io::ErrorKind\<close> the code distinguishes; \<open>OtherKind\<close> stands for all others.\<close>

datatype io_error_kind = NotFound | PermissionDenied | InvalidInput | InvalidData | AlreadyExists | OtherKind

record io_error =
  io_kind :: io_error_kind
  io_text :: rstring

section \<open>Comparators\<close>

text \<open>\<open>std::cmp::Ordering\<close>, \<open>Ord::cmp\<close>, \<open>Ordering::then_with\<close> and \<open>Iterator::min_by\<close>, which
  keeps the first of several minimal elements.\<close>

datatype ordering = Less | Equal | Greater

definition cmp :: "'a::linorder \<Rightarrow> 'a \<Rightarrow> ordering" where
  "cmp a b = (if a < b then Less else if a = b then Equal else Greater)"

definition then_with :: "ordering \<Rightarrow> ordering \<Rightarrow> ordering" where
  "then_with o1 o2 = (if o1 = Equal then o2 else o1)"

fun min_by :: "('a \<Rightarrow> 'a \<Rightarrow> ordering) \<Rightarrow> 'a list \<Rightarrow> 'a option" where
  "min_by c [] = None"
| "min_by c [x] = Some x"
| "min_by c (x # y # ys) = min_by c ((if c x y = Greater then y else x) # ys)"

lemma cmp_Greater [simp]: "cmp a b = Greater \<longleftrightarrow> b < a"
  by (auto simp: cmp_def)

lemma cmp_Equal [simp]: "cmp a b = Equal \<longleftrightarrow> a = b"
  by (auto simp: cmp_def)

lemma then_with_Greater [simp]:
  "then_with o1 o2 = Greater \<longleftrightarrow> o1 = Greater \<or> o1 = Equal \<and> o2 = Greater"
  by (auto simp: then_with_def)

lemma min_by_None [simp]: "min_by c xs = None \<longleftrightarrow> xs = []"
  by (induction c xs rule: min_by.induct) auto

lemma min_by_in_set: "min_by c xs = Some m \<Longrightarrow> m \<in> set xs"
  by (induction c xs rule: min_by.induct) (auto split: if_splits)

definition comparator :: "('a \<Rightarrow> 'a \<Rightarrow> ordering) \<Rightarrow> bool" where
  "comparator c \<longleftrightarrow>
     (\<forall>x y z. c x y \<noteq> Greater \<longrightarrow> c y z \<noteq> Greater \<longrightarrow> c x z \<noteq> Greater) \<and>
     (\<forall>x y. c x y = Greater \<longrightarrow> c y x \<noteq> Greater)"

lemma comparator_trans: "comparator c \<Longrightarrow> c x y \<noteq> Greater \<Longrightarrow> c y z \<noteq> Greater \<Longrightarrow> c x z \<noteq> Greater"
  unfolding comparator_def by blast

lemma comparator_total: "comparator c \<Longrightarrow> c x y = Greater \<Longrightarrow> c y x \<noteq> Greater"
  unfolding comparator_def by blast

lemma comparator_refl: "comparator c \<Longrightarrow> c x x \<noteq> Greater"
  using comparator_total by fastforce

lemma min_by_least:
  assumes "comparator c" and "min_by c xs = Some m" and "x \<in> set xs"
  shows "c m x \<noteq> Greater"
  using assms
proof (induction c xs arbitrary: x rule: min_by.induct)
  case (2 c y)
  then show ?case by (simp add: comparator_refl)
next
  case (3 c x1 y ys)
  define z where "z = (if c x1 y = Greater then y else x1)"
  have least: "c m w \<noteq> Greater" if "w \<in> set (z # ys)" for w
    using 3 that by (simp add: z_def)
  have z: "c z x1 \<noteq> Greater" "c z y \<noteq> Greater"
    using "3.prems"(1) by (simp_all add: z_def comparator_refl comparator_total)
  have "c m z \<noteq> Greater" by (simp add: least)
  then have "c m x1 \<noteq> Greater" "c m y \<noteq> Greater"
    using comparator_trans [OF "3.prems"(1), of m z] z by simp_all
  moreover have "c m w \<noteq> Greater" if "w \<in> set ys" for w
    using that by (simp add: least)
  ultimately show ?case using "3.prems"(3) by auto
qed simp

section \<open>Substring search\<close>

lemma all_le_Suc: "(\<forall>i \<le> Suc n. P i) \<longleftrightarrow> P 0 \<and> (\<forall>i \<le> n. P (Suc i))"
  by (simp add: All_less_Suc2 flip: less_Suc_eq_le)

lemma find_sub_None: "find_sub p xs = None \<longleftrightarrow> (\<forall>i \<le> length xs. \<not> prefix p (drop i xs))"
  by (induction xs) (simp_all add: all_le_Suc)

lemma find_sub_Some:
  "find_sub p xs = Some i \<longleftrightarrow>
     i \<le> length xs \<and> prefix p (drop i xs) \<and> (\<forall>j < i. \<not> prefix p (drop j xs))"
proof (induction xs arbitrary: i)
  case (Cons x xs)
  show ?case
  proof (cases i)
    case 0
    then show ?thesis by auto
  next
    case (Suc k)
    have "(\<forall>j < Suc k. \<not> prefix p (drop j (x # xs))) \<longleftrightarrow>
          \<not> prefix p (x # xs) \<and> (\<forall>j < k. \<not> prefix p (drop j xs))"
      by (simp add: All_less_Suc2)
    then show ?thesis using Suc Cons [of k] by auto
  qed
qed auto

lemma find_sub_bound: "find_sub p xs = Some i \<Longrightarrow> i + length p \<le> length xs"
  unfolding find_sub_Some by (metis add.commute le_diff_conv2 length_drop prefix_length_le)

lemma prefix_extend_iff:
  "length p \<le> length xs \<Longrightarrow> prefix p (xs @ ys) \<longleftrightarrow> prefix p xs"
  by (metis prefix_append prefix_length_prefix prefix_order.eq_iff append_self_conv prefixI)

section \<open>Lines of a text\<close>

lemma split_inclusive_no_sep: "c \<notin> set u \<Longrightarrow> split_inclusive c u = (if u = [] then [] else [u])"
  by (induction u) auto

lemma split_inclusive_line: "c \<notin> set u \<Longrightarrow> split_inclusive c (u @ c # r) = (u @ [c]) # split_inclusive c r"
  by (induction u) auto

lemma split_first_line:
  obtains "c \<notin> set t" | u r where "c \<notin> set u" and "t = u @ c # r"
  using split_list_first [of c t] by blast

lemma concat_split_inclusive [simp]: "concat (split_inclusive c t) = t"
  by (induction c t rule: split_inclusive.induct) (auto split: list.split)

lemma lines_induct [case_names last_line line]:
  assumes "\<And>t. c \<notin> set t \<Longrightarrow> P t"
    and "\<And>u r. c \<notin> set u \<Longrightarrow> P r \<Longrightarrow> P (u @ c # r)"
  shows "P t"
proof (induction "length t" arbitrary: t rule: less_induct)
  case less
  show ?case
  proof (rule split_first_line [of c t])
    fix u r assume u: "c \<notin> set u" and t: "t = u @ c # r"
    from t have "length r < length t" by simp
    then have "P r" by (rule less)
    with u show "P t" unfolding t by (rule assms(2))
  qed (rule assms(1))
qed

section \<open>Trimming\<close>

lemma trim_end_Cons: "\<not> is_whitespace c \<Longrightarrow> trim_end (c # s) = c # trim_end s"
  by (simp add: trim_end_def dropWhile_append)

lemma trim_start_Cons: "\<not> is_whitespace c \<Longrightarrow> trim_start (c # s) = c # s"
  by (simp add: trim_start_def)

lemma trim_end_ws: "is_whitespace c \<Longrightarrow> trim_end (c # s) = (if trim_end s = [] then [] else c # trim_end s)"
  by (auto simp: trim_end_def dropWhile_append)

lemma in_map_filter [simp]: "y \<in> set (List.map_filter f xs) \<longleftrightarrow> (\<exists>x \<in> set xs. f x = Some y)"
  by (induction xs) (auto simp: List.map_filter_simps split: option.splits)

lemma map_filter_Cons:
  "List.map_filter f xs = y # ys \<Longrightarrow> \<exists>us a vs. xs = us @ a # vs \<and> f a = Some y \<and> (\<forall>u \<in> set us. f u = None)"
proof (induction xs)
  case (Cons a xs)
  show ?case
  proof (cases "f a")
    case None
    then obtain us b vs where "xs = us @ b # vs \<and> f b = Some y \<and> (\<forall>u \<in> set us. f u = None)"
      using Cons by (auto simp: List.map_filter_simps)
    then show ?thesis using None by (intro exI [of _ "a # us"]) auto
  next
    case (Some z)
    then show ?thesis using Cons.prems by (intro exI [of _ "[]"]) (auto simp: List.map_filter_simps)
  qed
qed (simp add: List.map_filter_simps)

lemma map_filter_Nil: "\<forall>x \<in> set xs. f x = None \<Longrightarrow> List.map_filter f xs = []"
  by (induction xs) (simp_all add: List.map_filter_simps)

lemma trim_start_append: "trim_start s \<noteq> [] \<Longrightarrow> trim_start (s @ t) = trim_start s @ t"
  by (auto simp: trim_start_def dropWhile_append)

lemma trim_end_append: "trim_end t \<noteq> [] \<Longrightarrow> trim_end (s @ t) = s @ trim_end t"
  by (auto simp: trim_end_def dropWhile_append)

lemma suffix_last: "suffix [c] xs \<longleftrightarrow> xs \<noteq> [] \<and> last xs = c"
  by (cases xs rule: rev_cases) (auto simp: suffix_def)

lemma trim_alt: "trim s = trim_start (trim_end s)"
proof (induction s)
  case (Cons c s)
  show ?case
  proof (cases "is_whitespace c")
    case True
    then have "trim (c # s) = trim s" by (simp add: trim_def trim_start_def)
    moreover have "trim_start (trim_end (c # s)) = trim_start (trim_end s)"
      using True by (simp add: trim_end_ws trim_start_def)
    ultimately show ?thesis using Cons by simp
  next
    case False
    then show ?thesis by (simp add: trim_def trim_start_Cons trim_end_Cons)
  qed
qed (simp add: trim_def trim_start_def trim_end_def)

end
