(* ===== verification/Stream_Text.thy ===== *)
theory Stream_Text
  imports Prelude
begin

text \<open>
  The streaming text parser interface of \<^verbatim>\<open>utils/stream-parser/src/stream_text.rs\<close>: the result
  of one pushed chunk, and the trait \<open>StreamTextParser\<close> as a locale.  The locale states what
  callers of the trait rely on: how a text is cut into chunks does not matter.
\<close>

record 'e stream_text_chunk =
  visible_text :: rstring
  extracted :: "'e list"

definition chunk_default :: "'e stream_text_chunk" where
  "chunk_default = \<lparr>visible_text = [], extracted = []\<rparr>"

definition chunk_is_empty :: "'e stream_text_chunk \<Rightarrow> bool" where
  "chunk_is_empty c \<longleftrightarrow> visible_text c = [] \<and> extracted c = []"

text \<open>Callers append the chunk of a later call to the one they hold: \<open>visible_text.push_str\<close>
  and \<open>extracted.append\<close>.\<close>

definition chunk_append :: "'e stream_text_chunk \<Rightarrow> 'e stream_text_chunk \<Rightarrow> 'e stream_text_chunk" where
  "chunk_append a b =
     \<lparr>visible_text = visible_text a @ visible_text b, extracted = extracted a @ extracted b\<rparr>"

lemma chunk_default_sel [simp]:
  "visible_text chunk_default = []" "extracted chunk_default = []"
  by (simp_all add: chunk_default_def)

lemma chunk_append_sel [simp]:
  "visible_text (chunk_append a b) = visible_text a @ visible_text b"
  "extracted (chunk_append a b) = extracted a @ extracted b"
  by (simp_all add: chunk_append_def)

lemma chunk_append_default [simp]:
  "chunk_append chunk_default c = c" "chunk_append c chunk_default = c"
  by (simp_all add: chunk_append_def)

lemma chunk_append_assoc: "chunk_append (chunk_append a b) c = chunk_append a (chunk_append b c)"
  by (simp add: chunk_append_def)

lemma chunk_is_empty_iff: "chunk_is_empty c \<longleftrightarrow> c = chunk_default"
  by (cases c) (simp add: chunk_is_empty_def chunk_default_def)

text \<open>Feeding a list of chunks, appending the outputs.\<close>

fun push_all :: "('s \<Rightarrow> rstring \<Rightarrow> 's \<times> 'e stream_text_chunk) \<Rightarrow> 's \<Rightarrow> rstring list \<Rightarrow>
    's \<times> 'e stream_text_chunk" where
  "push_all push s [] = (s, chunk_default)"
| "push_all push s (t # ts) =
     (let (s1, c1) = push s t; (s2, c2) = push_all push s1 ts in (s2, chunk_append c1 c2))"

definition collect :: "('s \<Rightarrow> rstring \<Rightarrow> 's \<times> 'e stream_text_chunk) \<Rightarrow>
    ('s \<Rightarrow> 's \<times> 'e stream_text_chunk) \<Rightarrow> 's \<Rightarrow> rstring list \<Rightarrow> 'e stream_text_chunk" where
  "collect push finish s ts =
     (let (s1, c1) = push_all push s ts; (s2, c2) = finish s1 in chunk_append c1 c2)"

text \<open>
  The contract of the trait.  \<open>inv\<close> is the invariant of the parser's state; \<open>flat\<close> is the
  content of a list of extracted payloads: a parser may report one payload in several pieces
  when the input arrives in several chunks, and \<open>flat\<close> forgets that granularity.
\<close>

locale stream_text_parser =
  fixes push :: "'s \<Rightarrow> rstring \<Rightarrow> 's \<times> 'e stream_text_chunk"
    and finish :: "'s \<Rightarrow> 's \<times> 'e stream_text_chunk"
    and inv :: "'s \<Rightarrow> bool"
    and flat :: "'e list \<Rightarrow> 'f list"
  assumes flat_append: "flat (es @ es') = flat es @ flat es'"
    and push_inv: "inv s \<Longrightarrow> inv (fst (push s t))"
    and finish_inv: "inv s \<Longrightarrow> inv (fst (finish s))"
    and push_nil: "inv s \<Longrightarrow> push s [] = (s, chunk_default)"
    and push_append_state: "inv s \<Longrightarrow> fst (push s (t @ u)) = fst (push (fst (push s t)) u)"
    and push_append_visible: "inv s \<Longrightarrow> visible_text (snd (push s (t @ u))) =
      visible_text (snd (push s t)) @ visible_text (snd (push (fst (push s t)) u))"
    and push_append_extracted: "inv s \<Longrightarrow> flat (extracted (snd (push s (t @ u)))) =
      flat (extracted (snd (push s t))) @ flat (extracted (snd (push (fst (push s t)) u)))"
begin

lemma flat_Nil: "flat [] = []"
  using flat_append [of "[]" "[]"] by simp

lemma push_all_concat:
  "inv s \<Longrightarrow>
     fst (push_all push s ts) = fst (push s (concat ts)) \<and>
     visible_text (snd (push_all push s ts)) = visible_text (snd (push s (concat ts))) \<and>
     flat (extracted (snd (push_all push s ts))) = flat (extracted (snd (push s (concat ts))))"
proof (induction ts arbitrary: s)
  case Nil
  then show ?case by (simp add: push_nil flat_Nil)
next
  case (Cons t ts)
  from Cons.IH [OF push_inv [OF Cons.prems, of t]] show ?case
    by (simp add: case_prod_beta Let_def push_append_state [OF Cons.prems]
        push_append_visible [OF Cons.prems] push_append_extracted [OF Cons.prems] flat_append)
qed

lemma push_all_inv: "inv s \<Longrightarrow> inv (fst (push_all push s ts))"
  by (simp add: push_all_concat push_inv)

lemma collect_concat:
  assumes "inv s" and "concat ts = concat us"
  shows "visible_text (collect push finish s ts) = visible_text (collect push finish s us)"
    and "flat (extracted (collect push finish s ts)) = flat (extracted (collect push finish s us))"
  using assms by (simp_all add: collect_def case_prod_beta Let_def push_all_concat flat_append)

lemma collect_single:
  assumes "inv s"
  shows "visible_text (collect push finish s ts) = visible_text (collect push finish s [concat ts])"
    and "flat (extracted (collect push finish s ts)) =
         flat (extracted (collect push finish s [concat ts]))"
  using assms by (auto intro: collect_concat)

end

end
