(* ===== verification/Inline_Hidden_Tag.thy ===== *)
theory Inline_Hidden_Tag
  imports Stream_Text
begin

text \<open>
  \<open>InlineHiddenTagParser\<close> of \<^verbatim>\<open>utils/stream-parser/src/inline_hidden_tag.rs\<close> and its client
  \<open>CitationStreamParser\<close> of \<^verbatim>\<open>citation.rs\<close>: a streaming parser that hides literal inline tags
  and extracts their bodies.  The main results: for delimiters of which none occurs inside
  another, the output does not depend on how the text is cut into chunks, and on a complete text
  it is the one of a non-streaming reference definition.
\<close>

section \<open>State\<close>

record 't extracted_inline_tag =
  eit_tag :: 't
  eit_content :: rstring

record 't inline_tag_spec =
  its_tag :: 't
  its_open :: rstring
  its_close :: rstring

record 't active_tag =
  act_tag :: 't
  act_close :: rstring
  act_content :: rstring

record 't inline_parser =
  specs :: "'t inline_tag_spec list"
  pending :: rstring
  active :: "'t active_tag option"

text \<open>\<open>InlineHiddenTagParser::new\<close>; \<open>None\<close> is the panic of one of its assertions.\<close>

definition inline_new :: "'t inline_tag_spec list \<Rightarrow> 't inline_parser option" where
  "inline_new sp =
     (if sp = [] then None
      else if \<exists>s \<in> set sp. its_open s = [] \<or> its_close s = [] then None
      else Some \<lparr>specs = sp, pending = [], active = None\<rparr>)"

section \<open>Operations\<close>

text \<open>\<open>longest_suffix_prefix_len\<close>: the loop over \<open>(1..=max).rev()\<close>.\<close>

fun longest_suffix_prefix_from :: "'a list \<Rightarrow> 'a list \<Rightarrow> nat \<Rightarrow> nat" where
  "longest_suffix_prefix_from s needle 0 = 0"
| "longest_suffix_prefix_from s needle (Suc k) =
     (if suffix (take (Suc k) needle) s then Suc k
      else longest_suffix_prefix_from s needle k)"

definition longest_suffix_prefix_len :: "'a list \<Rightarrow> 'a list \<Rightarrow> nat" where
  "longest_suffix_prefix_len s needle =
     longest_suffix_prefix_from s needle (min (length s) (length needle - 1))"

text \<open>\<open>find_next_open\<close>: the leftmost opening delimiter, the longest one at that place, the first
  one in the list of specifications among equals.\<close>

definition open_cmp :: "nat \<times> nat \<times> nat \<Rightarrow> nat \<times> nat \<times> nat \<Rightarrow> ordering" where
  "open_cmp = (\<lambda>(pos_a, len_a, idx_a) (pos_b, len_b, idx_b).
     then_with (cmp pos_a pos_b) (then_with (cmp len_b len_a) (cmp idx_a idx_b)))"

definition open_candidates :: "'t inline_tag_spec list \<Rightarrow> rstring \<Rightarrow> (nat \<times> nat \<times> nat) list" where
  "open_candidates sp text =
     List.map_filter
       (\<lambda>(idx, spec). map_option (\<lambda>pos. (pos, str_len (its_open spec), idx))
          (find_sub (its_open spec) text))
       (enumerate 0 sp)"

definition find_next_open :: "'t inline_parser \<Rightarrow> (nat \<times> nat) option" where
  "find_next_open p =
     map_option (\<lambda>(pos, len, idx). (pos, idx))
       (min_by open_cmp (open_candidates (specs p) (pending p)))"

definition max_open_prefix_suffix_len :: "'t inline_parser \<Rightarrow> nat" where
  "max_open_prefix_suffix_len p =
     fold max (map (\<lambda>spec. longest_suffix_prefix_len (pending p) (its_open spec)) (specs p)) 0"

definition push_visible_prefix ::
    "'t extracted_inline_tag stream_text_chunk \<Rightarrow> rstring \<Rightarrow> 't extracted_inline_tag stream_text_chunk" where
  "push_visible_prefix out t =
     (if t \<noteq> [] then out\<lparr>visible_text := visible_text out @ t\<rparr> else out)"

definition drain_visible_to_suffix_match ::
    "'t inline_parser \<Rightarrow> 't extracted_inline_tag stream_text_chunk \<Rightarrow> nat \<Rightarrow>
     't inline_parser \<times> 't extracted_inline_tag stream_text_chunk" where
  "drain_visible_to_suffix_match p out keep_suffix_len =
     (let tk = length (pending p) - keep_suffix_len in
      if tk = 0 then (p, out)
      else (p\<lparr>pending := drop tk (pending p)\<rparr>, push_visible_prefix out (take tk (pending p))))"

text \<open>
  The loop of \<open>push_str\<close>.  Every iteration that continues removes a delimiter from \<open>pending\<close>, so
  one unit of fuel more than \<open>pending\<close> has chars is enough for non-empty delimiters
  (\<open>push_loop_fuel\<close> below).
\<close>

fun push_loop :: "nat \<Rightarrow> 't inline_parser \<Rightarrow> 't extracted_inline_tag stream_text_chunk \<Rightarrow>
    't inline_parser \<times> 't extracted_inline_tag stream_text_chunk" where
  "push_loop 0 p out = (p, out)"
| "push_loop (Suc fuel) p out =
     (case active p of
        Some act \<Rightarrow>
          (case find_sub (act_close act) (pending p) of
             Some close_idx \<Rightarrow>
               push_loop fuel
                 (p\<lparr>active := None,
                    pending := drop (close_idx + length (act_close act)) (pending p)\<rparr>)
                 (out\<lparr>extracted := extracted out @
                    [\<lparr>eit_tag = act_tag act,
                      eit_content = act_content act @ take close_idx (pending p)\<rparr>]\<rparr>)
           | None \<Rightarrow>
               (let keep = longest_suffix_prefix_len (pending p) (act_close act);
                    tk = length (pending p) - keep
                in if tk > 0
                   then (p\<lparr>active := Some (act\<lparr>act_content :=
                             act_content act @ take tk (pending p)\<rparr>),
                           pending := drop tk (pending p)\<rparr>, out)
                   else (p, out)))
      | None \<Rightarrow>
          (case find_next_open p of
             Some (open_idx, spec_idx) \<Rightarrow>
               (let spec = specs p ! spec_idx in
                push_loop fuel
                  (p\<lparr>pending := drop (open_idx + length (its_open spec)) (pending p),
                     active := Some \<lparr>act_tag = its_tag spec, act_close = its_close spec,
                                     act_content = []\<rparr>\<rparr>)
                  (push_visible_prefix out (take open_idx (pending p))))
           | None \<Rightarrow>
               drain_visible_to_suffix_match p out (max_open_prefix_suffix_len p)))"

definition inline_push_str :: "'t inline_parser \<Rightarrow> rstring \<Rightarrow>
    't inline_parser \<times> 't extracted_inline_tag stream_text_chunk" where
  "inline_push_str p chunk =
     (let p' = p\<lparr>pending := pending p @ chunk\<rparr> in
      push_loop (Suc (length (pending p'))) p' chunk_default)"

definition inline_finish :: "'t inline_parser \<Rightarrow>
    't inline_parser \<times> 't extracted_inline_tag stream_text_chunk" where
  "inline_finish p =
     (case active p of
        Some act \<Rightarrow>
          (p\<lparr>active := None, pending := []\<rparr>,
           chunk_default\<lparr>extracted :=
             [\<lparr>eit_tag = act_tag act, eit_content = act_content act @ pending p\<rparr>]\<rparr>)
      | None \<Rightarrow> (p\<lparr>pending := []\<rparr>, chunk_default\<lparr>visible_text := pending p\<rparr>))"

section \<open>Searching for one of several delimiters\<close>

text \<open>Both modes of the loop search \<open>pending\<close> for the first of a list of delimiters (the opening
  ones, or the close delimiter of the active tag) and otherwise keep the longest suffix that may
  still grow into one.  The two notions are characterised here once, for a list \<open>D\<close>.\<close>

definition candidates :: "rstring list \<Rightarrow> rstring \<Rightarrow> (nat \<times> nat \<times> nat) list" where
  "candidates D xs =
     List.map_filter (\<lambda>(idx, d). map_option (\<lambda>pos. (pos, str_len d, idx)) (find_sub d xs))
       (enumerate 0 D)"

definition find_any :: "rstring list \<Rightarrow> rstring \<Rightarrow> (nat \<times> nat) option" where
  "find_any D xs = map_option (\<lambda>(pos, len, idx). (pos, idx)) (min_by open_cmp (candidates D xs))"

definition lsp_any :: "'a list list \<Rightarrow> 'a list \<Rightarrow> nat" where
  "lsp_any D xs = fold max (map (longest_suffix_prefix_len xs) D) 0"

text \<open>No delimiter is empty and none occurs inside another one.\<close>

definition separate :: "'a list list \<Rightarrow> bool" where
  "separate D \<longleftrightarrow> [] \<notin> set D \<and> (\<forall>d \<in> set D. \<forall>d' \<in> set D. sublist d d' \<longrightarrow> d = d')"

lemma open_cmp_Greater [simp]:
  "open_cmp (p, l, i) (p', l', i') = Greater \<longleftrightarrow>
     p' < p \<or> p = p' \<and> (l < l' \<or> l = l' \<and> i' < i)"
  by (auto simp: open_cmp_def)

lemma comparator_open_cmp: "comparator open_cmp"
  unfolding comparator_def by (simp add: split_paired_All) (metis linorder_neqE_nat order.strict_trans)

lemma open_cmp_antisym: "open_cmp a b \<noteq> Greater \<Longrightarrow> open_cmp b a \<noteq> Greater \<Longrightarrow> a = b"
  by (cases a; cases b) (simp, metis linorder_neqE_nat)

lemma in_candidates:
  "(pos, len, idx) \<in> set (candidates D xs) \<longleftrightarrow>
     idx < length D \<and> find_sub (D ! idx) xs = Some pos \<and> len = str_len (D ! idx)"
proof -
  have "set (candidates D xs) =
      {(pos, str_len d, idx) | pos idx d. (idx, d) \<in> set (enumerate 0 D) \<and> find_sub d xs = Some pos}"
    by (auto simp: candidates_def List.map_filter_def) force
  then show ?thesis by (auto simp: in_set_enumerate_eq)
qed

lemma candidates_Nil: "candidates D xs = [] \<longleftrightarrow> (\<forall>d \<in> set D. find_sub d xs = None)"
proof
  assume "candidates D xs = []"
  then have "find_sub (D ! idx) xs \<noteq> Some pos" if "idx < length D" for idx pos
    using in_candidates [of pos "str_len (D ! idx)" idx D xs] that by simp
  then show "\<forall>d \<in> set D. find_sub d xs = None"
    by (metis in_set_conv_nth not_Some_eq)
next
  assume none: "\<forall>d \<in> set D. find_sub d xs = None"
  have "c \<notin> set (candidates D xs)" for c
  proof (cases c)
    case (fields pos len idx)
    with none show ?thesis by (auto simp: in_candidates dest: nth_mem)
  qed
  then show "candidates D xs = []"
    by (meson last_in_set)
qed

lemma find_any_None: "find_any D xs = None \<longleftrightarrow> (\<forall>d \<in> set D. find_sub d xs = None)"
  by (simp add: find_any_def candidates_Nil)

text \<open>The chosen delimiter precedes every other candidate.\<close>

definition leads :: "rstring list \<Rightarrow> nat \<times> nat \<Rightarrow> nat \<times> nat \<Rightarrow> bool" where
  "leads D = (\<lambda>(i, k) (i', j).
     open_cmp (i, str_len (D ! k), k) (i', str_len (D ! j), j) \<noteq> Greater)"

lemma find_any_Some:
  "find_any D xs = Some (i, k) \<longleftrightarrow>
     k < length D \<and> find_sub (D ! k) xs = Some i \<and>
     (\<forall>j i'. j < length D \<longrightarrow> find_sub (D ! j) xs = Some i' \<longrightarrow> leads D (i, k) (i', j))"
  (is "_ \<longleftrightarrow> ?min i k")
proof -
  have min: "?min i' k'" if "find_any D xs = Some (i', k')" for i' k'
  proof -
    from that obtain len where m: "min_by open_cmp (candidates D xs) = Some (i', len, k')"
      by (auto simp: find_any_def)
    then have c: "k' < length D" "find_sub (D ! k') xs = Some i'" "len = str_len (D ! k')"
      using min_by_in_set [OF m] by (simp_all add: in_candidates)
    moreover have "leads D (i', k') (i'', j)" if "j < length D" "find_sub (D ! j) xs = Some i''" for j i''
      using min_by_least [OF comparator_open_cmp m, of "(i'', str_len (D ! j), j)"] that c
      by (simp add: in_candidates leads_def)
    ultimately show ?thesis by blast
  qed
  show ?thesis
  proof
    assume h: "?min i k"
    then have "find_any D xs \<noteq> None" by (auto simp: find_any_None dest: nth_mem)
    then obtain i' k' where f: "find_any D xs = Some (i', k')" by auto
    from min [OF f] h have "leads D (i, k) (i', k')" "leads D (i', k') (i, k)" by auto
    then have "(i, str_len (D ! k), k) = (i', str_len (D ! k'), k')"
      by (intro open_cmp_antisym) (simp_all add: leads_def)
    with f show "find_any D xs = Some (i, k)" by simp
  qed (rule min)
qed

lemma find_any_single: "find_any [d] xs = map_option (\<lambda>i. (i, 0)) (find_sub d xs)"
  by (cases "find_sub d xs") (simp_all add: find_any_None find_any_Some leads_def)

subsection \<open>Suffixes that may grow into a delimiter\<close>

lemma lsp_from_spec:
  "longest_suffix_prefix_from s d m \<le> m \<and>
   suffix (take (longest_suffix_prefix_from s d m) d) s \<and>
   (\<forall>k \<le> m. suffix (take k d) s \<longrightarrow> k \<le> longest_suffix_prefix_from s d m)"
  by (induction m) (auto simp: le_Suc_eq)

lemma lsp_suffix: "suffix (take (longest_suffix_prefix_len s d) d) s"
  using lsp_from_spec unfolding longest_suffix_prefix_len_def by blast

lemma lsp_less: "d \<noteq> [] \<Longrightarrow> longest_suffix_prefix_len s d < length d"
  using lsp_from_spec [of s d "min (length s) (length d - 1)"]
  unfolding longest_suffix_prefix_len_def by (cases d) auto

lemma lsp_le: "longest_suffix_prefix_len s d \<le> length s"
  using lsp_from_spec [of s d "min (length s) (length d - 1)"]
  unfolding longest_suffix_prefix_len_def by auto

lemma lsp_max: "k < length d \<Longrightarrow> suffix (take k d) s \<Longrightarrow> k \<le> longest_suffix_prefix_len s d"
  using lsp_from_spec [of s d "min (length s) (length d - 1)"] suffix_length_le [of "take k d" s]
  unfolding longest_suffix_prefix_len_def by auto

lemma lsp_cong:
  assumes "\<And>k. k < length d \<Longrightarrow> suffix (take k d) s \<longleftrightarrow> suffix (take k d) s'"
  shows "longest_suffix_prefix_len s d = longest_suffix_prefix_len s' d"
proof (cases "d = []")
  case True
  then show ?thesis by (simp add: longest_suffix_prefix_len_def)
next
  case False
  have "suffix (take (longest_suffix_prefix_len s d) d) s'"
    and "suffix (take (longest_suffix_prefix_len s' d) d) s"
    using assms lsp_less [OF False] lsp_suffix by blast+
  then show ?thesis
    using lsp_max [OF lsp_less [OF False]] by (blast intro: order_antisym)
qed

lemma fold_max_upper: "(x :: nat) \<in> set ms \<or> x \<le> b \<Longrightarrow> x \<le> fold max ms b"
proof (induction ms arbitrary: b)
  case (Cons a ms)
  from Cons.prems consider "x = a" | "x \<in> set ms" | "x \<le> b" by auto
  then have "x \<in> set ms \<or> x \<le> max a b" by cases (simp_all add: le_max_iff_disj)
  from Cons.IH [OF this] show ?case by (simp only: fold_simps)
qed simp

lemma fold_max_in: "fold max ms (b :: nat) = b \<or> fold max ms b \<in> set ms"
proof (induction ms arbitrary: b)
  case (Cons a ms)
  from Cons.IH [of "max a b"] show ?case by (auto simp: max_def)
qed simp

lemma lsp_any_upper: "d \<in> set D \<Longrightarrow> k < length d \<Longrightarrow> suffix (take k d) s \<Longrightarrow> k \<le> lsp_any D s"
  unfolding lsp_any_def by (rule order_trans [OF lsp_max fold_max_upper]) auto

lemma lsp_any_le: "lsp_any D s \<le> length s"
  using fold_max_in [of "map (longest_suffix_prefix_len s) D" 0]
  by (auto simp: lsp_any_def lsp_le)

lemma lsp_any_cong:
  "(\<And>d. d \<in> set D \<Longrightarrow> longest_suffix_prefix_len s d = longest_suffix_prefix_len s' d) \<Longrightarrow>
   lsp_any D s = lsp_any D s'"
  unfolding lsp_any_def by (simp cong: map_cong)

subsection \<open>Extending the text\<close>

text \<open>A delimiter that has been found stays the first one when the text grows.\<close>

lemma find_sub_extend:
  assumes "find_sub d xs = Some i"
  shows "find_sub d (xs @ ys) = Some i"
proof -
  have b: "i + length d \<le> length xs" using find_sub_bound [OF assms] .
  have "prefix d (drop j (xs @ ys)) \<longleftrightarrow> prefix d (drop j xs)" if "j \<le> i" for j
    using that b by (simp add: prefix_extend_iff)
  then show ?thesis using assms b unfolding find_sub_Some by simp
qed

lemma find_sub_earlier:
  assumes "find_sub d (xs @ ys) = Some i" and "i + length d \<le> length xs"
  shows "find_sub d xs = Some i"
proof -
  have "prefix d (drop j (xs @ ys)) \<longleftrightarrow> prefix d (drop j xs)" if "j \<le> i" for j
    using that assms(2) by (simp add: prefix_extend_iff)
  then show ?thesis using assms unfolding find_sub_Some by simp
qed

lemma inside_sublist:
  assumes "prefix d (drop i xs)" and "prefix d' (drop i' xs)"
    and "i' \<le> i" and "i + length d \<le> i' + length d'"
  shows "sublist d d'"
proof -
  from assms(2) obtain r where r: "drop i' xs = d' @ r" by (auto simp: prefix_def)
  have "drop i xs = drop (i - i') (drop i' xs)" using assms(3) by simp
  also have "\<dots> = drop (i - i') d' @ r" using assms(3,4) by (simp add: r)
  finally have "prefix d (drop (i - i') d' @ r)" using assms(1) by simp
  then have "prefix d (drop (i - i') d')" using assms(3,4) by (simp add: prefix_extend_iff)
  then show ?thesis by (meson prefix_imp_sublist sublist_drop sublist_order.order.trans)
qed

lemma find_any_extend:
  assumes sep: "separate D" and f: "find_any D xs = Some (i, k)"
  shows "find_any D (xs @ ys) = Some (i, k)"
  unfolding find_any_Some
proof (intro conjI allI impI)
  from f have k: "k < length D" and fk: "find_sub (D ! k) xs = Some i"
    and lead: "\<And>j i'. j < length D \<Longrightarrow> find_sub (D ! j) xs = Some i' \<Longrightarrow> leads D (i, k) (i', j)"
    by (auto simp: find_any_Some)
  show "k < length D" by (rule k)
  show fk': "find_sub (D ! k) (xs @ ys) = Some i" by (rule find_sub_extend [OF fk])
  fix j i' assume j: "j < length D" and fj: "find_sub (D ! j) (xs @ ys) = Some i'"
  show "leads D (i, k) (i', j)"
  proof (cases "i' + length (D ! j) \<le> length xs")
    case True
    show ?thesis by (rule lead [OF j find_sub_earlier [OF fj True]])
  next
    case False
    have "i < i'"
    proof (rule ccontr)
      assume "\<not> i < i'"
      moreover have "i + length (D ! k) \<le> length xs" by (rule find_sub_bound [OF fk])
      ultimately have "sublist (D ! k) (D ! j)"
        using fk' fj False by (intro inside_sublist [of _ i "xs @ ys" _ i']) (auto simp: find_sub_Some)
      with sep k j have "D ! k = D ! j" by (auto simp: separate_def)
      with fk' fj False \<open>i + length (D ! k) \<le> length xs\<close> show False by simp
    qed
    then show ?thesis by (simp add: leads_def)
  qed
qed

text \<open>When no delimiter is found, the text before the kept suffix takes part in no later match.\<close>

definition settled_prefix :: "rstring list \<Rightarrow> rstring \<Rightarrow> rstring" where
  "settled_prefix D xs = take (length xs - lsp_any D xs) xs"

definition kept_suffix :: "rstring list \<Rightarrow> rstring \<Rightarrow> rstring" where
  "kept_suffix D xs = drop (length xs - lsp_any D xs) xs"

lemma settled_kept: "settled_prefix D xs @ kept_suffix D xs = xs"
  by (simp add: settled_prefix_def kept_suffix_def)

lemma length_kept_suffix: "length (kept_suffix D xs) = lsp_any D xs"
  using lsp_any_le [of D xs] by (simp add: kept_suffix_def)

lemma no_match_before_kept:
  assumes none: "find_any D xs = None" and d: "d \<in> set D" "d \<noteq> []"
    and q: "q < length (settled_prefix D xs)"
  shows "\<not> prefix d (drop q (xs @ ys))"
proof
  assume pre: "prefix d (drop q (xs @ ys))"
  have q': "q < length xs - lsp_any D xs" using q by (simp add: settled_prefix_def)
  show False
  proof (cases "q + length d \<le> length xs")
    case True
    with pre q' have "prefix d (drop q xs)" by (simp add: prefix_extend_iff)
    with none d q' show False by (force simp: find_any_None find_sub_None)
  next
    case False
    let ?k = "length xs - q"
    obtain zs where zs: "drop q (xs @ ys) = d @ zs" using pre by (auto simp: prefix_def)
    have "take ?k d = take ?k (d @ zs)" using False by simp
    also have "\<dots> = take ?k (drop q (xs @ ys))" by (simp only: zs)
    also have "\<dots> = drop q xs" using q' by simp
    finally have "suffix (take ?k d) xs" by (simp add: suffix_drop)
    then have "?k \<le> lsp_any D xs" using False q' by (intro lsp_any_upper [OF d(1)]) auto
    with q' show False by simp
  qed
qed

lemma find_sub_skip:
  "(\<And>q. q < length ts \<Longrightarrow> \<not> prefix d (drop q (ts @ zs))) \<Longrightarrow>
   find_sub d (ts @ zs) = map_option (\<lambda>i. length ts + i) (find_sub d zs)"
proof (induction ts)
  case (Cons t ts)
  have "\<not> prefix d (drop q (ts @ zs))" if "q < length ts" for q
    using Cons.prems [of "Suc q"] that by simp
  with Cons.IH Cons.prems [of 0] show ?case
    by (simp add: option.map_comp comp_def)
qed (cases "find_sub d zs", simp_all)

lemma find_any_skip:
  assumes none: "find_any D xs = None" and ne: "[] \<notin> set D"
  shows "find_any D (xs @ ys) =
    map_option (\<lambda>(i, k). (length (settled_prefix D xs) + i, k)) (find_any D (kept_suffix D xs @ ys))"
proof -
  have shift: "find_sub d (xs @ ys) =
      map_option (\<lambda>i. length (settled_prefix D xs) + i) (find_sub d (kept_suffix D xs @ ys))"
    if "d \<in> set D" for d
    using find_sub_skip [of "settled_prefix D xs" d "kept_suffix D xs @ ys"]
      no_match_before_kept [OF none that, of _ ys] ne that settled_kept [of D xs]
    by (metis append.assoc)
  show ?thesis
  proof (cases "find_any D (kept_suffix D xs @ ys)")
    case None
    then have "find_any D (xs @ ys) = None" using shift by (simp add: find_any_None)
    with None show ?thesis by simp
  next
    case (Some ik)
    then obtain i k where ik: "ik = (i, k)" by fastforce
    have "find_any D (xs @ ys) = Some (length (settled_prefix D xs) + i, k)"
      using Some unfolding ik find_any_Some by (auto simp: shift leads_def)
    then show ?thesis by (simp add: Some ik)
  qed
qed

lemma lsp_any_skip:
  "lsp_any D (xs @ ys) = lsp_any D (kept_suffix D xs @ ys)"
proof (rule lsp_any_cong, rule lsp_cong)
  fix d k assume d: "d \<in> set D" and k: "k < length d"
  show "suffix (take k d) (xs @ ys) \<longleftrightarrow> suffix (take k d) (kept_suffix D xs @ ys)"
  proof
    assume "suffix (take k d) (xs @ ys)"
    then consider "suffix (take k d) ys" | ws where "take k d = ws @ ys" "suffix ws xs"
      by (auto simp: suffix_append)
    then show "suffix (take k d) (kept_suffix D xs @ ys)"
    proof cases
      case 1
      then show ?thesis by (simp add: suffix_append)
    next
      case 2
      have len: "length ws + length ys = k" using arg_cong [OF 2(1), of length] k by simp
      have "take (length ws) d = ws"
        using arg_cong [OF 2(1), of "take (length ws)"] len by (simp add: min_def)
      then have "length ws \<le> lsp_any D xs"
        using 2(2) len k by (intro lsp_any_upper [OF d]) auto
      then have "suffix ws (kept_suffix D xs)"
        using 2(2) length_kept_suffix [of D xs] settled_kept [of D xs]
        by (metis suffix_length_suffix suffixI)
      then show ?thesis by (simp add: 2(1) suffix_append)
    qed
  next
    assume "suffix (take k d) (kept_suffix D xs @ ys)"
    then show "suffix (take k d) (xs @ ys)"
      by (metis append.assoc settled_kept suffix_order.trans suffixI)
  qed
qed

lemma kept_suffix_idem:
  assumes "find_any D xs = None" and "[] \<notin> set D"
  shows "find_any D (kept_suffix D xs) = None" and "lsp_any D (kept_suffix D xs) = lsp_any D xs"
  using find_any_skip [OF assms, of "[]"] lsp_any_skip [of D xs "[]"] assms by simp_all

section \<open>The loop\<close>

text \<open>One iteration, in both modes: either the first delimiter is consumed, or the text before the
  kept suffix is absorbed and the loop ends.\<close>

definition delims :: "'t inline_parser \<Rightarrow> rstring list" where
  "delims p = (case active p of Some act \<Rightarrow> [act_close act] | None \<Rightarrow> map its_open (specs p))"

definition absorb :: "'t inline_parser \<Rightarrow> rstring \<Rightarrow>
    't inline_parser \<times> 't extracted_inline_tag stream_text_chunk" where
  "absorb p t =
     (case active p of
        Some act \<Rightarrow> (p\<lparr>active := Some (act\<lparr>act_content := act_content act @ t\<rparr>)\<rparr>, chunk_default)
      | None \<Rightarrow> (p, chunk_default\<lparr>visible_text := t\<rparr>))"

definition toggle :: "'t inline_parser \<Rightarrow> nat \<Rightarrow>
    't inline_parser \<times> 't extracted_inline_tag stream_text_chunk" where
  "toggle p k =
     (case active p of
        Some act \<Rightarrow>
          (p\<lparr>active := None\<rparr>,
           chunk_default\<lparr>extracted := [\<lparr>eit_tag = act_tag act, eit_content = act_content act\<rparr>]\<rparr>)
      | None \<Rightarrow>
          (p\<lparr>active := Some \<lparr>act_tag = its_tag (specs p ! k), act_close = its_close (specs p ! k),
                            act_content = []\<rparr>\<rparr>, chunk_default))"

definition consume :: "'t inline_parser \<Rightarrow> nat \<times> nat \<Rightarrow>
    't inline_parser \<times> 't extracted_inline_tag stream_text_chunk" where
  "consume p ik =
     (let (p1, o1) = absorb p (take (fst ik) (pending p));
          (p2, o2) = toggle p1 (snd ik)
      in (p2\<lparr>pending := drop (fst ik + length (delims p ! snd ik)) (pending p)\<rparr>,
          chunk_append o1 o2))"

definition settle :: "'t inline_parser \<Rightarrow>
    't inline_parser \<times> 't extracted_inline_tag stream_text_chunk" where
  "settle p =
     (let (p1, o1) = absorb p (settled_prefix (delims p) (pending p))
      in (p1\<lparr>pending := kept_suffix (delims p) (pending p)\<rparr>, o1))"

lemma open_candidates_eq: "open_candidates sp xs = candidates (map its_open sp) xs"
proof -
  have "enumerate 0 (map its_open sp) = map (\<lambda>(i, s). (i, its_open s)) (enumerate 0 sp)"
    by (simp add: enumerate_map_upt enumerate_eq_zip zip_map2 map_prod_def)
  then show ?thesis
    by (simp add: open_candidates_def candidates_def List.map_filter_def filter_map comp_def
        case_prod_beta)
qed

lemma find_next_open_eq: "find_next_open p = find_any (map its_open (specs p)) (pending p)"
  by (simp add: find_next_open_def find_any_def open_candidates_eq)

lemma max_open_eq: "max_open_prefix_suffix_len p = lsp_any (map its_open (specs p)) (pending p)"
  by (simp add: max_open_prefix_suffix_len_def lsp_any_def comp_def)

lemma lsp_any_single: "lsp_any [d] xs = longest_suffix_prefix_len xs d"
  by (simp add: lsp_any_def)

lemma chunk_update_eq:
  "out\<lparr>visible_text := visible_text out @ t\<rparr> =
     chunk_append out (chunk_default\<lparr>visible_text := t\<rparr>)"
  "out\<lparr>extracted := extracted out @ es\<rparr> = chunk_append out (chunk_default\<lparr>extracted := es\<rparr>)"
  by (simp_all add: chunk_append_def chunk_default_def)

lemma push_visible_prefix_eq:
  "push_visible_prefix out t = chunk_append out (chunk_default\<lparr>visible_text := t\<rparr>)"
  by (simp add: push_visible_prefix_def chunk_append_def chunk_default_def)

lemma pending_active_commute:
  "p\<lparr>pending := t, active := act\<rparr> = p\<lparr>active := act, pending := t\<rparr>"
  by (cases p) simp

lemma push_loop_step:
  "push_loop (Suc fuel) p out =
    (case find_any (delims p) (pending p) of
       Some ik \<Rightarrow> (let (p', o') = consume p ik in push_loop fuel p' (chunk_append out o'))
     | None \<Rightarrow> (let (p', o') = settle p in (p', chunk_append out o')))"
proof (cases "active p")
  case None
  then have D: "delims p = map its_open (specs p)" by (simp add: delims_def)
  show ?thesis
  proof (cases "find_next_open p")
    case None': None
    then have "find_any (delims p) (pending p) = None" by (simp add: find_next_open_eq D)
    with None None' show ?thesis
      by (simp add: drain_visible_to_suffix_match_def settle_def absorb_def D max_open_eq
          settled_prefix_def kept_suffix_def push_visible_prefix_eq Let_def)
  next
    case (Some ik)
    then obtain i k where ik: "ik = (i, k)" "find_any (delims p) (pending p) = Some (i, k)"
      by (cases ik) (simp add: find_next_open_eq D)
    then have "k < length (specs p)" by (simp add: find_any_Some D)
    with None Some ik show ?thesis
      by (simp add: consume_def absorb_def toggle_def D push_visible_prefix_eq Let_def
          pending_active_commute)
  qed
next
  case (Some act)
  then have D: "delims p = [act_close act]" by (simp add: delims_def)
  show ?thesis
  proof (cases "find_sub (act_close act) (pending p)")
    case None
    with Some show ?thesis
      by (simp add: find_any_single settle_def absorb_def D lsp_any_single
          settled_prefix_def kept_suffix_def Let_def)
  next
    case Some': (Some i)
    with Some show ?thesis
      by (simp add: find_any_single consume_def absorb_def toggle_def D chunk_update_eq)
  qed
qed

declare push_loop.simps(2) [simp del]

text \<open>Delimiters of a usable parser: what \<open>new\<close> asserts, and that no opening delimiter occurs inside
  another one.\<close>

definition inline_wf :: "'t inline_parser \<Rightarrow> bool" where
  "inline_wf p \<longleftrightarrow>
     separate (map its_open (specs p)) \<and> (\<forall>s \<in> set (specs p). its_close s \<noteq> []) \<and>
     (\<forall>act. active p = Some act \<longrightarrow> act_close act \<noteq> [])"

definition run :: "'t inline_parser \<Rightarrow>
    't inline_parser \<times> 't extracted_inline_tag stream_text_chunk" where
  "run p = push_loop (Suc (length (pending p))) p chunk_default"

lemma separate_delims: "inline_wf p \<Longrightarrow> separate (delims p)"
  by (auto simp: inline_wf_def delims_def separate_def split: option.split)

lemma absorb_simps [simp]:
  "specs (fst (absorb p t)) = specs p" "pending (fst (absorb p t)) = pending p"
  "delims (fst (absorb p t)) = delims p" "inline_wf (fst (absorb p t)) = inline_wf p"
  "delims (p\<lparr>pending := u\<rparr>) = delims p" "inline_wf (p\<lparr>pending := u\<rparr>) = inline_wf p"
  by (auto simp: absorb_def delims_def inline_wf_def split: option.split)

lemma absorb_absorb:
  "absorb p (t @ u) =
     (fst (absorb (fst (absorb p t)) u),
      chunk_append (snd (absorb p t)) (snd (absorb (fst (absorb p t)) u)))"
  by (auto simp: absorb_def chunk_append_def split: option.split)

lemma absorb_pending:
  "absorb (p\<lparr>pending := u\<rparr>) t = ((fst (absorb p t))\<lparr>pending := u\<rparr>, snd (absorb p t))"
  by (auto simp: absorb_def pending_active_commute split: option.split)

lemma toggle_pending:
  "toggle (p\<lparr>pending := u\<rparr>) k = ((fst (toggle p k))\<lparr>pending := u\<rparr>, snd (toggle p k))"
  by (auto simp: toggle_def pending_active_commute split: option.split)

lemma toggle_wf: "inline_wf p \<Longrightarrow> k < length (delims p) \<Longrightarrow> inline_wf (fst (toggle p k))"
  by (auto simp: toggle_def inline_wf_def delims_def split: option.splits dest: nth_mem)

lemma consume_wf: "inline_wf p \<Longrightarrow> k < length (delims p) \<Longrightarrow> inline_wf (fst (consume p (i, k)))"
  using toggle_wf [of "fst (absorb p (take i (pending p)))" k]
  by (simp add: consume_def Let_def case_prod_beta)

lemma consume_shorter:
  assumes "inline_wf p" and "find_any (delims p) (pending p) = Some (i, k)"
  shows "length (pending (fst (consume p (i, k)))) < length (pending p)"
proof -
  have "k < length (delims p)" and f: "find_sub (delims p ! k) (pending p) = Some i"
    using assms(2) by (auto simp: find_any_Some)
  then have "0 < length (delims p ! k)"
    using separate_delims [OF assms(1)] by (auto simp: separate_def dest: nth_mem)
  then show ?thesis
    using find_sub_bound [OF f]
    by (simp add: consume_def Let_def case_prod_beta del: length_greater_0_conv)
qed

text \<open>The fuel of \<open>push_str\<close> is enough: more fuel changes nothing, and the loop ends by settling.\<close>

lemma push_loop_fuel:
  assumes "inline_wf p" and "length (pending p) < fuel"
  shows "push_loop fuel p out = (fst (run p), chunk_append out (snd (run p)))"
  using assms
proof (induction fuel arbitrary: p out rule: less_induct)
  case (less fuel)
  then obtain f where f: "fuel = Suc f" by (cases fuel) auto
  show ?case
  proof (cases "find_any (delims p) (pending p)")
    case None
    then show ?thesis
      unfolding run_def f push_loop_step by (simp add: Let_def case_prod_beta)
  next
    case (Some ik)
    then obtain i k where ik: "ik = (i, k)" by fastforce
    let ?p = "fst (consume p (i, k))" and ?o = "snd (consume p (i, k))"
    have wf: "inline_wf ?p"
      using Some less.prems(1) by (simp add: ik find_any_Some consume_wf)
    have len: "length (pending ?p) < length (pending p)"
      using consume_shorter less.prems(1) Some ik by blast
    have "push_loop f ?p o' = (fst (run ?p), chunk_append o' (snd (run ?p)))"
      and "push_loop (length (pending p)) ?p o' = (fst (run ?p), chunk_append o' (snd (run ?p)))" for o'
      using less.IH [of f ?p o'] less.IH [of "length (pending p)" ?p o'] wf len less.prems(2) f
      by simp_all
    then show ?thesis
      unfolding run_def [of p] f push_loop_step
      by (simp add: Some ik Let_def case_prod_beta chunk_append_assoc)
  qed
qed

lemma run_unfold:
  assumes "inline_wf p"
  shows "run p =
    (case find_any (delims p) (pending p) of
       Some ik \<Rightarrow> (fst (run (fst (consume p ik))),
                  chunk_append (snd (consume p ik)) (snd (run (fst (consume p ik)))))
     | None \<Rightarrow> settle p)"
proof (cases "find_any (delims p) (pending p)")
  case None
  then show ?thesis unfolding run_def push_loop_step by (simp add: Let_def case_prod_beta)
next
  case (Some ik)
  then obtain i k where ik: "ik = (i, k)" by fastforce
  have "inline_wf (fst (consume p (i, k)))"
    and "length (pending (fst (consume p (i, k)))) < length (pending p)"
    using Some assms by (simp_all add: ik find_any_Some consume_wf consume_shorter)
  then show ?thesis
    unfolding run_def [of p] push_loop_step
    by (simp add: Some ik Let_def case_prod_beta push_loop_fuel)
qed

section \<open>Chunk boundaries do not matter\<close>

lemma consume_extend:
  assumes "find_any (delims p) (pending p) = Some (i, k)"
  shows "consume (p\<lparr>pending := pending p @ ys\<rparr>) (i, k) =
    ((fst (consume p (i, k)))\<lparr>pending := pending (fst (consume p (i, k))) @ ys\<rparr>,
     snd (consume p (i, k)))"
proof -
  have "i + length (delims p ! k) \<le> length (pending p)"
    using assms by (auto simp: find_any_Some dest: find_sub_bound)
  then show ?thesis
    by (simp add: consume_def Let_def case_prod_beta absorb_pending toggle_pending)
qed

lemma settle_simps:
  "fst (settle p) =
     (fst (absorb p (settled_prefix (delims p) (pending p))))
       \<lparr>pending := kept_suffix (delims p) (pending p)\<rparr>"
  "snd (settle p) = snd (absorb p (settled_prefix (delims p) (pending p)))"
  by (simp_all add: settle_def Let_def case_prod_beta)

lemma take_settled:
  "take (length (settled_prefix D xs) + i) (xs @ ys) =
     settled_prefix D xs @ take i (kept_suffix D xs @ ys)"
  "drop (length (settled_prefix D xs) + i) (xs @ ys) = drop i (kept_suffix D xs @ ys)"
  using arg_cong [OF settled_kept [of D xs], of "\<lambda>zs. take (length (settled_prefix D xs) + i) (zs @ ys)"]
    arg_cong [OF settled_kept [of D xs], of "\<lambda>zs. drop (length (settled_prefix D xs) + i) (zs @ ys)"]
  by (simp_all add: take_add)

lemma consume_after_settle:
  "consume (p\<lparr>pending := pending p @ ys\<rparr>) (length (settled_prefix (delims p) (pending p)) + i, k) =
    (let p1 = fst (settle p); c = consume (p1\<lparr>pending := pending p1 @ ys\<rparr>) (i, k)
     in (fst c, chunk_append (snd (settle p)) (snd c)))"
  by (simp add: consume_def Let_def case_prod_beta settle_simps absorb_pending toggle_pending
      take_settled absorb_absorb chunk_append_assoc add.assoc del: take_append drop_append)

lemma settle_after_settle:
  assumes "find_any (delims p) (pending p) = None" and "[] \<notin> set (delims p)"
  shows "settle (p\<lparr>pending := pending p @ ys\<rparr>) =
    (let p1 = fst (settle p); c = settle (p1\<lparr>pending := pending p1 @ ys\<rparr>)
     in (fst c, chunk_append (snd (settle p)) (snd c)))"
proof -
  let ?D = "delims p" and ?xs = "pending p"
  let ?n = "length (kept_suffix ?D ?xs @ ys) - lsp_any ?D (kept_suffix ?D ?xs @ ys)"
  have len: "length ?xs = length (settled_prefix ?D ?xs) + length (kept_suffix ?D ?xs)"
    by (metis length_append settled_kept)
  have "length (?xs @ ys) - lsp_any ?D (?xs @ ys) = length (settled_prefix ?D ?xs) + ?n"
    using lsp_any_skip [of ?D ?xs ys] lsp_any_le [of ?D "kept_suffix ?D ?xs @ ys"] len by simp
  then have "settled_prefix ?D (?xs @ ys) = settled_prefix ?D ?xs @ settled_prefix ?D (kept_suffix ?D ?xs @ ys)"
    and "kept_suffix ?D (?xs @ ys) = kept_suffix ?D (kept_suffix ?D ?xs @ ys)"
    unfolding settled_prefix_def [of _ "?xs @ ys"] kept_suffix_def [of _ "?xs @ ys"]
    by (simp_all add: take_settled settled_prefix_def [of _ "kept_suffix ?D ?xs @ ys"]
        kept_suffix_def [of _ "kept_suffix ?D ?xs @ ys"] del: append_assoc take_append drop_append)
  then show ?thesis
    by (simp add: settle_def Let_def case_prod_beta absorb_pending absorb_absorb)
qed

lemma run_append:
  assumes "inline_wf p"
  shows "run (p\<lparr>pending := pending p @ ys\<rparr>) =
    (let p1 = fst (run p); r = run (p1\<lparr>pending := pending p1 @ ys\<rparr>)
     in (fst r, chunk_append (snd (run p)) (snd r)))"
  using assms
proof (induction "length (pending p)" arbitrary: p rule: less_induct)
  case less
  let ?q = "p\<lparr>pending := pending p @ ys\<rparr>"
  have sep: "separate (delims p)" and ne: "[] \<notin> set (delims p)"
    using separate_delims [OF less.prems] by (auto simp: separate_def)
  have wf: "inline_wf ?q" using less.prems by simp
  show ?case
  proof (cases "find_any (delims p) (pending p)")
    case (Some ik)
    then obtain i k where f: "find_any (delims p) (pending p) = Some (i, k)" by (cases ik) simp
    let ?c = "consume p (i, k)"
    have c: "inline_wf (fst ?c)" "length (pending (fst ?c)) < length (pending p)"
      using f less.prems by (simp_all add: find_any_Some consume_wf consume_shorter)
    have "run ?q = (let r = run ((fst ?c)\<lparr>pending := pending (fst ?c) @ ys\<rparr>)
                    in (fst r, chunk_append (snd ?c) (snd r)))"
      by (simp add: run_unfold [OF wf] find_any_extend [OF sep f] consume_extend [OF f] Let_def)
    then show ?thesis
      by (simp add: less.hyps [OF c(2) c(1)] run_unfold [OF less.prems] f Let_def chunk_append_assoc)
  next
    case None
    have r: "run p = settle p" by (simp add: run_unfold [OF less.prems] None)
    let ?p1 = "fst (settle p)"
    let ?q1 = "?p1\<lparr>pending := pending ?p1 @ ys\<rparr>"
    have wf1: "inline_wf ?q1" using less.prems by (simp add: settle_simps)
    have D: "delims ?q1 = delims p" "pending ?q1 = kept_suffix (delims p) (pending p) @ ys"
      by (simp_all add: settle_simps)
    show ?thesis
      unfolding r Let_def run_unfold [OF wf] run_unfold [OF wf1] D
      by (auto simp: find_any_skip [OF None ne] settle_after_settle [OF None ne]
          consume_after_settle Let_def chunk_append_assoc split: option.split)
  qed
qed

definition inline_inv :: "'t inline_parser \<Rightarrow> bool" where
  "inline_inv p \<longleftrightarrow>
     inline_wf p \<and> find_any (delims p) (pending p) = None \<and>
     lsp_any (delims p) (pending p) = length (pending p)"

lemma run_inv: "inline_wf p \<Longrightarrow> inline_inv (fst (run p))"
proof (induction "length (pending p)" arbitrary: p rule: less_induct)
  case less
  show ?case
  proof (cases "find_any (delims p) (pending p)")
    case None
    have "[] \<notin> set (delims p)" using separate_delims [OF less.prems] by (simp add: separate_def)
    then show ?thesis
      using less.prems None
      by (simp add: run_unfold settle_simps inline_inv_def kept_suffix_idem length_kept_suffix)
  next
    case (Some ik)
    then obtain i k where f: "find_any (delims p) (pending p) = Some (i, k)" by (cases ik) simp
    then have "inline_wf (fst (consume p (i, k)))"
        "length (pending (fst (consume p (i, k)))) < length (pending p)"
      using less.prems by (simp_all add: find_any_Some consume_wf consume_shorter)
    from less.hyps [OF this(2,1)] show ?thesis by (simp add: run_unfold [OF less.prems] f)
  qed
qed

lemma inline_push_str_run: "inline_push_str p t = run (p\<lparr>pending := pending p @ t\<rparr>)"
  by (simp add: inline_push_str_def run_def Let_def)

lemma run_settled: "inline_inv p \<Longrightarrow> run p = (p, chunk_default)"
  by (cases "active p")
     (auto simp: inline_inv_def run_unfold settle_def settled_prefix_def kept_suffix_def absorb_def)

lemma inline_inv_wf: "inline_inv p \<Longrightarrow> inline_wf p"
  by (simp add: inline_inv_def)

lemma find_any_empty: "[] \<notin> set D \<Longrightarrow> find_any D [] = None"
  by (auto simp: find_any_None)

lemma inline_finish_inv: "inline_inv p \<Longrightarrow> inline_inv (fst (inline_finish p))"
  using lsp_any_le [of "map its_open (specs p)" "[]"]
  by (auto simp: inline_finish_def inline_inv_def inline_wf_def delims_def separate_def
      find_any_empty split: option.split)

text \<open>The parser keeps the contract of the trait; extracted tags are reported whole.\<close>

interpretation inl: stream_text_parser inline_push_str inline_finish inline_inv "\<lambda>es. es"
proof unfold_locales
  fix p :: "'t inline_parser" and t u
  assume inv: "inline_inv p"
  let ?p = "p\<lparr>pending := pending p @ t\<rparr>"
  have wf: "inline_wf ?p" using inv by (simp add: inline_inv_wf)
  show "inline_inv (fst (inline_push_str p t))"
    unfolding inline_push_str_run by (rule run_inv [OF wf])
  show "inline_inv (fst (inline_finish p))"
    using inv by (rule inline_finish_inv)
  show "inline_push_str p [] = (p, chunk_default)"
    using inv by (simp add: inline_push_str_run run_settled)
  have "inline_push_str p (t @ u) =
      (fst (inline_push_str (fst (inline_push_str p t)) u),
       chunk_append (snd (inline_push_str p t)) (snd (inline_push_str (fst (inline_push_str p t)) u)))"
    using run_append [OF wf, of u] by (simp add: inline_push_str_run Let_def)
  then show "fst (inline_push_str p (t @ u)) = fst (inline_push_str (fst (inline_push_str p t)) u)"
    and "visible_text (snd (inline_push_str p (t @ u))) =
      visible_text (snd (inline_push_str p t)) @
      visible_text (snd (inline_push_str (fst (inline_push_str p t)) u))"
    and "extracted (snd (inline_push_str p (t @ u))) =
      extracted (snd (inline_push_str p t)) @
      extracted (snd (inline_push_str (fst (inline_push_str p t)) u))"
    by simp_all
qed simp

section \<open>Reference semantics on a complete text\<close>

text \<open>What the parser computes, without streaming: up to the first opening delimiter the text is
  visible; the text from there to the first matching close delimiter is the body of the tag; a tag
  that is not closed takes the rest of the text.\<close>

definition after_open :: "'t inline_tag_spec list \<Rightarrow> rstring \<Rightarrow> nat \<times> nat \<Rightarrow> rstring" where
  "after_open sp str ik = drop (fst ik + length (its_open (sp ! snd ik))) str"

inductive hides :: "'t inline_tag_spec list \<Rightarrow> rstring \<Rightarrow> rstring \<Rightarrow>
    't extracted_inline_tag list \<Rightarrow> bool" for sp where
  hides_plain: "find_any (map its_open sp) str = None \<Longrightarrow> hides sp str str []"
| hides_unclosed: "find_any (map its_open sp) str = Some (i, k) \<Longrightarrow>
     find_sub (its_close (sp ! k)) (after_open sp str (i, k)) = None \<Longrightarrow>
     hides sp str (take i str)
       [\<lparr>eit_tag = its_tag (sp ! k), eit_content = after_open sp str (i, k)\<rparr>]"
| hides_closed: "find_any (map its_open sp) str = Some (i, k) \<Longrightarrow>
     find_sub (its_close (sp ! k)) (after_open sp str (i, k)) = Some j \<Longrightarrow>
     hides sp (drop (j + length (its_close (sp ! k))) (after_open sp str (i, k))) visible tags \<Longrightarrow>
     hides sp str (take i str @ visible)
       (\<lparr>eit_tag = its_tag (sp ! k), eit_content = take j (after_open sp str (i, k))\<rparr> # tags)"

inductive_cases hidesE: "hides sp str v es"

lemma hides_deterministic:
  assumes "hides sp str v es" and "hides sp str v' es'"
  shows "v' = v \<and> es' = es"
  using assms
proof (induction arbitrary: v' es' rule: hides.induct)
  case (hides_plain str)
  from hides_plain.prems show ?case
    by (rule hidesE) (simp_all add: hides_plain.hyps)
next
  case (hides_unclosed str i k)
  from hides_unclosed.prems show ?case
    by (rule hidesE) (use hides_unclosed.hyps in auto)
next
  case (hides_closed str i k j visible tags)
  from hides_closed.prems show ?case
  proof (rule hidesE)
    fix i' k' j' visible' tags'
    assume v: "v' = take i' str @ visible'"
      and es: "es' = \<lparr>eit_tag = its_tag (sp ! k'),
          eit_content = take j' (after_open sp str (i', k'))\<rparr> # tags'"
      and f: "find_any (map its_open sp) str = Some (i', k')"
      and c: "find_sub (its_close (sp ! k')) (after_open sp str (i', k')) = Some j'"
      and h: "hides sp (drop (j' + length (its_close (sp ! k'))) (after_open sp str (i', k')))
          visible' tags'"
    have ik: "i' = i" "k' = k" using f hides_closed.hyps(1) by simp_all
    then have "j' = j" using c hides_closed.hyps(2) by simp
    with h ik have "visible' = visible \<and> tags' = tags" by (intro hides_closed.IH) simp
    with v es ik \<open>j' = j\<close> show ?thesis by simp
  qed (use hides_closed.hyps(1,2) in simp_all)
qed

definition outcome :: "'t inline_parser \<Rightarrow> 't extracted_inline_tag stream_text_chunk" where
  "outcome p = chunk_append (snd (run p)) (snd (inline_finish (fst (run p))))"

lemma finish_after_settle:
  "chunk_append (snd (settle p)) (snd (inline_finish (fst (settle p)))) = snd (inline_finish p)"
  using settled_kept [of "delims p" "pending p"]
  by (auto simp: settle_simps absorb_def inline_finish_def chunk_append_def chunk_default_def
      split: option.split)

lemma outcome_unfold:
  assumes "inline_wf p"
  shows "outcome p =
    (case find_any (delims p) (pending p) of
       Some ik \<Rightarrow> chunk_append (snd (consume p ik)) (outcome (fst (consume p ik)))
     | None \<Rightarrow> snd (inline_finish p))"
  using finish_after_settle [of p]
  by (simp add: outcome_def run_unfold [OF assms] chunk_append_assoc split: option.split)

lemma outcome_hides:
  assumes "inline_wf p" and "active p = None"
  shows "hides (specs p) (pending p) (visible_text (outcome p)) (extracted (outcome p))"
  using assms
proof (induction "length (pending p)" arbitrary: p rule: less_induct)
  case less
  have D: "delims p = map its_open (specs p)" using less.prems(2) by (simp add: delims_def)
  show ?case
  proof (cases "find_any (delims p) (pending p)")
    case None
    then show ?thesis
      using less.prems D by (simp add: outcome_unfold inline_finish_def hides_plain)
  next
    case (Some ik)
    then obtain i k where f: "find_any (delims p) (pending p) = Some (i, k)" by (cases ik) simp
    define p1 where "p1 = fst (consume p (i, k))"
    define body where "body = after_open (specs p) (pending p) (i, k)"
    have k: "k < length (specs p)" using f by (simp add: D find_any_Some)
    have p1: "inline_wf p1" "length (pending p1) < length (pending p)"
      using f less.prems(1) by (simp_all add: p1_def find_any_Some consume_wf consume_shorter)
    have c1: "p1 = p\<lparr>active := Some \<lparr>act_tag = its_tag (specs p ! k),
          act_close = its_close (specs p ! k), act_content = []\<rparr>, pending := body\<rparr>"
        "snd (consume p (i, k)) = chunk_default\<lparr>visible_text := take i (pending p)\<rparr>"
      using k less.prems(2)
      by (simp_all add: p1_def body_def after_open_def consume_def absorb_def toggle_def D Let_def)
    have o1: "outcome p =
        chunk_append (chunk_default\<lparr>visible_text := take i (pending p)\<rparr>) (outcome p1)"
      by (simp add: outcome_unfold [OF less.prems(1)] f c1(2) p1_def)
    have D1: "delims p1 = [its_close (specs p ! k)]" "pending p1 = body"
      by (simp_all add: c1(1) delims_def)
    show ?thesis
    proof (cases "find_sub (its_close (specs p ! k)) body")
      case None
      then have "outcome p1 = snd (inline_finish p1)"
        by (simp add: outcome_unfold [OF p1(1)] D1 find_any_single)
      then have "outcome p1 = chunk_default\<lparr>extracted :=
          [\<lparr>eit_tag = its_tag (specs p ! k), eit_content = body\<rparr>]\<rparr>"
        by (simp add: inline_finish_def c1(1))
      then show ?thesis
        using hides_unclosed [OF f [unfolded D]] None by (simp add: o1 body_def)
    next
      case (Some j)
      define p2 where "p2 = fst (consume p1 (j, 0))"
      have f1: "find_any (delims p1) (pending p1) = Some (j, 0)"
        using Some by (simp add: D1 find_any_single)
      have p2: "inline_wf p2" "length (pending p2) < length (pending p1)"
        using consume_wf [OF p1(1)] consume_shorter [OF p1(1) f1] by (simp_all add: p2_def D1)
      have c2: "specs p2 = specs p" "active p2 = None"
          "pending p2 = drop (j + length (its_close (specs p ! k))) body"
          "snd (consume p1 (j, 0)) = chunk_default\<lparr>extracted :=
             [\<lparr>eit_tag = its_tag (specs p ! k), eit_content = take j body\<rparr>]\<rparr>"
        by (simp_all add: p2_def consume_def absorb_def toggle_def delims_def Let_def c1(1))
      have "outcome p1 = chunk_append (snd (consume p1 (j, 0))) (outcome p2)"
        by (simp add: outcome_unfold [OF p1(1)] f1 p2_def)
      moreover have "hides (specs p2) (pending p2) (visible_text (outcome p2)) (extracted (outcome p2))"
        using less.hyps [of p2] p1(2) p2 c2(2) by simp
      ultimately show ?thesis
        using hides_closed [OF f [unfolded D]] Some by (simp add: o1 c2 body_def)
    qed
  qed
qed

section \<open>Properties\<close>

lemma inline_new_inv:
  assumes "inline_new sp = Some p" and "separate (map its_open sp)"
  shows "inline_inv p \<and> specs p = sp \<and> pending p = [] \<and> active p = None"
  using assms lsp_any_le [of "map its_open sp" "[]"]
  by (auto simp: inline_new_def inline_inv_def inline_wf_def delims_def separate_def find_any_empty
      split: if_splits)

lemma collect_whole: "collect inline_push_str inline_finish p [t] = outcome (p\<lparr>pending := pending p @ t\<rparr>)"
  by (simp add: collect_def outcome_def inline_push_str_run Let_def case_prod_beta)

text \<open>C22: for a parser made by \<open>InlineHiddenTagParser::new\<close> whose opening delimiters do not occur
  inside one another, pushing a text in any chunks and finishing yields the visible text and the
  tag bodies of the reference semantics on the whole text.\<close>

theorem inline_collect_hides:
  assumes "inline_new sp = Some p" and "separate (map its_open sp)"
  shows "hides sp (concat ts) (visible_text (collect inline_push_str inline_finish p ts))
     (extracted (collect inline_push_str inline_finish p ts))"
proof -
  from inline_new_inv [OF assms] have p: "inline_inv p" "specs p = sp" "pending p = []" "active p = None"
    by auto
  have "hides sp (concat ts) (visible_text (collect inline_push_str inline_finish p [concat ts]))
     (extracted (collect inline_push_str inline_finish p [concat ts]))"
    using outcome_hides [of "p\<lparr>pending := concat ts\<rparr>"] p by (simp add: collect_whole inline_inv_wf)
  then show ?thesis using inl.collect_single [OF p(1), of ts] by simp
qed

theorem inline_collect_hides_witness:
  "inline_new [\<lparr>its_tag = (0::nat), its_open = lit ''<a>'', its_close = lit ''</a>''\<rparr>,
               \<lparr>its_tag = 1, its_open = lit ''<b>'', its_close = lit ''</b>''\<rparr>] \<noteq> None \<and>
   hides [\<lparr>its_tag = (0::nat), its_open = lit ''<a>'', its_close = lit ''</a>''\<rparr>,
          \<lparr>its_tag = 1, its_open = lit ''<b>'', its_close = lit ''</b>''\<rparr>]
     (lit ''x<b>y</b>z<a>w'') (lit ''xz'')
     [\<lparr>eit_tag = 1, eit_content = lit ''y''\<rparr>, \<lparr>eit_tag = 0, eit_content = lit ''w''\<rparr>]"
proof -
  let ?sp = "[\<lparr>its_tag = (0::nat), its_open = lit ''<a>'', its_close = lit ''</a>''\<rparr>,
              \<lparr>its_tag = 1, its_open = lit ''<b>'', its_close = lit ''</b>''\<rparr>]"
  let ?p = "\<lparr>specs = ?sp, pending = [], active = None\<rparr>"
  let ?ts = "[lit ''x<'', lit ''b>y</b>z<a'', lit ''>w'']"
  have new: "inline_new ?sp = Some ?p" by (simp add: inline_new_def)
  have "separate (map its_open ?sp)" by (simp add: separate_def) code_simp
  from inline_collect_hides [OF new this, of ?ts]
  have "hides ?sp (concat ?ts) (visible_text (collect inline_push_str inline_finish ?p ?ts))
     (extracted (collect inline_push_str inline_finish ?p ?ts))" .
  moreover have "visible_text (collect inline_push_str inline_finish ?p ?ts) = lit ''xz''"
    by code_simp
  moreover have "extracted (collect inline_push_str inline_finish ?p ?ts) =
     [\<lparr>eit_tag = 1, eit_content = lit ''y''\<rparr>, \<lparr>eit_tag = 0, eit_content = lit ''w''\<rparr>]"
    by code_simp
  ultimately show ?thesis using new by simp
qed

text \<open>C33: the loop of \<open>push_str\<close> ends: with one iteration more than the buffered text has chars it has
  stopped by itself, since more iterations change nothing, and no delimiter is left to be found in the
  buffer.\<close>

theorem push_str_terminates:
  assumes "inline_wf p"
  shows "push_loop (Suc (length (pending p @ chunk)) + n) (p\<lparr>pending := pending p @ chunk\<rparr>) chunk_default = inline_push_str p chunk \<and>
    (let q = fst (inline_push_str p chunk)
     in case active q of Some act \<Rightarrow> find_sub (act_close act) (pending q) = None | None \<Rightarrow> find_next_open q = None)"
proof
  let ?p = "p\<lparr>pending := pending p @ chunk\<rparr>"
  have wf: "inline_wf ?p" using assms by simp
  have run: "inline_push_str p chunk = run ?p" by (simp add: inline_push_str_def run_def)
  show "push_loop (Suc (length (pending p @ chunk)) + n) ?p chunk_default = inline_push_str p chunk"
    using push_loop_fuel [OF wf, of "Suc (length (pending p @ chunk)) + n" chunk_default] run by simp
  show "let q = fst (inline_push_str p chunk)
     in case active q of Some act \<Rightarrow> find_sub (act_close act) (pending q) = None | None \<Rightarrow> find_next_open q = None"
    using run_inv [OF wf] unfolding run inline_inv_def
    by (auto simp: Let_def delims_def find_next_open_eq find_any_None split: option.splits)
qed

theorem push_str_terminates_witness:
  "find_next_open (fst (inline_push_str \<lparr>specs = [\<lparr>its_tag = (0::nat), its_open = lit ''<a>'', its_close = lit ''</a>''\<rparr>],
      pending = lit ''<'', active = None\<rparr> (lit ''a>x</a>y<''))) = None"
proof -
  let ?p = "\<lparr>specs = [\<lparr>its_tag = (0::nat), its_open = lit ''<a>'', its_close = lit ''</a>''\<rparr>], pending = lit ''<'', active = None\<rparr>"
  have "separate (map its_open (specs ?p))" by (simp add: separate_def)
  then have "inline_wf ?p" by (simp add: inline_wf_def)
  moreover have "active (fst (inline_push_str ?p (lit ''a>x</a>y<''))) = None" by code_simp
  ultimately show ?thesis using push_str_terminates [of ?p "lit ''a>x</a>y<''" 0] by (simp add: Let_def del: lit_simps)
qed

end
