(* ===== verification/Citation.thy ===== *)
theory Citation
  imports Inline_Hidden_Tag
begin

text \<open>
  \<open>CitationStreamParser\<close> and \<open>strip_citations\<close> of \<^verbatim>\<open>utils/stream-parser/src/citation.rs\<close>: the
  inline tag parser for the one tag \<^verbatim>\<open><oai-mem-citation>\<close>, reporting the bodies as strings.
\<close>

datatype citation_tag = Citation

definition CITATION_OPEN :: rstring where
  "CITATION_OPEN = lit ''<oai-mem-citation>''"

definition CITATION_CLOSE :: rstring where
  "CITATION_CLOSE = lit ''</oai-mem-citation>''"

record citation_parser =
  cit_inner :: "citation_tag inline_parser"

definition citation_specs :: "citation_tag inline_tag_spec list" where
  "citation_specs = [\<lparr>its_tag = Citation, its_open = CITATION_OPEN, its_close = CITATION_CLOSE\<rparr>]"

text \<open>\<open>CitationStreamParser::new\<close>; the assertions of \<open>InlineHiddenTagParser::new\<close> hold for the two
  constants.\<close>

definition citation_new :: "citation_parser option" where
  "citation_new = map_option (\<lambda>p. \<lparr>cit_inner = p\<rparr>) (inline_new citation_specs)"

definition citation_chunk :: "citation_tag extracted_inline_tag stream_text_chunk \<Rightarrow>
    rstring stream_text_chunk" where
  "citation_chunk c = \<lparr>visible_text = visible_text c, extracted = map eit_content (extracted c)\<rparr>"

definition citation_push_str :: "citation_parser \<Rightarrow> rstring \<Rightarrow>
    citation_parser \<times> rstring stream_text_chunk" where
  "citation_push_str p chunk =
     (let (i, c) = inline_push_str (cit_inner p) chunk in (p\<lparr>cit_inner := i\<rparr>, citation_chunk c))"

definition citation_finish :: "citation_parser \<Rightarrow> citation_parser \<times> rstring stream_text_chunk" where
  "citation_finish p =
     (let (i, c) = inline_finish (cit_inner p) in (p\<lparr>cit_inner := i\<rparr>, citation_chunk c))"

text \<open>\<open>strip_citations\<close>; \<open>None\<close> would be the panic of the constructor.\<close>

definition strip_citations :: "rstring \<Rightarrow> (rstring \<times> rstring list) option" where
  "strip_citations t =
     map_option (\<lambda>p.
       (let (p1, out) = citation_push_str p t;
            (p2, tail) = citation_finish p1
        in (visible_text out @ visible_text tail, extracted out @ extracted tail)))
     citation_new"

section \<open>Contract\<close>

definition citation_inv :: "citation_parser \<Rightarrow> bool" where
  "citation_inv p \<longleftrightarrow> inline_inv (cit_inner p)"

lemma citation_push_sel [simp]:
  "cit_inner (fst (citation_push_str p t)) = fst (inline_push_str (cit_inner p) t)"
  "visible_text (snd (citation_push_str p t)) = visible_text (snd (inline_push_str (cit_inner p) t))"
  "extracted (snd (citation_push_str p t)) =
     map eit_content (extracted (snd (inline_push_str (cit_inner p) t)))"
  by (simp_all add: citation_push_str_def citation_chunk_def Let_def case_prod_beta)

lemma citation_finish_sel [simp]:
  "cit_inner (fst (citation_finish p)) = fst (inline_finish (cit_inner p))"
  "visible_text (snd (citation_finish p)) = visible_text (snd (inline_finish (cit_inner p)))"
  "extracted (snd (citation_finish p)) =
     map eit_content (extracted (snd (inline_finish (cit_inner p))))"
  by (simp_all add: citation_finish_def citation_chunk_def Let_def case_prod_beta)

interpretation cit: stream_text_parser citation_push_str citation_finish citation_inv "\<lambda>es. es"
proof unfold_locales
  fix p :: citation_parser and t u
  assume "citation_inv p"
  then have inv: "inline_inv (cit_inner p)" by (simp add: citation_inv_def)
  show "citation_inv (fst (citation_push_str p t))" and "citation_inv (fst (citation_finish p))"
    using inv by (simp_all add: citation_inv_def inl.push_inv inl.finish_inv)
  show "citation_push_str p [] = (p, chunk_default)"
    by (simp add: citation_push_str_def inl.push_nil [OF inv] citation_chunk_def chunk_default_def)
  show "fst (citation_push_str p (t @ u)) = fst (citation_push_str (fst (citation_push_str p t)) u)"
    by (rule citation_parser.equality) (simp_all add: inl.push_append_state [OF inv])
  show "visible_text (snd (citation_push_str p (t @ u))) =
      visible_text (snd (citation_push_str p t)) @
      visible_text (snd (citation_push_str (fst (citation_push_str p t)) u))"
    by (simp add: inl.push_append_visible [OF inv])
  show "extracted (snd (citation_push_str p (t @ u))) =
      extracted (snd (citation_push_str p t)) @
      extracted (snd (citation_push_str (fst (citation_push_str p t)) u))"
    by (simp add: inl.push_append_extracted [OF inv])
qed simp

lemma citation_delims: "CITATION_OPEN \<noteq> []" "CITATION_CLOSE \<noteq> []"
  by (simp_all add: CITATION_OPEN_def CITATION_CLOSE_def)

lemma citation_new_Some:
  "citation_new = Some \<lparr>cit_inner = \<lparr>specs = citation_specs, pending = [], active = None\<rparr>\<rparr>"
  by (simp add: citation_new_def inline_new_def citation_specs_def citation_delims)

lemma citation_new_inv:
  "citation_inv \<lparr>cit_inner = \<lparr>specs = citation_specs, pending = [], active = None\<rparr>\<rparr>"
proof -
  let ?p = "\<lparr>specs = citation_specs, pending = [], active = None\<rparr>"
  have "inline_new citation_specs = Some ?p"
    by (simp add: inline_new_def citation_specs_def citation_delims)
  moreover have "separate (map its_open citation_specs)"
    using citation_delims by (auto simp: separate_def citation_specs_def)
  ultimately show ?thesis by (simp add: inline_new_inv citation_inv_def)
qed

lemma strip_citations_eq:
  "strip_citations t =
     Some (let c = collect citation_push_str citation_finish
                     \<lparr>cit_inner = \<lparr>specs = citation_specs, pending = [], active = None\<rparr>\<rparr> [t]
           in (visible_text c, extracted c))"
  by (simp add: strip_citations_def citation_new_Some collect_def Let_def case_prod_beta)

section \<open>Properties\<close>

text \<open>A fresh citation parser fed with any chunks and then finished reports exactly what
  \<open>strip_citations\<close> computes on the whole text, however the text is cut.\<close>

theorem citation_stream_eq_strip:
  "\<exists>p. citation_new = Some p \<and>
     strip_citations (concat ts) =
       Some (visible_text (collect citation_push_str citation_finish p ts),
             extracted (collect citation_push_str citation_finish p ts))"
  using cit.collect_single [OF citation_new_inv, of ts]
  by (simp add: citation_new_Some strip_citations_eq Let_def)

text \<open>\<open>strip_citations\<close> never panics, and its result is the one of the reference semantics: the
  text outside the tags is kept in order, the bodies are collected in order, an unterminated tag
  takes the rest of the text.\<close>

theorem strip_citations_hides:
  "\<exists>visible bodies.
     strip_citations t = Some (visible, bodies) \<and>
     hides citation_specs t visible (map (\<lambda>b. \<lparr>eit_tag = Citation, eit_content = b\<rparr>) bodies)"
proof -
  let ?p = "\<lparr>specs = citation_specs, pending = [], active = None\<rparr>"
  let ?o = "outcome (?p\<lparr>pending := t\<rparr>)"
  have wf: "inline_wf (?p\<lparr>pending := t\<rparr>)"
    using citation_new_inv by (simp add: citation_inv_def inline_inv_def inline_wf_def)
  have "map (\<lambda>b. \<lparr>eit_tag = Citation, eit_content = b\<rparr>) (map eit_content es) = es"
    for es :: "citation_tag extracted_inline_tag list"
  proof (induction es)
    case (Cons e es)
    have "eit_tag e = Citation" by (cases "eit_tag e")
    with Cons show ?case by (simp add: extracted_inline_tag.equality)
  qed simp
  then have "hides citation_specs t (visible_text ?o)
      (map (\<lambda>b. \<lparr>eit_tag = Citation, eit_content = b\<rparr>) (map eit_content (extracted ?o)))"
    using outcome_hides [OF wf] by simp
  moreover have "strip_citations t = Some (visible_text ?o, map eit_content (extracted ?o))"
    by (simp add: strip_citations_eq collect_def outcome_def inline_push_str_run Let_def case_prod_beta)
  ultimately show ?thesis by blast
qed

end
