(* ===== verification/Tagged_Line.thy ===== *)
theory Tagged_Line
  imports Stream_Text
begin

text \<open>
  \<open>TaggedLineParser\<close> of \<^verbatim>\<open>utils/stream-parser/src/tagged_line_parser.rs\<close>: a streaming parser
  for tags that stand alone on a line.  A line is buffered until it can no longer be a tag.  The
  main result is that the parser, which works char by char on arbitrary chunks, computes the
  line-by-line semantics \<open>lines_events\<close> of the whole text.
\<close>

section \<open>State and operations\<close>

record 't tag_spec =
  ts_open :: rstring
  ts_close :: rstring
  ts_tag :: 't

datatype 't tagged_line_segment =
    Normal rstring
  | TagStart 't
  | TagDelta 't rstring
  | TagEnd 't

record 't tagged_line_parser =
  tl_specs :: "'t tag_spec list"
  active_tag :: "'t option"
  detect_tag :: bool
  line_buffer :: rstring

definition tagged_new :: "'t tag_spec list \<Rightarrow> 't tagged_line_parser" where
  "tagged_new sp = \<lparr>tl_specs = sp, active_tag = None, detect_tag = True, line_buffer = []\<rparr>"

definition is_tag_prefix :: "'t tagged_line_parser \<Rightarrow> rstring \<Rightarrow> bool" where
  "is_tag_prefix p slug \<longleftrightarrow>
     (let slug' = trim_end slug in
      \<exists>spec \<in> set (tl_specs p). prefix slug' (ts_open spec) \<or> prefix slug' (ts_close spec))"

definition match_open :: "'t tagged_line_parser \<Rightarrow> rstring \<Rightarrow> 't option" where
  "match_open p slug = map_option ts_tag (List.find (\<lambda>spec. ts_open spec = slug) (tl_specs p))"

definition match_close :: "'t tagged_line_parser \<Rightarrow> rstring \<Rightarrow> 't option" where
  "match_close p slug = map_option ts_tag (List.find (\<lambda>spec. ts_close spec = slug) (tl_specs p))"

definition push_segment :: "'t tagged_line_segment list \<Rightarrow> 't tagged_line_segment \<Rightarrow>
    't tagged_line_segment list" where
  "push_segment segments segment =
     (case segment of
        Normal delta \<Rightarrow>
          if delta = [] then segments
          else if segments \<noteq> [] then
            (case last segments of
               Normal existing \<Rightarrow> butlast segments @ [Normal (existing @ delta)]
             | _ \<Rightarrow> segments @ [Normal delta])
          else segments @ [Normal delta]
      | TagDelta tag delta \<Rightarrow>
          if delta = [] then segments
          else if segments \<noteq> [] then
            (case last segments of
               TagDelta existing_tag existing \<Rightarrow>
                 if existing_tag = tag then butlast segments @ [TagDelta existing_tag (existing @ delta)]
                 else segments @ [TagDelta tag delta]
             | _ \<Rightarrow> segments @ [TagDelta tag delta])
          else segments @ [TagDelta tag delta]
      | TagStart tag \<Rightarrow> segments @ [TagStart tag]
      | TagEnd tag \<Rightarrow> segments @ [TagEnd tag])"

definition push_text :: "'t tagged_line_parser \<Rightarrow> rstring \<Rightarrow> 't tagged_line_segment list \<Rightarrow>
    't tagged_line_segment list" where
  "push_text p t segments =
     (case active_tag p of
        Some tag \<Rightarrow> push_segment segments (TagDelta tag t)
      | None \<Rightarrow> push_segment segments (Normal t))"

text \<open>The text of a line without its line feed (\<open>strip_suffix('\n').unwrap_or\<close>), trimmed.\<close>

definition line_slug :: "rstring \<Rightarrow> rstring" where
  "line_slug l =
     (let without_newline = (case strip_suffix [newline] l of Some l' \<Rightarrow> l' | None \<Rightarrow> l)
      in trim_end (trim_start without_newline))"

definition finish_line :: "'t tagged_line_parser \<Rightarrow> 't tagged_line_segment list \<Rightarrow>
    't tagged_line_parser \<times> 't tagged_line_segment list" where
  "finish_line p segments =
     (let l = line_buffer p; p1 = p\<lparr>line_buffer := []\<rparr>; slug = line_slug l in
      case match_open p1 slug of
        Some tag \<Rightarrow>
          if active_tag p1 = None
          then (p1\<lparr>active_tag := Some tag, detect_tag := True\<rparr>, push_segment segments (TagStart tag))
          else (case match_close p1 slug of
                  Some tag' \<Rightarrow>
                    if active_tag p1 = Some tag'
                    then (p1\<lparr>active_tag := None, detect_tag := True\<rparr>,
                          push_segment segments (TagEnd tag'))
                    else (p1\<lparr>detect_tag := True\<rparr>, push_text p1 l segments)
                | None \<Rightarrow> (p1\<lparr>detect_tag := True\<rparr>, push_text p1 l segments))
      | None \<Rightarrow>
          (case match_close p1 slug of
             Some tag' \<Rightarrow>
               if active_tag p1 = Some tag'
               then (p1\<lparr>active_tag := None, detect_tag := True\<rparr>,
                     push_segment segments (TagEnd tag'))
               else (p1\<lparr>detect_tag := True\<rparr>, push_text p1 l segments)
           | None \<Rightarrow> (p1\<lparr>detect_tag := True\<rparr>, push_text p1 l segments)))"

text \<open>One iteration of the loop of \<open>parse\<close>; \<open>run\<close> is the text of the current line not yet
  emitted.\<close>

definition parse_char :: "'t tagged_line_parser \<times> 't tagged_line_segment list \<times> rstring \<Rightarrow> rchar \<Rightarrow>
    't tagged_line_parser \<times> 't tagged_line_segment list \<times> rstring" where
  "parse_char st ch =
     (case st of (p, segments, run) \<Rightarrow>
        if detect_tag p then
          (let segments = (if run \<noteq> [] then push_text p run segments else segments);
               p1 = p\<lparr>line_buffer := line_buffer p @ [ch]\<rparr>
           in if ch = newline
              then (let (p2, segments) = finish_line p1 segments in (p2, segments, []))
              else
                let slug = trim_start (line_buffer p1) in
                if slug = [] \<or> is_tag_prefix p1 slug then (p1, segments, [])
                else
                  let buffered = line_buffer p1;
                      p2 = p1\<lparr>line_buffer := [], detect_tag := False\<rparr>
                  in (p2, push_text p2 buffered segments, []))
        else
          (let run = run @ [ch]
           in if ch = newline
              then (p\<lparr>detect_tag := True\<rparr>, push_text p run segments, [])
              else (p, segments, run)))"

definition parse :: "'t tagged_line_parser \<Rightarrow> rstring \<Rightarrow>
    't tagged_line_parser \<times> 't tagged_line_segment list" where
  "parse p delta =
     (let (p', segments, run) = foldl parse_char (p, [], []) delta
      in (p', if run \<noteq> [] then push_text p' run segments else segments))"

definition tagged_finish :: "'t tagged_line_parser \<Rightarrow>
    't tagged_line_parser \<times> 't tagged_line_segment list" where
  "tagged_finish p =
     (let (p1, segments) =
            (if line_buffer p \<noteq> [] then
               (let buffered = line_buffer p; p1 = p\<lparr>line_buffer := []\<rparr>; slug = line_slug buffered in
                case match_open p1 slug of
                  Some tag \<Rightarrow>
                    if active_tag p1 = None
                    then (p1\<lparr>active_tag := Some tag\<rparr>, push_segment [] (TagStart tag))
                    else (case match_close p1 slug of
                            Some tag' \<Rightarrow>
                              if active_tag p1 = Some tag'
                              then (p1\<lparr>active_tag := None\<rparr>, push_segment [] (TagEnd tag'))
                              else (p1, push_text p1 buffered [])
                          | None \<Rightarrow> (p1, push_text p1 buffered []))
                | None \<Rightarrow>
                    (case match_close p1 slug of
                       Some tag' \<Rightarrow>
                         if active_tag p1 = Some tag'
                         then (p1\<lparr>active_tag := None\<rparr>, push_segment [] (TagEnd tag'))
                         else (p1, push_text p1 buffered [])
                     | None \<Rightarrow> (p1, push_text p1 buffered [])))
             else (p, []));
          (p2, segments) =
            (case active_tag p1 of
               Some tag \<Rightarrow> (p1\<lparr>active_tag := None\<rparr>, push_segment segments (TagEnd tag))
             | None \<Rightarrow> (p1, segments))
      in (p2\<lparr>detect_tag := True\<rparr>, segments))"

section \<open>Events\<close>

text \<open>The content of a segment list, forgetting how text was cut into segments.\<close>

datatype 't line_event = EChar "'t option" rchar | EStart 't | EEnd 't

fun segment_events :: "'t tagged_line_segment \<Rightarrow> 't line_event list" where
  "segment_events (Normal t) = map (EChar None) t"
| "segment_events (TagDelta tag t) = map (EChar (Some tag)) t"
| "segment_events (TagStart tag) = [EStart tag]"
| "segment_events (TagEnd tag) = [EEnd tag]"

definition events :: "'t tagged_line_segment list \<Rightarrow> 't line_event list" where
  "events segs = concat (map segment_events segs)"

lemma events_simps [simp]:
  "events [] = []" "events (s # ss) = segment_events s @ events ss"
  "events (ss @ ss') = events ss @ events ss'"
  by (simp_all add: events_def)

lemma events_push_segment [simp]: "events (push_segment segs s) = events segs @ segment_events s"
proof (cases "segs = []")
  case False
  then obtain ss l where "segs = ss @ [l]" by (metis rev_exhaust)
  then show ?thesis
    by (auto simp: push_segment_def split: tagged_line_segment.split)
qed (auto simp: push_segment_def split: tagged_line_segment.split)

lemma events_push_text [simp]:
  "events (push_text p t segs) = events segs @ map (EChar (active_tag p)) t"
  by (auto simp: push_text_def split: option.split)

text \<open>What a complete line means: a tag line or text.\<close>

definition line_step :: "'t tagged_line_parser \<Rightarrow> rstring \<Rightarrow> 't option \<times> 't line_event list" where
  "line_step p l =
     (let slug = line_slug l in
      case (active_tag p, match_open p slug, match_close p slug) of
        (None, Some tag, _) \<Rightarrow> (Some tag, [EStart tag])
      | (Some act, _, Some tag) \<Rightarrow>
          if act = tag then (None, [EEnd tag]) else (Some act, map (EChar (Some act)) l)
      | (act, _, _) \<Rightarrow> (act, map (EChar act) l))"

lemma match_line_buffer [simp]:
  "match_open (p\<lparr>line_buffer := b\<rparr>) = match_open p"
  "match_close (p\<lparr>line_buffer := b\<rparr>) = match_close p"
  "is_tag_prefix (p\<lparr>line_buffer := b\<rparr>) = is_tag_prefix p"
  by (simp_all add: fun_eq_iff match_open_def match_close_def is_tag_prefix_def)

lemma finish_line_step:
  "fst (finish_line p segs) =
     p\<lparr>line_buffer := [], active_tag := fst (line_step p (line_buffer p)), detect_tag := True\<rparr>"
  "events (snd (finish_line p segs)) = events segs @ snd (line_step p (line_buffer p))"
  by (cases "active_tag p"; cases "match_open p (line_slug (line_buffer p))";
      cases "match_close p (line_slug (line_buffer p))";
      simp add: finish_line_def line_step_def Let_def tagged_line_parser.equality)+

lemma tagged_finish_step:
  "fst (tagged_finish p) = p\<lparr>line_buffer := [], active_tag := None, detect_tag := True\<rparr>"
  "events (snd (tagged_finish p)) =
     (let (act, evs) = (if line_buffer p = [] then (active_tag p, []) else line_step p (line_buffer p))
      in evs @ (case act of Some tag \<Rightarrow> [EEnd tag] | None \<Rightarrow> []))"
  by (cases "active_tag p"; cases "match_open p (line_slug (line_buffer p))";
      cases "match_close p (line_slug (line_buffer p))";
      simp add: tagged_finish_def line_step_def Let_def tagged_line_parser.equality)+

section \<open>The loop, char by char\<close>

definition ev_char :: "'t tagged_line_parser \<Rightarrow> rchar \<Rightarrow> 't tagged_line_parser \<times> 't line_event list" where
  "ev_char p ch =
     (if detect_tag p then
        (let p1 = p\<lparr>line_buffer := line_buffer p @ [ch]\<rparr>; buffered = line_buffer p @ [ch] in
         if ch = newline
         then (p\<lparr>line_buffer := [], active_tag := fst (line_step p buffered), detect_tag := True\<rparr>,
               snd (line_step p buffered))
         else if trim_start buffered = [] \<or> is_tag_prefix p (trim_start buffered) then (p1, [])
         else (p\<lparr>line_buffer := [], detect_tag := False\<rparr>, map (EChar (active_tag p)) buffered))
      else (p\<lparr>detect_tag := (ch = newline)\<rparr>, [EChar (active_tag p) ch]))"

fun ev_run :: "'t tagged_line_parser \<Rightarrow> rstring \<Rightarrow> 't tagged_line_parser \<times> 't line_event list" where
  "ev_run p [] = (p, [])"
| "ev_run p (c # cs) =
     (let (p1, e1) = ev_char p c; (p2, e2) = ev_run p1 cs in (p2, e1 @ e2))"

lemma ev_run_append:
  "ev_run p (t @ u) =
     (fst (ev_run (fst (ev_run p t)) u), snd (ev_run p t) @ snd (ev_run (fst (ev_run p t)) u))"
  by (induction t arbitrary: p) (simp_all add: Let_def case_prod_beta)

lemma line_step_line_buffer [simp]: "line_step (p\<lparr>line_buffer := b\<rparr>) = line_step p"
  by (simp add: fun_eq_iff line_step_def)

lemma parse_char_events:
  assumes "parse_char (p, segs, run) ch = (p', segs', run')"
  shows "p' = fst (ev_char p ch) \<and>
    events segs' @ map (EChar (active_tag p')) run' =
    events segs @ map (EChar (active_tag p)) run @ snd (ev_char p ch)"
  using assms
  by (auto simp: parse_char_def ev_char_def Let_def case_prod_beta finish_line_step
      tagged_line_parser.equality split: if_splits)

lemma foldl_parse_char_events:
  assumes "foldl parse_char (p, segs, run) t = (p', segs', run')"
  shows "p' = fst (ev_run p t) \<and>
    events segs' @ map (EChar (active_tag p')) run' =
    events segs @ map (EChar (active_tag p)) run @ snd (ev_run p t)"
  using assms
proof (induction t arbitrary: p segs run)
  case (Cons c t)
  obtain p1 segs1 run1 where s: "parse_char (p, segs, run) c = (p1, segs1, run1)"
    by (cases "parse_char (p, segs, run) c")
  have p1: "p1 = fst (ev_char p c)" and e1: "events segs1 @ map (EChar (active_tag p1)) run1 =
      events segs @ map (EChar (active_tag p)) run @ snd (ev_char p c)"
    using parse_char_events [OF s] by auto
  have "foldl parse_char (p1, segs1, run1) t = (p', segs', run')" using Cons.prems s by simp
  from Cons.IH [OF this] have "p' = fst (ev_run p1 t)" and
      "events segs' @ map (EChar (active_tag p')) run' =
       (events segs1 @ map (EChar (active_tag p1)) run1) @ snd (ev_run p1 t)"
    by auto
  then show ?case unfolding e1 by (simp add: Let_def case_prod_beta p1)
qed simp

lemma parse_events:
  "fst (parse p t) = fst (ev_run p t)" "events (snd (parse p t)) = snd (ev_run p t)"
proof -
  obtain p' segs run where f: "foldl parse_char (p, [], []) t = (p', segs, run)"
    by (cases "foldl parse_char (p, [], []) t")
  from foldl_parse_char_events [OF f]
  show "fst (parse p t) = fst (ev_run p t)" "events (snd (parse p t)) = snd (ev_run p t)"
    by (auto simp: parse_def f)
qed

section \<open>Lines\<close>

lemma prefix_trim_end: "prefix (trim_end s) s"
  by (metis dropWhile_eq_drop prefixI rev_append rev_rev_ident takeWhile_dropWhile_id trim_end_def)

lemma prefix_trim_end_append: "prefix (trim_end s) (trim_end (s @ w))"
proof (cases "\<forall>c \<in> set w. is_whitespace c")
  case True
  then show ?thesis by (simp add: trim_end_def dropWhile_append)
next
  case False
  then have "trim_end (s @ w) = s @ trim_end w"
    by (auto simp: trim_end_def dropWhile_append)
  then show ?thesis using prefix_trim_end [of s] by (simp add: prefix_prefix)
qed

text \<open>As long as a prefix of a line is not only white space, the trimmed prefix is a prefix of the
  trimmed line.\<close>

lemma line_slug_eq: "line_slug l = trim_end (trim_start l)"
proof (cases "suffix [newline] l")
  case True
  then obtain l' where l: "l = l' @ [newline]" by (auto simp: suffix_def)
  have ws: "is_whitespace newline" by (simp add: is_whitespace_def newline_def)
  have "trim_end (trim_start (l' @ [newline])) = trim_end (trim_start l')"
  proof (cases "trim_start l' = []")
    case True
    then have "trim_start (l' @ [newline]) = []"
      using ws by (simp add: trim_start_def)
    then show ?thesis by (simp add: True)
  next
    case False
    then show ?thesis using ws by (simp add: trim_start_append trim_end_def)
  qed
  then show ?thesis by (simp add: line_slug_def l strip_suffix_def)
qed (simp add: line_slug_def strip_suffix_def)

lemma not_tag_line:
  assumes "prefix v l" and "trim_start v \<noteq> []" and "\<not> is_tag_prefix p (trim_start v)"
  shows "line_step p l = (active_tag p, map (EChar (active_tag p)) l)"
proof -
  from assms(1) obtain w where l: "l = v @ w" by (auto simp: prefix_def)
  have pre: "prefix (trim_end (trim_start v)) (line_slug l)"
    by (simp add: line_slug_eq l trim_start_append [OF assms(2)] prefix_trim_end_append)
  have "ts_open spec \<noteq> line_slug l \<and> ts_close spec \<noteq> line_slug l" if "spec \<in> set (tl_specs p)" for spec
    using assms(3) pre that by (auto simp: is_tag_prefix_def Let_def)
  then have "match_open p (line_slug l) = None" "match_close p (line_slug l) = None"
    by (auto simp: match_open_def match_close_def find_None_iff)
  then show ?thesis by (cases "active_tag p") (simp_all add: line_step_def)
qed

text \<open>The state of the parser inside a line that began in detection mode.\<close>

lemma ev_run_in_line:
  assumes "detect_tag p" and "line_buffer p = []" and "newline \<notin> set u"
  shows "ev_run p u = (p\<lparr>line_buffer := u\<rparr>, []) \<or>
    ev_run p u = (p\<lparr>detect_tag := False\<rparr>, map (EChar (active_tag p)) u) \<and>
      (\<exists>v. prefix v u \<and> trim_start v \<noteq> [] \<and> \<not> is_tag_prefix p (trim_start v))"
  using assms(3)
proof (induction u rule: rev_induct)
  case Nil
  then show ?case using assms by (simp add: tagged_line_parser.equality)
next
  case (snoc c u)
  then have c: "c \<noteq> newline" and IH: "ev_run p u = (p\<lparr>line_buffer := u\<rparr>, []) \<or>
    ev_run p u = (p\<lparr>detect_tag := False\<rparr>, map (EChar (active_tag p)) u) \<and>
      (\<exists>v. prefix v u \<and> trim_start v \<noteq> [] \<and> \<not> is_tag_prefix p (trim_start v))"
    by auto
  from IH show ?case
  proof
    assume "ev_run p u = (p\<lparr>line_buffer := u\<rparr>, [])"
    then show ?thesis
      using assms c by (auto simp: ev_run_append ev_char_def Let_def tagged_line_parser.equality)
  next
    assume h: "ev_run p u = (p\<lparr>detect_tag := False\<rparr>, map (EChar (active_tag p)) u) \<and>
      (\<exists>v. prefix v u \<and> trim_start v \<noteq> [] \<and> \<not> is_tag_prefix p (trim_start v))"
    then have "\<exists>v. prefix v (u @ [c]) \<and> trim_start v \<noteq> [] \<and> \<not> is_tag_prefix p (trim_start v)"
      by (meson prefix_prefix)
    with h c show ?thesis by (auto simp: ev_run_append ev_char_def)
  qed
qed

fun lines_events :: "'t tagged_line_parser \<Rightarrow> rstring list \<Rightarrow> 't option \<times> 't line_event list" where
  "lines_events p [] = (active_tag p, [])"
| "lines_events p (l # ls) =
     (let (act, e) = line_step p l; (act', e') = lines_events (p\<lparr>active_tag := act\<rparr>) ls
      in (act', e @ e'))"

definition close_events :: "'t option \<times> 't line_event list \<Rightarrow> 't line_event list" where
  "close_events ae = snd ae @ (case fst ae of Some tag \<Rightarrow> [EEnd tag] | None \<Rightarrow> [])"

lemma tagged_finish_events:
  "events (snd (tagged_finish p)) =
     close_events (if line_buffer p = [] then (active_tag p, []) else line_step p (line_buffer p))"
  by (simp add: tagged_finish_step close_events_def Let_def case_prod_beta)

lemma ev_run_line:
  assumes "detect_tag p" and "line_buffer p = []" and "newline \<notin> set u"
  shows "ev_run p (u @ [newline]) =
    (p\<lparr>active_tag := fst (line_step p (u @ [newline]))\<rparr>, snd (line_step p (u @ [newline])))"
  using ev_run_in_line [OF assms]
proof
  assume "ev_run p u = (p\<lparr>line_buffer := u\<rparr>, [])"
  then show ?thesis
    using assms by (simp add: ev_run_append ev_char_def Let_def tagged_line_parser.equality)
next
  assume h: "ev_run p u = (p\<lparr>detect_tag := False\<rparr>, map (EChar (active_tag p)) u) \<and>
      (\<exists>v. prefix v u \<and> trim_start v \<noteq> [] \<and> \<not> is_tag_prefix p (trim_start v))"
  then obtain v where v: "prefix v (u @ [newline])" "trim_start v \<noteq> []" "\<not> is_tag_prefix p (trim_start v)"
    by (meson prefix_prefix)
  have "line_step p (u @ [newline]) = (active_tag p, map (EChar (active_tag p)) (u @ [newline]))"
    by (rule not_tag_line [OF v])
  with h assms show ?thesis
    by (simp add: ev_run_append ev_char_def tagged_line_parser.equality)
qed

lemma last_line_events:
  assumes "detect_tag p" and "line_buffer p = []" and "newline \<notin> set u"
  shows "snd (ev_run p u) @ events (snd (tagged_finish (fst (ev_run p u)))) =
    close_events (if u = [] then (active_tag p, []) else line_step p u)"
  using ev_run_in_line [OF assms]
proof
  assume "ev_run p u = (p\<lparr>line_buffer := u\<rparr>, [])"
  then show ?thesis by (simp add: tagged_finish_events)
next
  assume h: "ev_run p u = (p\<lparr>detect_tag := False\<rparr>, map (EChar (active_tag p)) u) \<and>
      (\<exists>v. prefix v u \<and> trim_start v \<noteq> [] \<and> \<not> is_tag_prefix p (trim_start v))"
  then have "line_step p u = (active_tag p, map (EChar (active_tag p)) u)"
    by (blast intro: not_tag_line)
  with h assms show ?thesis by (simp add: tagged_finish_events close_events_def)
qed

lemma ev_run_lines:
  assumes "detect_tag p" and "line_buffer p = []"
  shows "snd (ev_run p t) @ events (snd (tagged_finish (fst (ev_run p t)))) =
    close_events (lines_events p (split_inclusive newline t))"
  using assms
proof (induction t arbitrary: p rule: lines_induct [where c = newline])
  case (last_line t)
  then show ?case
    by (simp add: last_line_events split_inclusive_no_sep close_events_def Let_def case_prod_beta)
next
  case (line u r)
  let ?q = "p\<lparr>active_tag := fst (line_step p (u @ [newline]))\<rparr>"
  have run: "ev_run p (u @ newline # r) =
      (fst (ev_run ?q r), snd (line_step p (u @ [newline])) @ snd (ev_run ?q r))"
    using ev_run_append [of p "u @ [newline]" r] ev_run_line [OF line.prems line.hyps] by simp
  have "snd (ev_run ?q r) @ events (snd (tagged_finish (fst (ev_run ?q r)))) =
      close_events (lines_events ?q (split_inclusive newline r))"
    using line.prems by (intro line.IH) simp_all
  then show ?case
    by (simp add: run split_inclusive_line [OF line.hyps] close_events_def Let_def case_prod_beta)
qed

section \<open>Properties\<close>

text \<open>Parsing a text in any chunks and finishing.\<close>

fun parse_all :: "'t tagged_line_parser \<Rightarrow> rstring list \<Rightarrow>
    't tagged_line_parser \<times> 't tagged_line_segment list" where
  "parse_all p [] = (p, [])"
| "parse_all p (t # ts) =
     (let (p1, s1) = parse p t; (p2, s2) = parse_all p1 ts in (p2, s1 @ s2))"

lemma parse_all_events:
  "fst (parse_all p ts) = fst (ev_run p (concat ts))"
  "events (snd (parse_all p ts)) = snd (ev_run p (concat ts))"
  by (induction ts arbitrary: p) (simp_all add: Let_def case_prod_beta parse_events ev_run_append)

text \<open>C24: the segments that a new \<open>TaggedLineParser\<close> reports for a text pushed in any chunks and
  finished have the content of the line-by-line semantics: a line whose trimmed text is the
  opening tag starts a block, the matching closing line ends it, every other line is text of the
  block or normal text, and an open block is closed at the end.\<close>

theorem tagged_parse_lines:
  "events (snd (parse_all (tagged_new sp) ts) @
           snd (tagged_finish (fst (parse_all (tagged_new sp) ts)))) =
     close_events (lines_events (tagged_new sp) (split_inclusive newline (concat ts)))"
  using ev_run_lines [of "tagged_new sp" "concat ts"]
  by (simp add: parse_all_events tagged_new_def)

end
