(* ===== verification/Proposed_Plan.thy ===== *)
theory Proposed_Plan
  imports Tagged_Line
begin

text \<open>
  \<open>ProposedPlanParser\<close>, \<open>strip_proposed_plan_blocks\<close> and \<open>extract_proposed_plan_text\<close> of
  \<^verbatim>\<open>utils/stream-parser/src/proposed_plan.rs\<close>: the tagged line parser for
  \<^verbatim>\<open><proposed_plan>\<close> blocks, as a streaming text parser.
\<close>

section \<open>Definitions\<close>

definition OPEN_TAG :: rstring where
  "OPEN_TAG = lit ''<proposed_plan>''"

definition CLOSE_TAG :: rstring where
  "CLOSE_TAG = lit ''</proposed_plan>''"

datatype plan_tag = ProposedPlan

datatype proposed_plan_segment =
    PlanNormal rstring
  | ProposedPlanStart
  | ProposedPlanDelta rstring
  | ProposedPlanEnd

record proposed_plan_parser =
  pp_parser :: "plan_tag tagged_line_parser"

definition plan_specs :: "plan_tag tag_spec list" where
  "plan_specs = [\<lparr>ts_open = OPEN_TAG, ts_close = CLOSE_TAG, ts_tag = ProposedPlan\<rparr>]"

definition plan_new :: proposed_plan_parser where
  "plan_new = \<lparr>pp_parser = tagged_new plan_specs\<rparr>"

fun map_segment :: "plan_tag tagged_line_segment \<Rightarrow> proposed_plan_segment" where
  "map_segment (Normal t) = PlanNormal t"
| "map_segment (TagStart ProposedPlan) = ProposedPlanStart"
| "map_segment (TagDelta ProposedPlan t) = ProposedPlanDelta t"
| "map_segment (TagEnd ProposedPlan) = ProposedPlanEnd"

text \<open>The loop of \<open>map_segments\<close>.\<close>

fun map_segments_loop :: "plan_tag tagged_line_segment list \<Rightarrow>
    proposed_plan_segment stream_text_chunk \<Rightarrow> proposed_plan_segment stream_text_chunk" where
  "map_segments_loop [] out = out"
| "map_segments_loop (segment # segments) out =
     (let mapped = map_segment segment;
          out = (case mapped of
                   PlanNormal t \<Rightarrow> out\<lparr>visible_text := visible_text out @ t\<rparr>
                 | _ \<Rightarrow> out)
      in map_segments_loop segments (out\<lparr>extracted := extracted out @ [mapped]\<rparr>))"

definition map_segments :: "plan_tag tagged_line_segment list \<Rightarrow>
    proposed_plan_segment stream_text_chunk" where
  "map_segments segments = map_segments_loop segments chunk_default"

definition plan_push_str :: "proposed_plan_parser \<Rightarrow> rstring \<Rightarrow>
    proposed_plan_parser \<times> proposed_plan_segment stream_text_chunk" where
  "plan_push_str p chunk =
     (let (q, segs) = parse (pp_parser p) chunk in (p\<lparr>pp_parser := q\<rparr>, map_segments segs))"

definition plan_finish :: "proposed_plan_parser \<Rightarrow>
    proposed_plan_parser \<times> proposed_plan_segment stream_text_chunk" where
  "plan_finish p =
     (let (q, segs) = tagged_finish (pp_parser p) in (p\<lparr>pp_parser := q\<rparr>, map_segments segs))"

definition strip_proposed_plan_blocks :: "rstring \<Rightarrow> rstring" where
  "strip_proposed_plan_blocks t =
     (let (p, out) = plan_push_str plan_new t
      in visible_text out @ visible_text (snd (plan_finish p)))"

text \<open>The loop of \<open>extract_proposed_plan_text\<close> over the segments, with \<open>saw_plan_block\<close> and
  \<open>plan_text\<close>.\<close>

fun extract_plan_loop :: "proposed_plan_segment list \<Rightarrow> bool \<times> rstring \<Rightarrow> bool \<times> rstring" where
  "extract_plan_loop [] st = st"
| "extract_plan_loop (segment # segments) (saw_plan_block, plan_text) =
     extract_plan_loop segments
       (case segment of
          ProposedPlanStart \<Rightarrow> (True, [])
        | ProposedPlanDelta delta \<Rightarrow> (saw_plan_block, plan_text @ delta)
        | ProposedPlanEnd \<Rightarrow> (saw_plan_block, plan_text)
        | PlanNormal _ \<Rightarrow> (saw_plan_block, plan_text))"

definition extract_proposed_plan_text :: "rstring \<Rightarrow> rstring option" where
  "extract_proposed_plan_text t =
     (let (p, out) = plan_push_str plan_new t;
          (saw_plan_block, plan_text) =
            extract_plan_loop (extracted out @ extracted (snd (plan_finish p))) (False, [])
      in if saw_plan_block then Some plan_text else None)"

section \<open>Contract\<close>

fun plan_segment_events :: "proposed_plan_segment \<Rightarrow> plan_tag line_event list" where
  "plan_segment_events (PlanNormal t) = map (EChar None) t"
| "plan_segment_events ProposedPlanStart = [EStart ProposedPlan]"
| "plan_segment_events (ProposedPlanDelta t) = map (EChar (Some ProposedPlan)) t"
| "plan_segment_events ProposedPlanEnd = [EEnd ProposedPlan]"

definition plan_events :: "proposed_plan_segment list \<Rightarrow> plan_tag line_event list" where
  "plan_events segs = concat (map plan_segment_events segs)"

fun event_visible :: "'t line_event \<Rightarrow> rstring" where
  "event_visible (EChar None c) = [c]"
| "event_visible _ = []"

definition visible_events :: "'t line_event list \<Rightarrow> rstring" where
  "visible_events es = concat (map event_visible es)"

lemma visible_events_simps [simp]:
  "visible_events [] = []" "visible_events (es @ es') = visible_events es @ visible_events es'"
  "visible_events (e # es) = event_visible e @ visible_events es"
  by (simp_all add: visible_events_def)

lemma visible_events_chars [simp]:
  "visible_events (map (EChar a) t) = (if a = None then t else [])"
  by (induction t) (auto split: if_splits)

lemma map_segment_events: "plan_segment_events (map_segment s) = segment_events s"
  by (cases s rule: map_segment.cases) simp_all

lemma map_segments_loop_eq:
  "extracted (map_segments_loop segs out) = extracted out @ map map_segment segs"
  "visible_text (map_segments_loop segs out) = visible_text out @ visible_events (events segs)"
proof (induction segs arbitrary: out)
  case (Cons s segs)
  { case 1 from Cons.IH(1) show ?case by (cases s rule: map_segment.cases) simp_all }
  { case 2 from Cons.IH(2) show ?case by (cases s rule: map_segment.cases) simp_all }
qed simp_all

lemma map_segments_sel:
  "visible_text (map_segments segs) = visible_events (events segs)"
  "plan_events (extracted (map_segments segs)) = events segs"
  by (simp_all add: map_segments_def map_segments_loop_eq plan_events_def events_def
      map_segment_events comp_def)

lemma plan_push_sel:
  "pp_parser (fst (plan_push_str p t)) = fst (ev_run (pp_parser p) t)"
  "visible_text (snd (plan_push_str p t)) = visible_events (snd (ev_run (pp_parser p) t))"
  "plan_events (extracted (snd (plan_push_str p t))) = snd (ev_run (pp_parser p) t)"
  by (simp_all add: plan_push_str_def Let_def case_prod_beta map_segments_sel parse_events)

lemma plan_finish_sel:
  "visible_text (snd (plan_finish p)) = visible_events (events (snd (tagged_finish (pp_parser p))))"
  "plan_events (extracted (snd (plan_finish p))) = events (snd (tagged_finish (pp_parser p)))"
  by (simp_all add: plan_finish_def Let_def case_prod_beta map_segments_sel)

interpretation plan: stream_text_parser plan_push_str plan_finish "\<lambda>_. True" plan_events
proof unfold_locales
  fix p :: proposed_plan_parser and t u
  show "plan_push_str p [] = (p, chunk_default)"
    by (simp add: plan_push_str_def parse_def map_segments_def)
  show "fst (plan_push_str p (t @ u)) = fst (plan_push_str (fst (plan_push_str p t)) u)"
    by (rule proposed_plan_parser.equality) (simp_all add: plan_push_sel ev_run_append)
  show "visible_text (snd (plan_push_str p (t @ u))) =
      visible_text (snd (plan_push_str p t)) @
      visible_text (snd (plan_push_str (fst (plan_push_str p t)) u))"
    by (simp add: plan_push_sel ev_run_append)
  show "plan_events (extracted (snd (plan_push_str p (t @ u)))) =
      plan_events (extracted (snd (plan_push_str p t))) @
      plan_events (extracted (snd (plan_push_str (fst (plan_push_str p t)) u)))"
    by (simp add: plan_push_sel ev_run_append)
qed (simp_all add: plan_events_def)

text \<open>The content of a whole text, line by line.\<close>

definition plan_lines :: "plan_tag option \<Rightarrow> rstring list \<Rightarrow> plan_tag option \<times> plan_tag line_event list" where
  "plan_lines act ls = lines_events ((tagged_new plan_specs)\<lparr>active_tag := act\<rparr>) ls"

definition plan_meaning :: "rstring \<Rightarrow> plan_tag line_event list" where
  "plan_meaning t = close_events (plan_lines None (split_inclusive newline t))"

lemma plan_whole:
  "snd (ev_run (pp_parser plan_new) t) @
     events (snd (tagged_finish (fst (ev_run (pp_parser plan_new) t)))) = plan_meaning t"
  using ev_run_lines [of "tagged_new plan_specs" t]
  by (simp add: plan_meaning_def plan_lines_def plan_new_def tagged_new_def)

lemma plan_collect:
  "visible_text (collect plan_push_str plan_finish plan_new ts) = visible_events (plan_meaning (concat ts))"
  "plan_events (extracted (collect plan_push_str plan_finish plan_new ts)) = plan_meaning (concat ts)"
  unfolding plan.collect_single [OF TrueI, of plan_new ts]
  using plan_whole [of "concat ts"]
  by (simp_all add: collect_def case_prod_beta Let_def plan_push_sel plan_finish_sel plan.flat_append
      visible_events_simps(2) [symmetric] del: visible_events_simps(2))

lemma strip_plan_meaning: "strip_proposed_plan_blocks t = visible_events (plan_meaning t)"
  using plan_collect(1) [of "[t]"]
  by (simp add: strip_proposed_plan_blocks_def collect_def case_prod_beta Let_def)

lemma plan_lines_Nil [simp]: "plan_lines act [] = (act, [])"
  by (simp add: plan_lines_def)

lemma open_close_differ [simp]: "OPEN_TAG \<noteq> CLOSE_TAG" "CLOSE_TAG \<noteq> OPEN_TAG"
  by (simp_all add: OPEN_TAG_def CLOSE_TAG_def)

lemma plan_tag_option_cases:
  obtains "act = None" | "act = Some ProposedPlan"
  by (cases act) (use plan_tag.exhaust in auto)

lemma plan_line_step:
  "line_step ((tagged_new plan_specs)\<lparr>active_tag := act\<rparr>) l =
     (if act = None \<and> line_slug l = OPEN_TAG then (Some ProposedPlan, [EStart ProposedPlan])
      else if act \<noteq> None \<and> line_slug l = CLOSE_TAG then (None, [EEnd ProposedPlan])
      else (act, map (EChar act) l))"
  by (cases act rule: plan_tag_option_cases)
    (auto simp: line_step_def match_open_def match_close_def tagged_new_def plan_specs_def)

lemma plan_lines_Cons [simp]:
  "plan_lines None (l # ls) =
     (if line_slug l = OPEN_TAG then apsnd (Cons (EStart ProposedPlan)) (plan_lines (Some ProposedPlan) ls)
      else apsnd (append (map (EChar None) l)) (plan_lines None ls))"
  "plan_lines (Some ProposedPlan) (l # ls) =
     (if line_slug l = CLOSE_TAG then apsnd (Cons (EEnd ProposedPlan)) (plan_lines None ls)
      else apsnd (append (map (EChar (Some ProposedPlan)) l)) (plan_lines (Some ProposedPlan) ls))"
  by (simp_all add: plan_lines_def plan_line_step Let_def case_prod_beta prod_eq_iff apsnd_def)

lemma plan_lines_append:
  "plan_lines act (ls @ ls') =
     apsnd (append (snd (plan_lines act ls))) (plan_lines (fst (plan_lines act ls)) ls')"
  by (induction ls arbitrary: act; case_tac act rule: plan_tag_option_cases) (simp_all add: prod_eq_iff)

lemma plan_lines_outside:
  "\<forall>l \<in> set ls. line_slug l \<noteq> OPEN_TAG \<Longrightarrow> plan_lines None ls = (None, map (EChar None) (concat ls))"
  by (induction ls) simp_all

lemma plan_lines_inside:
  "\<forall>l \<in> set ls. line_slug l \<noteq> CLOSE_TAG \<Longrightarrow>
     plan_lines (Some ProposedPlan) ls =
       (Some ProposedPlan, map (EChar (Some ProposedPlan)) (concat ls))"
  by (induction ls) simp_all

text \<open>The extraction loop over the content.\<close>

fun plan_text_step :: "bool \<times> rstring \<Rightarrow> plan_tag line_event \<Rightarrow> bool \<times> rstring" where
  "plan_text_step st (EStart tag) = (True, [])"
| "plan_text_step st (EChar (Some tag) c) = (fst st, snd st @ [c])"
| "plan_text_step st (EChar None c) = st"
| "plan_text_step st (EEnd tag) = st"

lemma plan_text_chars:
  "foldl plan_text_step st (map (EChar act) t) =
     (if act = None then st else (fst st, snd st @ t))"
  by (induction t arbitrary: st; cases act) simp_all

lemma extract_plan_loop_events:
  "extract_plan_loop segs st = foldl plan_text_step st (plan_events segs)"
proof (induction segs arbitrary: st)
  case (Cons s segs)
  then show ?case
    by (cases st; cases s) (simp_all add: plan_events_def plan_text_chars)
qed (simp add: plan_events_def)

lemma extract_plan_meaning:
  "extract_proposed_plan_text t =
     (let st = foldl plan_text_step (False, []) (plan_meaning t)
      in if fst st then Some (snd st) else None)"
proof -
  let ?p = "plan_push_str plan_new t"
  have "plan_events (extracted (snd ?p) @ extracted (snd (plan_finish (fst ?p)))) = plan_meaning t"
    using plan_collect(2) [of "[t]"] by (simp add: collect_def case_prod_beta Let_def)
  then show ?thesis
    by (simp add: extract_proposed_plan_text_def extract_plan_loop_events Let_def case_prod_beta)
qed

section \<open>Properties\<close>

text \<open>The plan parser does not depend on how the text is cut: in any chunks, the visible text is
  \<open>strip_proposed_plan_blocks\<close> of the whole text, and the reported segments have the same content
  as those of one call on the whole text.\<close>

theorem plan_stream_eq_strip:
  "visible_text (collect plan_push_str plan_finish plan_new ts) =
     strip_proposed_plan_blocks (concat ts)
   \<and> plan_events (extracted (collect plan_push_str plan_finish plan_new ts)) =
     plan_events (extracted (collect plan_push_str plan_finish plan_new [concat ts]))"
  by (simp add: plan_collect strip_plan_meaning)

text \<open>For a text with one well-formed plan block (no opening line before it or after it, no
  closing line inside it), \<open>extract_proposed_plan_text\<close> returns exactly the lines of the block and
  \<open>strip_proposed_plan_blocks\<close> exactly the lines outside it.  Tag lines may be indented and
  followed by white space.\<close>

theorem plan_block:
  assumes "split_inclusive newline t = before @ [opening] @ body @ [closing] @ after"
    and "\<forall>l \<in> set before \<union> set after. line_slug l \<noteq> OPEN_TAG"
    and "line_slug opening = OPEN_TAG" and "line_slug closing = CLOSE_TAG"
    and "\<forall>l \<in> set body. line_slug l \<noteq> CLOSE_TAG"
  shows "extract_proposed_plan_text t = Some (concat body)
    \<and> strip_proposed_plan_blocks t = concat before @ concat after"
proof -
  have "plan_meaning t = map (EChar None) (concat before) @ [EStart ProposedPlan] @
      map (EChar (Some ProposedPlan)) (concat body) @ [EEnd ProposedPlan] @
      map (EChar None) (concat after)"
    using assms(2-) unfolding plan_meaning_def assms(1)
    by (simp add: plan_lines_append plan_lines_outside plan_lines_inside close_events_def)
  then show ?thesis
    by (simp add: extract_plan_meaning strip_plan_meaning plan_text_chars)
qed

lemma witness_slugs:
  "line_slug (lit ''  <proposed_plan> '' @ [newline]) = OPEN_TAG"
  "line_slug (lit ''</proposed_plan>'' @ [newline]) = CLOSE_TAG"
  "line_slug (lit ''Intro'' @ [newline]) \<noteq> OPEN_TAG"
  "line_slug (lit ''- one'' @ [newline]) \<noteq> CLOSE_TAG"
  "line_slug (lit ''Outro'') \<noteq> OPEN_TAG"
  by code_simp+

theorem plan_block_witness:
  "extract_proposed_plan_text (lit ''Intro'' @ [newline] @ lit ''  <proposed_plan> '' @ [newline] @
      lit ''- one'' @ [newline] @ lit ''</proposed_plan>'' @ [newline] @ lit ''Outro'') =
      Some (lit ''- one'' @ [newline])"
proof -
  have "split_inclusive newline (lit ''Intro'' @ [newline] @ lit ''  <proposed_plan> '' @ [newline] @
      lit ''- one'' @ [newline] @ lit ''</proposed_plan>'' @ [newline] @ lit ''Outro'') =
    [lit ''Intro'' @ [newline]] @ [lit ''  <proposed_plan> '' @ [newline]] @
      [lit ''- one'' @ [newline]] @ [lit ''</proposed_plan>'' @ [newline]] @ [lit ''Outro'']"
    by code_simp
  from plan_block [OF this] witness_slugs show ?thesis by simp
qed

end
