(* ===== verification/Assistant_Text.thy ===== *)
theory Assistant_Text
  imports Citation Proposed_Plan
begin

text \<open>
  \<open>AssistantTextStreamParser\<close> of \<^verbatim>\<open>utils/stream-parser/src/assistant_text.rs\<close>: the composition
  of the citation parser and, in plan mode, of the plan parser.  The parser is a client of the two
  streaming parsers: its properties rest on the interpretations \<open>cit\<close> and \<open>plan\<close>.
\<close>

section \<open>Definitions\<close>

record assistant_text_chunk =
  at_visible_text :: rstring
  at_citations :: "rstring list"
  at_plan_segments :: "proposed_plan_segment list"

definition assistant_chunk_default :: assistant_text_chunk where
  "assistant_chunk_default = \<lparr>at_visible_text = [], at_citations = [], at_plan_segments = []\<rparr>"

definition assistant_chunk_is_empty :: "assistant_text_chunk \<Rightarrow> bool" where
  "assistant_chunk_is_empty c \<longleftrightarrow>
     at_visible_text c = [] \<and> at_citations c = [] \<and> at_plan_segments c = []"

record assistant_text_parser =
  as_plan_mode :: bool
  as_citations :: citation_parser
  as_plan :: proposed_plan_parser

text \<open>\<open>None\<close> is the panic of the inner parser's constructor; it never happens
  (\<open>citation_new_Some\<close>).\<close>

definition assistant_new :: "bool \<Rightarrow> assistant_text_parser option" where
  "assistant_new plan_mode =
     map_option (\<lambda>c. \<lparr>as_plan_mode = plan_mode, as_citations = c, as_plan = plan_new\<rparr>) citation_new"

definition parse_visible_text :: "assistant_text_parser \<Rightarrow> rstring \<Rightarrow>
    assistant_text_parser \<times> assistant_text_chunk" where
  "parse_visible_text p t =
     (if \<not> as_plan_mode p then (p, assistant_chunk_default\<lparr>at_visible_text := t\<rparr>)
      else let (plan, plan_chunk) = plan_push_str (as_plan p) t
           in (p\<lparr>as_plan := plan\<rparr>,
               assistant_chunk_default\<lparr>at_visible_text := visible_text plan_chunk,
                 at_plan_segments := extracted plan_chunk\<rparr>))"

definition assistant_push_str :: "assistant_text_parser \<Rightarrow> rstring \<Rightarrow>
    assistant_text_parser \<times> assistant_text_chunk" where
  "assistant_push_str p chunk =
     (let (c, citation_chunk) = citation_push_str (as_citations p) chunk;
          (p, out) = parse_visible_text (p\<lparr>as_citations := c\<rparr>) (visible_text citation_chunk)
      in (p, out\<lparr>at_citations := extracted citation_chunk\<rparr>))"

definition assistant_finish :: "assistant_text_parser \<Rightarrow>
    assistant_text_parser \<times> assistant_text_chunk" where
  "assistant_finish p =
     (let (c, citation_chunk) = citation_finish (as_citations p);
          (p, out) = parse_visible_text (p\<lparr>as_citations := c\<rparr>) (visible_text citation_chunk);
          (p, out) =
            (if as_plan_mode p then
               let (plan, tail) = plan_finish (as_plan p)
               in (p\<lparr>as_plan := plan\<rparr>,
                   if \<not> chunk_is_empty tail
                   then out\<lparr>at_visible_text := at_visible_text out @ visible_text tail,
                     at_plan_segments := at_plan_segments out @ extracted tail\<rparr>
                   else out)
             else (p, out))
      in (p, out\<lparr>at_citations := extracted citation_chunk\<rparr>))"

section \<open>Streaming\<close>

text \<open>What a caller holds after several calls: the three parts of the outputs appended.\<close>

definition assistant_append :: "assistant_text_chunk \<Rightarrow> assistant_text_chunk \<Rightarrow> assistant_text_chunk" where
  "assistant_append a b =
     \<lparr>at_visible_text = at_visible_text a @ at_visible_text b,
      at_citations = at_citations a @ at_citations b,
      at_plan_segments = at_plan_segments a @ at_plan_segments b\<rparr>"

fun assistant_push_all :: "assistant_text_parser \<Rightarrow> rstring list \<Rightarrow>
    assistant_text_parser \<times> assistant_text_chunk" where
  "assistant_push_all p [] = (p, assistant_chunk_default)"
| "assistant_push_all p (t # ts) =
     (let (p1, c1) = assistant_push_str p t; (p2, c2) = assistant_push_all p1 ts
      in (p2, assistant_append c1 c2))"

definition assistant_collect :: "assistant_text_parser \<Rightarrow> rstring list \<Rightarrow> assistant_text_chunk" where
  "assistant_collect p ts =
     (let (p1, c1) = assistant_push_all p ts in assistant_append c1 (snd (assistant_finish p1)))"

lemma assistant_append_sel [simp]:
  "at_visible_text (assistant_append a b) = at_visible_text a @ at_visible_text b"
  "at_citations (assistant_append a b) = at_citations a @ at_citations b"
  "at_plan_segments (assistant_append a b) = at_plan_segments a @ at_plan_segments b"
  by (simp_all add: assistant_append_def)

lemma assistant_default_sel [simp]:
  "at_visible_text assistant_chunk_default = []" "at_citations assistant_chunk_default = []"
  "at_plan_segments assistant_chunk_default = []"
  by (simp_all add: assistant_chunk_default_def)

text \<open>Outside plan mode the parser is the citation parser; in plan mode the visible text of the
  citation parser goes through the plan parser.\<close>

lemma assistant_push_all_plain:
  assumes "\<not> as_plan_mode p"
  shows "assistant_push_all p ts =
    (let (c, out) = push_all citation_push_str (as_citations p) ts
     in (p\<lparr>as_citations := c\<rparr>,
         \<lparr>at_visible_text = visible_text out, at_citations = extracted out, at_plan_segments = []\<rparr>))"
  using assms
  by (induction ts arbitrary: p)
    (simp_all add: assistant_push_str_def parse_visible_text_def assistant_append_def
      assistant_chunk_default_def Let_def case_prod_beta)

lemma assistant_push_all_plan:
  assumes "as_plan_mode p" and "push_all citation_push_str (as_citations p) ts = (c, out)"
  shows "fst (assistant_push_all p ts) =
      p\<lparr>as_citations := c, as_plan := fst (plan_push_str (as_plan p) (visible_text out))\<rparr> \<and>
    at_citations (snd (assistant_push_all p ts)) = extracted out \<and>
    at_visible_text (snd (assistant_push_all p ts)) =
      visible_text (snd (plan_push_str (as_plan p) (visible_text out))) \<and>
    plan_events (at_plan_segments (snd (assistant_push_all p ts))) =
      plan_events (extracted (snd (plan_push_str (as_plan p) (visible_text out))))"
  using assms
proof (induction ts arbitrary: p c out)
  case Nil
  then show ?case by (auto simp: plan.push_nil)
next
  case (Cons t ts)
  let ?c1 = "citation_push_str (as_citations p) t"
  let ?p1 = "p\<lparr>as_citations := fst ?c1,
    as_plan := fst (plan_push_str (as_plan p) (visible_text (snd ?c1)))\<rparr>"
  obtain c2 out2 where 2: "push_all citation_push_str (as_citations ?p1) ts = (c2, out2)"
    by fastforce
  have out: "c = c2" "out = chunk_append (snd ?c1) out2"
    using Cons.prems 2 by (auto simp: Let_def case_prod_beta)
  have step: "assistant_push_str p t = (?p1, \<lparr>
      at_visible_text = visible_text (snd (plan_push_str (as_plan p) (visible_text (snd ?c1)))),
      at_citations = extracted (snd ?c1),
      at_plan_segments = extracted (snd (plan_push_str (as_plan p) (visible_text (snd ?c1))))\<rparr>)"
    using Cons.prems
    by (simp add: assistant_push_str_def parse_visible_text_def assistant_chunk_default_def
        Let_def case_prod_beta)
  from Cons.IH [OF _ 2] Cons.prems show ?case
    by (simp add: out step Let_def case_prod_beta plan.flat_append plan.push_append_state
        plan.push_append_visible plan.push_append_extracted)
qed

lemma assistant_collect_plan:
  assumes "as_plan_mode p" and "as_plan p = plan_new"
    and "collect citation_push_str citation_finish (as_citations p) ts = out"
  shows "at_citations (assistant_collect p ts) = extracted out"
    and "at_visible_text (assistant_collect p ts) =
      visible_text (collect plan_push_str plan_finish plan_new [visible_text out])"
    and "plan_events (at_plan_segments (assistant_collect p ts)) =
      plan_events (extracted (collect plan_push_str plan_finish plan_new [visible_text out]))"
proof -
  obtain c o1 where 1: "push_all citation_push_str (as_citations p) ts = (c, o1)" by fastforce
  have out: "out = chunk_append o1 (snd (citation_finish c))"
    using assms(3) by (auto simp: collect_def 1 Let_def case_prod_beta)
  have fin: "at_citations (snd (assistant_finish q)) = extracted (snd (citation_finish (as_citations q)))"
    "at_visible_text (snd (assistant_finish q)) =
       visible_text (collect plan_push_str plan_finish (as_plan q)
         [visible_text (snd (citation_finish (as_citations q)))])"
    "at_plan_segments (snd (assistant_finish q)) =
       extracted (collect plan_push_str plan_finish (as_plan q)
         [visible_text (snd (citation_finish (as_citations q)))])"
    if "as_plan_mode q" for q
    using that
    by (auto simp: assistant_finish_def parse_visible_text_def collect_def chunk_is_empty_iff
        Let_def case_prod_beta)
  note sim = assistant_push_all_plan [OF assms(1) 1]
  show "at_citations (assistant_collect p ts) = extracted out"
    using sim assms(1) by (simp add: assistant_collect_def case_prod_beta Let_def fin out)
  show "at_visible_text (assistant_collect p ts) =
      visible_text (collect plan_push_str plan_finish plan_new [visible_text out])"
    using sim assms(1,2)
    by (simp add: assistant_collect_def case_prod_beta Let_def fin out collect_def
        plan.push_append_state plan.push_append_visible)
  show "plan_events (at_plan_segments (assistant_collect p ts)) =
      plan_events (extracted (collect plan_push_str plan_finish plan_new [visible_text out]))"
    using sim assms(1,2)
    by (simp add: assistant_collect_def case_prod_beta Let_def fin out collect_def plan.flat_append
        plan.push_append_state plan.push_append_extracted)
qed

section \<open>Properties\<close>

text \<open>C25: a fresh assistant text parser, fed with a text in any chunks and finished, yields the
  citations of \<open>strip_citations\<close>, and as visible text the text without citations, in plan mode also
  without its plan blocks (\<open>strip_proposed_plan_blocks\<close>): the streamed display agrees with the one
  computed from the complete message.  The plan segments have the content of the line-by-line
  semantics of the text without citations.\<close>

theorem assistant_stream_eq_strip:
  "\<exists>p visible bodies. assistant_new plan_mode = Some p \<and>
     strip_citations (concat ts) = Some (visible, bodies) \<and>
     at_citations (assistant_collect p ts) = bodies \<and>
     at_visible_text (assistant_collect p ts) =
       (if plan_mode then strip_proposed_plan_blocks visible else visible) \<and>
     plan_events (at_plan_segments (assistant_collect p ts)) =
       (if plan_mode then plan_meaning visible else [])"
proof -
  let ?c = "\<lparr>cit_inner = \<lparr>specs = citation_specs, pending = [], active = None\<rparr>\<rparr>"
  let ?p = "\<lparr>as_plan_mode = plan_mode, as_citations = ?c, as_plan = plan_new\<rparr>"
  let ?out = "collect citation_push_str citation_finish ?c ts"
  have new: "assistant_new plan_mode = Some ?p"
    by (simp add: assistant_new_def citation_new_Some)
  have strip: "strip_citations (concat ts) = Some (visible_text ?out, extracted ?out)"
    using cit.collect_single [OF citation_new_inv, of ts] by (simp add: strip_citations_eq Let_def)
  show ?thesis
  proof (cases plan_mode)
    case True
    then show ?thesis
      using new strip assistant_collect_plan [of ?p ts ?out]
      by (simp add: plan_collect strip_plan_meaning)
  next
    case False
    then have "at_citations (assistant_collect ?p ts) = extracted ?out"
      "at_visible_text (assistant_collect ?p ts) = visible_text ?out"
      "at_plan_segments (assistant_collect ?p ts) = []"
      by (simp_all add: assistant_collect_def assistant_push_all_plain collect_def
          assistant_finish_def parse_visible_text_def Let_def case_prod_beta)
    with False new strip show ?thesis by (simp add: plan.flat_Nil)
  qed
qed

end
