(* ===== verification/Utf8.thy ===== *)
theory Utf8
  imports Prelude "HOL-Library.Word"
begin

text \<open>
  The UTF-8 encoding as the Rust standard library implements it: \<open>from_utf8\<close> is the validating
  decoder \<open>std::str::from_utf8\<close> with the position and length of its errors, \<open>utf8_bytes\<close> is
  \<open>str::as_bytes\<close>.  \<open>utf8_split\<close> describes how decoding behaves on a prefix of the input.
\<close>

type_synonym byte = "8 word"

section \<open>The standard decoder\<close>

datatype utf8_step = Decoded rchar nat | Bad nat | Incomplete

definition cont :: "nat \<Rightarrow> bool" where
  "cont b \<longleftrightarrow> 128 \<le> b \<and> b < 192"

text \<open>The second byte allowed after the first byte of a three or four byte sequence: no overlong
  encodings, no surrogates, nothing above the last code point.\<close>

definition second_ok :: "nat \<Rightarrow> nat \<Rightarrow> bool" where
  "second_ok b0 b1 \<longleftrightarrow>
     (if b0 = 224 then 160 \<le> b1 \<and> b1 < 192
      else if b0 = 237 then 128 \<le> b1 \<and> b1 < 160
      else if b0 = 240 then 144 \<le> b1 \<and> b1 < 192
      else if b0 = 244 then 128 \<le> b1 \<and> b1 < 144
      else cont b1)"

definition decode2 :: "nat \<Rightarrow> nat list \<Rightarrow> utf8_step" where
  "decode2 b0 bs =
     (case bs of [] \<Rightarrow> Incomplete
      | b1 # _ \<Rightarrow> if cont b1 then Decoded ((b0 - 192) * 64 + (b1 - 128)) 2 else Bad 1)"

definition decode3 :: "nat \<Rightarrow> nat list \<Rightarrow> utf8_step" where
  "decode3 b0 bs =
     (case bs of [] \<Rightarrow> Incomplete
      | b1 # bs \<Rightarrow> if \<not> second_ok b0 b1 then Bad 1
          else (case bs of [] \<Rightarrow> Incomplete
                | b2 # _ \<Rightarrow> if \<not> cont b2 then Bad 2
                    else Decoded ((b0 - 224) * 4096 + (b1 - 128) * 64 + (b2 - 128)) 3))"

definition decode4 :: "nat \<Rightarrow> nat list \<Rightarrow> utf8_step" where
  "decode4 b0 bs =
     (case bs of [] \<Rightarrow> Incomplete
      | b1 # bs \<Rightarrow> if \<not> second_ok b0 b1 then Bad 1
          else (case bs of [] \<Rightarrow> Incomplete
                | b2 # bs \<Rightarrow> if \<not> cont b2 then Bad 2
                    else (case bs of [] \<Rightarrow> Incomplete
                          | b3 # _ \<Rightarrow> if \<not> cont b3 then Bad 3
                              else Decoded ((b0 - 240) * 262144 + (b1 - 128) * 4096 +
                                     (b2 - 128) * 64 + (b3 - 128)) 4)))"

fun next_code_point :: "nat list \<Rightarrow> utf8_step" where
  "next_code_point [] = Incomplete"
| "next_code_point (b0 # bs) =
     (if b0 < 128 then Decoded b0 1
      else if 194 \<le> b0 \<and> b0 < 224 then decode2 b0 bs
      else if 224 \<le> b0 \<and> b0 < 240 then decode3 b0 bs
      else if 240 \<le> b0 \<and> b0 < 245 then decode4 b0 bs
      else Bad 1)"

lemma next_code_point_width: "next_code_point bs = Decoded c w \<Longrightarrow> 0 < w \<and> w \<le> length bs"
  by (cases bs)
    (auto simp: decode2_def decode3_def decode4_def split: if_splits list.splits)

record utf8_error =
  ue_valid_up_to :: nat
  ue_error_len :: "nat option"

function decode_utf8 :: "nat list \<Rightarrow> utf8_error + rstring" where
  "decode_utf8 bs =
     (if bs = [] then Inr []
      else case next_code_point bs of
        Decoded c w \<Rightarrow>
          (case decode_utf8 (drop w bs) of
             Inr t \<Rightarrow> Inr (c # t)
           | Inl e \<Rightarrow> Inl (e\<lparr>ue_valid_up_to := w + ue_valid_up_to e\<rparr>))
      | Bad n \<Rightarrow> Inl \<lparr>ue_valid_up_to = 0, ue_error_len = Some n\<rparr>
      | Incomplete \<Rightarrow> Inl \<lparr>ue_valid_up_to = 0, ue_error_len = None\<rparr>)"
  by pat_completeness auto
termination
  by (relation "measure length") (auto dest!: next_code_point_width)

declare decode_utf8.simps [simp del]

definition from_utf8 :: "byte list \<Rightarrow> utf8_error + rstring" where
  "from_utf8 bs = decode_utf8 (map unat bs)"

section \<open>Text and unfinished tail of a byte string\<close>

text \<open>The decoded text of a byte string and the bytes of an unfinished last code point; \<open>None\<close> when
  the bytes cannot be the beginning of valid UTF-8.\<close>

function utf8_split :: "byte list \<Rightarrow> (rstring \<times> byte list) option" where
  "utf8_split bs =
     (if bs = [] then Some ([], [])
      else case next_code_point (map unat bs) of
        Decoded c w \<Rightarrow> map_option (apfst (Cons c)) (utf8_split (drop w bs))
      | Bad n \<Rightarrow> None
      | Incomplete \<Rightarrow> Some ([], bs))"
  by pat_completeness auto
termination
  by (relation "measure length") (auto dest!: next_code_point_width)

declare utf8_split.simps [simp del]

lemma utf8_split_Nil [simp]: "utf8_split [] = Some ([], [])"
  by (subst utf8_split.simps) simp

lemma next_code_point_append:
  "next_code_point bs = Decoded c w \<Longrightarrow> next_code_point (bs @ cs) = Decoded c w"
  "next_code_point bs = Bad n \<Longrightarrow> next_code_point (bs @ cs) = Bad n"
  by (cases bs; auto simp: decode2_def decode3_def decode4_def split: if_splits list.splits)+

lemma append_text_Nil [simp]: "map_option (apfst (append [])) x = x"
  by (cases x) (auto simp: apfst_def)

lemma append_text_Cons:
  "map_option (apfst (Cons c)) (map_option (apfst (append t)) x) = map_option (apfst (append (c # t))) x"
  by (cases x) (auto simp: apfst_def)

lemma utf8_split_append:
  "utf8_split (bs @ cs) =
     (case utf8_split bs of
        None \<Rightarrow> None
      | Some (t, r) \<Rightarrow> map_option (apfst (append t)) (utf8_split (r @ cs)))"
proof (induction bs rule: utf8_split.induct)
  case (1 bs)
  show ?case
  proof (cases "bs = []")
    case True
    then show ?thesis by (simp add: append_text_Nil)
  next
    case False
    show ?thesis
    proof (cases "next_code_point (map unat bs)")
      case (Decoded c w)
      have w: "w \<le> length bs" using next_code_point_width [OF Decoded] by simp
      have n: "next_code_point (map unat (bs @ cs)) = Decoded c w"
        using next_code_point_append(1) [OF Decoded] by simp
      have "utf8_split (bs @ cs) = map_option (apfst (Cons c)) (utf8_split (drop w bs @ cs))"
        using False n w by (subst utf8_split.simps) simp
      then show ?thesis
        unfolding 1 [OF False Decoded]
        using False Decoded
        by (subst (3) utf8_split.simps) (auto simp: append_text_Cons split: option.splits)
    next
      case (Bad n)
      then show ?thesis
        using False next_code_point_append(2) [OF Bad, of "map unat cs"]
        by (subst utf8_split.simps, subst (2) utf8_split.simps) simp
    next
      case Incomplete
      then show ?thesis
        using False by (subst (2) utf8_split.simps) (simp add: append_text_Nil)
    qed
  qed
qed

lemma from_utf8_simps:
  "from_utf8 bs =
     (if bs = [] then Inr []
      else case next_code_point (map unat bs) of
        Decoded c w \<Rightarrow>
          (case from_utf8 (drop w bs) of
             Inr t \<Rightarrow> Inr (c # t)
           | Inl e \<Rightarrow> Inl (e\<lparr>ue_valid_up_to := w + ue_valid_up_to e\<rparr>))
      | Bad n \<Rightarrow> Inl \<lparr>ue_valid_up_to = 0, ue_error_len = Some n\<rparr>
      | Incomplete \<Rightarrow> Inl \<lparr>ue_valid_up_to = 0, ue_error_len = None\<rparr>)"
  unfolding from_utf8_def drop_map [symmetric] by (subst decode_utf8.simps) simp

lemma from_utf8_Nil [simp]: "from_utf8 [] = Inr []"
  by (subst from_utf8_simps) simp

lemma from_utf8_append:
  "from_utf8 p = Inr t \<Longrightarrow>
   from_utf8 (p @ q) =
     (case from_utf8 q of
        Inr t' \<Rightarrow> Inr (t @ t')
      | Inl e \<Rightarrow> Inl (e\<lparr>ue_valid_up_to := length p + ue_valid_up_to e\<rparr>))"
proof (induction p arbitrary: t rule: utf8_split.induct)
  case (1 p)
  show ?case
  proof (cases "p = []")
    case True
    then show ?thesis using 1(2) by (simp split: sum.split)
  next
    case False
    then obtain c w t' where dec: "next_code_point (map unat p) = Decoded c w"
      and t': "from_utf8 (drop w p) = Inr t'" and t: "t = c # t'"
      using 1(2) by (subst (asm) from_utf8_simps) (auto split: utf8_step.splits sum.splits)
    have w: "w \<le> length p" using next_code_point_width [OF dec] by simp
    have "from_utf8 (p @ q) = (case from_utf8 (drop w p @ q) of Inr t \<Rightarrow> Inr (c # t)
          | Inl e \<Rightarrow> Inl (e\<lparr>ue_valid_up_to := w + ue_valid_up_to e\<rparr>))"
      using False next_code_point_append(1) [OF dec] w by (subst from_utf8_simps) simp
    then show ?thesis
      using 1(1) [OF False dec t'] w by (simp add: t split: sum.split)
  qed
qed

lemma next_code_point_take:
  "next_code_point bs = Decoded c w \<Longrightarrow> next_code_point (take w bs) = Decoded c w"
  by (cases bs) (auto simp: decode2_def decode3_def decode4_def split: if_splits list.splits)

lemma from_utf8_take:
  assumes "next_code_point (map unat bs) = Decoded c w"
  shows "from_utf8 (take w bs) = Inr [c]"
proof -
  have "next_code_point (map unat (take w bs)) = Decoded c w"
    using next_code_point_take [OF assms] by (simp add: take_map)
  moreover have "take w bs \<noteq> []" using next_code_point_width [OF assms] by auto
  ultimately show ?thesis by (subst from_utf8_simps) simp
qed

lemma utf8_split_Some:
  assumes "utf8_split bs = Some (t, r)"
  obtains p where "bs = p @ r" and "from_utf8 p = Inr t"
    and "r = [] \<or> next_code_point (map unat r) = Incomplete"
  using assms
proof (induction bs arbitrary: t thesis rule: utf8_split.induct)
  case (1 bs)
  show ?case
  proof (cases "bs \<noteq> [] \<and> (\<exists>c w. next_code_point (map unat bs) = Decoded c w)")
    case False
    then have "t = []" "r = bs" "r = [] \<or> next_code_point (map unat r) = Incomplete"
      using 1(3) by (auto simp: utf8_split.simps [of bs] split: utf8_step.splits if_splits)
    then show ?thesis using 1(2) [of "[]"] by simp
  next
    case True
    then obtain c w where dec: "bs \<noteq> []" "next_code_point (map unat bs) = Decoded c w" by auto
    then obtain t' where t': "utf8_split (drop w bs) = Some (t', r)" "t = c # t'"
      using 1(3) by (auto simp: utf8_split.simps [of bs])
    from 1(1) [OF dec _ t'(1)] obtain p where p: "drop w bs = p @ r" "from_utf8 p = Inr t'"
      "r = [] \<or> next_code_point (map unat r) = Incomplete" by auto
    have "bs = (take w bs @ p) @ r" using p(1) by (metis append.assoc append_take_drop_id)
    moreover have "from_utf8 (take w bs @ p) = Inr t"
      using from_utf8_append [OF from_utf8_take [OF dec(2)], of p] p(2) t'(2) by simp
    ultimately show ?thesis using 1(2) p(3) by blast
  qed
qed

lemma utf8_split_None:
  "utf8_split bs = None \<Longrightarrow>
     \<exists>v n. from_utf8 bs = Inl \<lparr>ue_valid_up_to = v, ue_error_len = Some n\<rparr>"
proof (induction bs rule: utf8_split.induct)
  case (1 bs)
  then show ?case
    by (fastforce simp: utf8_split.simps [of bs] from_utf8_simps [of bs]
        split: if_splits utf8_step.splits)
qed

lemma from_utf8_of_split:
  assumes "utf8_split bs = Some (t, r)"
  shows "from_utf8 bs = (if r = [] then Inr t
      else Inl \<lparr>ue_valid_up_to = length bs - length r, ue_error_len = None\<rparr>)"
    and "from_utf8 (take (length bs - length r) bs) = Inr t"
    and "drop (length bs - length r) bs = r"
    and "length bs - length r = 0 \<Longrightarrow> t = []"
proof -
  from assms obtain p where p: "bs = p @ r" "from_utf8 p = Inr t"
    and r: "r = [] \<or> next_code_point (map unat r) = Incomplete" by (rule utf8_split_Some)
  have "from_utf8 r = Inl \<lparr>ue_valid_up_to = 0, ue_error_len = None\<rparr>" if "r \<noteq> []"
    using r that by (subst from_utf8_simps) simp
  then show "from_utf8 bs = (if r = [] then Inr t
      else Inl \<lparr>ue_valid_up_to = length bs - length r, ue_error_len = None\<rparr>)"
    using from_utf8_append [OF p(2), of r] p by simp
  show "from_utf8 (take (length bs - length r) bs) = Inr t" "drop (length bs - length r) bs = r"
    "length bs - length r = 0 \<Longrightarrow> t = []"
    using p by auto
qed

lemma utf8_split_of_from: "from_utf8 bs = Inr t \<Longrightarrow> utf8_split bs = Some (t, [])"
  using utf8_split_None [of bs] from_utf8_of_split(1) [of bs]
  by (cases "utf8_split bs") (auto split: if_splits)

lemma utf8_split_rest: "utf8_split bs = Some (t, r) \<Longrightarrow> utf8_split r = Some ([], r)"
  by (erule utf8_split_Some) (auto simp: utf8_split.simps [of r])

section \<open>The encoder\<close>

text \<open>The bytes of a string (\<open>str::as_bytes\<close>): chars are Unicode scalar values.\<close>

definition is_scalar :: "rchar \<Rightarrow> bool" where
  "is_scalar c \<longleftrightarrow> c < 55296 \<or> 57344 \<le> c \<and> c < 1114112"

definition char_bytes :: "rchar \<Rightarrow> nat list" where
  "char_bytes c =
     (if c < 128 then [c]
      else if c < 2048 then [192 + c div 64, 128 + c mod 64]
      else if c < 65536 then [224 + c div 4096, 128 + c div 64 mod 64, 128 + c mod 64]
      else [240 + c div 262144, 128 + c div 4096 mod 64, 128 + c div 64 mod 64, 128 + c mod 64])"

definition utf8_bytes :: "rstring \<Rightarrow> byte list" where
  "utf8_bytes t = map of_nat (concat (map char_bytes t))"

lemma digits64:
  fixes c :: nat
  obtains q d where "c div 64 = q" "c mod 64 = d" "c = q * 64 + d" "d < 64"
  by (metis div_mult_mod_eq mod_less_divisor zero_less_numeral)

lemma div_64_64: "c div 4096 = c div 64 div (64 :: nat)" "c div 262144 = c div 64 div 64 div (64 :: nat)"
  by (simp_all add: div_mult2_eq [symmetric])

lemma decode_char_bytes:
  assumes "is_scalar c"
  shows "next_code_point (char_bytes c @ bs) = Decoded c (length (char_bytes c))"
proof -
  obtain q d where q: "c div 64 = q" "c mod 64 = d" "c = q * 64 + d" "d < 64" by (rule digits64)
  obtain a b where a: "q div 64 = a" "q mod 64 = b" "q = a * 64 + b" "b < 64" by (rule digits64)
  obtain e f where e: "a div 64 = e" "a mod 64 = f" "a = e * 64 + f" "f < 64" by (rule digits64)
  note digits = q(1,2) a(1,2) e(1,2) div_64_64
  have bound: "c < 1114112" "\<not> (55296 \<le> c \<and> c < 57344)" using assms by (auto simp: is_scalar_def)
  consider "c < 128" | "128 \<le> c" "c < 2048" | "2048 \<le> c" "c < 65536" | "65536 \<le> c"
    by linarith
  then show ?thesis
  proof cases
    case 1
    then show ?thesis by (simp add: char_bytes_def)
  next
    case 2
    then have "2 \<le> q" "q < 32" using q by linarith+
    moreover have "char_bytes c = [192 + q, 128 + d]" using 2 by (simp add: char_bytes_def digits)
    ultimately show ?thesis using q by (simp add: decode2_def cont_def)
  next
    case 3
    then have "a < 16" "a = 0 \<Longrightarrow> 32 \<le> b" "a = 13 \<Longrightarrow> b < 32" using q a bound by linarith+
    moreover have "char_bytes c = [224 + a, 128 + b, 128 + d]"
      using 3 by (simp add: char_bytes_def digits)
    ultimately show ?thesis using q a by (simp add: decode3_def second_ok_def cont_def)
  next
    case 4
    then have "e < 5" "e = 0 \<Longrightarrow> 16 \<le> f" "e = 4 \<Longrightarrow> f < 16" using q a e bound by linarith+
    moreover have "char_bytes c = [240 + e, 128 + f, 128 + b, 128 + d]"
      using 4 by (simp add: char_bytes_def digits)
    ultimately show ?thesis using q a e by (simp add: decode4_def second_ok_def cont_def)
  qed
qed

lemma char_bytes_byte:
  assumes "is_scalar c" and "b \<in> set (char_bytes c)"
  shows "b < 256"
proof -
  have "c < 1114112" using assms(1) by (auto simp: is_scalar_def)
  then have "c div 262144 < 5" by (simp add: div_less_iff_less_mult)
  moreover have "c div 64 mod 64 < 64" "c mod 64 < 64" "c div 4096 mod 64 < 64" by simp_all
  ultimately show ?thesis using assms(2) by (auto simp: char_bytes_def split: if_splits)
qed

lemma from_utf8_bytes: "\<forall>c \<in> set t. is_scalar c \<Longrightarrow> from_utf8 (utf8_bytes t) = Inr t"
proof (induction t)
  case (Cons c t)
  have "map unat (map of_nat (char_bytes c) :: byte list) = char_bytes c"
    using Cons.prems by (auto simp: unat_of_nat intro!: map_idI mod_less char_bytes_byte)
  then have "next_code_point (map unat (utf8_bytes (c # t))) = Decoded c (length (char_bytes c))"
    using decode_char_bytes [of c] Cons.prems by (simp add: utf8_bytes_def)
  moreover have "char_bytes c \<noteq> []" by (simp add: char_bytes_def)
  ultimately show ?case
    using Cons by (subst from_utf8_simps) (auto simp: utf8_bytes_def)
qed (simp add: utf8_bytes_def)

lemma mult_add_div_mod:
  fixes d :: nat
  assumes "d < 64"
  shows "(q * 64 + d) div 64 = q" "(q * 64 + d) mod 64 = d"
  using assms by simp_all

lemma next_code_point_bytes:
  assumes "next_code_point bs = Decoded c w" and "\<forall>b \<in> set bs. b < 256"
  shows "take w bs = char_bytes c"
proof -
  from assms(1) obtain b0 r where bs: "bs = b0 # r" by (cases bs) auto
  consider (one) "b0 < 128" "c = b0" "w = 1" | (two) "194 \<le> b0" "b0 < 224" "decode2 b0 r = Decoded c w"
    | (three) "224 \<le> b0" "b0 < 240" "decode3 b0 r = Decoded c w"
    | (four) "240 \<le> b0" "b0 < 245" "decode4 b0 r = Decoded c w"
    using assms(1) bs by (auto split: if_splits)
  then show ?thesis
  proof cases
    case one
    then show ?thesis by (simp add: bs char_bytes_def)
  next
    case two
    then obtain b1 r1 where r: "r = b1 # r1" "cont b1" "c = (b0 - 192) * 64 + (b1 - 128)" "w = 2"
      by (auto simp: decode2_def split: list.splits if_splits)
    obtain x y where xy: "b0 = 192 + x" "b1 = 128 + y" "2 \<le> x" "x < 32" "y < 64"
      using two r(2) by (auto simp: cont_def dest!: le_Suc_ex)
    then show ?thesis using r by (simp add: bs char_bytes_def)
  next
    case three
    then obtain b1 b2 r2 where r: "r = b1 # b2 # r2" "second_ok b0 b1" "cont b2"
        "c = (b0 - 224) * 4096 + (b1 - 128) * 64 + (b2 - 128)" "w = 3"
      by (auto simp: decode3_def split: list.splits if_splits)
    obtain x y z where xyz: "b0 = 224 + x" "b1 = 128 + y" "b2 = 128 + z" "x < 16" "y < 64" "z < 64"
        "x = 0 \<Longrightarrow> 32 \<le> y"
      using three r(2,3) by (auto simp: cont_def second_ok_def dest!: le_Suc_ex split: if_splits)
    have c: "c = (x * 64 + y) * 64 + z" using r(4) xyz by simp
    have "c div 64 = x * 64 + y" "c mod 64 = z" using mult_add_div_mod [OF xyz(6)] by (simp_all only: c)
    moreover have "2048 \<le> c" "c < 65536" using xyz by (cases "x = 0"; simp add: c)+
    ultimately show ?thesis using r xyz by (simp add: bs char_bytes_def div_64_64)
  next
    case four
    then obtain b1 b2 b3 r3 where r: "r = b1 # b2 # b3 # r3" "second_ok b0 b1" "cont b2" "cont b3"
        "c = (b0 - 240) * 262144 + (b1 - 128) * 4096 + (b2 - 128) * 64 + (b3 - 128)" "w = 4"
      by (auto simp: decode4_def split: list.splits if_splits)
    obtain x y z u where xyz: "b0 = 240 + x" "b1 = 128 + y" "b2 = 128 + z" "b3 = 128 + u"
        "x < 5" "y < 64" "z < 64" "u < 64" "x = 0 \<Longrightarrow> 16 \<le> y"
      using four r(2,3,4) by (auto simp: cont_def second_ok_def dest!: le_Suc_ex split: if_splits)
    have c: "c = ((x * 64 + y) * 64 + z) * 64 + u" using r(5) xyz by simp
    have "c div 64 = (x * 64 + y) * 64 + z" "c mod 64 = u"
      using mult_add_div_mod [OF xyz(8)] by (simp_all only: c)
    then have d: "c div 64 div 64 div 64 = x" "c div 64 div 64 mod 64 = y" "c div 64 mod 64 = z" "c mod 64 = u"
      using mult_add_div_mod [OF xyz(7)] mult_add_div_mod [OF xyz(6)] by (simp_all only:)
    have "65536 \<le> c" using xyz by (cases "x = 0"; simp add: c)
    then have "char_bytes c = [240 + x, 128 + y, 128 + z, 128 + u]"
      by (simp only: char_bytes_def div_64_64 d) simp
    then show ?thesis using r(1,6) xyz by (simp add: bs)
  qed
qed

lemma utf8_bytes_from: "from_utf8 bs = Inr t \<Longrightarrow> utf8_bytes t = bs"
proof (induction bs arbitrary: t rule: utf8_split.induct)
  case (1 bs)
  show ?case
  proof (cases "bs = []")
    case False
    with 1 obtain c w t' where d: "next_code_point (map unat bs) = Decoded c w" "from_utf8 (drop w bs) = Inr t'" "t = c # t'"
      by (subst (asm) from_utf8_simps) (auto split: utf8_step.splits sum.splits)
    have "take w (map unat bs) = char_bytes c"
      by (rule next_code_point_bytes [OF d(1)]) (use unsigned_less [where 'b = 8 and 'a = nat] in auto)
    then have "map of_nat (char_bytes c) = take w bs"
      by (auto simp: take_map [symmetric] o_def simp flip: \<open>take w (map unat bs) = char_bytes c\<close>)
    then show ?thesis using 1(1) [OF False d(1,2)] d(3) by (simp add: utf8_bytes_def)
  qed (use 1 in \<open>simp add: utf8_bytes_def\<close>)
qed

end
