(* ===== verification/Utf8_Stream.thy ===== *)
theory Utf8_Stream
  imports Citation Utf8
begin

text \<open>
  \<open>Utf8StreamParser\<close> of \<^verbatim>\<open>utils/stream-parser/src/utf8_stream.rs\<close>: a wrapper that feeds raw bytes
  to any streaming text parser and keeps an unfinished code point until its remaining bytes arrive.
  The wrapper is a client of the contract \<open>stream_text_parser\<close>.
\<close>

section \<open>The wrapper\<close>

datatype utf8_stream_parser_error =
    InvalidUtf8 (valid_up_to: nat) (error_len: nat)
  | IncompleteUtf8AtEof

record 'p utf8_stream_parser =
  us_inner :: 'p
  pending_utf8 :: "byte list"

definition utf8_new :: "'p \<Rightarrow> 'p utf8_stream_parser" where
  "utf8_new inner = \<lparr>us_inner = inner, pending_utf8 = []\<rparr>"

definition push_bytes :: "('p \<Rightarrow> rstring \<Rightarrow> 'p \<times> 'e stream_text_chunk) \<Rightarrow>
    'p utf8_stream_parser \<Rightarrow> byte list \<Rightarrow>
    'p utf8_stream_parser \<times> (utf8_stream_parser_error + 'e stream_text_chunk)" where
  "push_bytes push_str u chunk =
     (let old_len = length (pending_utf8 u);
          u = u\<lparr>pending_utf8 := pending_utf8 u @ chunk\<rparr>
      in case from_utf8 (pending_utf8 u) of
        Inr t \<Rightarrow>
          (let (inner, out) = push_str (us_inner u) t
           in (u\<lparr>us_inner := inner, pending_utf8 := []\<rparr>, Inr out))
      | Inl err \<Rightarrow>
          (case ue_error_len err of
             Some n \<Rightarrow> (u\<lparr>pending_utf8 := take old_len (pending_utf8 u)\<rparr>,
                        Inl (InvalidUtf8 (ue_valid_up_to err) n))
           | None \<Rightarrow>
               (let valid = ue_valid_up_to err in
                if valid = 0 then (u, Inr chunk_default)
                else case from_utf8 (take valid (pending_utf8 u)) of
                    Inl prefix_err \<Rightarrow>
                      (u\<lparr>pending_utf8 := take old_len (pending_utf8 u)\<rparr>,
                       Inl (InvalidUtf8 (ue_valid_up_to prefix_err)
                              (case ue_error_len prefix_err of Some n \<Rightarrow> n | None \<Rightarrow> 0)))
                  | Inr t \<Rightarrow>
                      (let (inner, out) = push_str (us_inner u) t
                       in (u\<lparr>us_inner := inner, pending_utf8 := drop valid (pending_utf8 u)\<rparr>,
                           Inr out)))))"

text \<open>The check of the buffered bytes that \<open>finish\<close> and \<open>into_inner\<close> share.\<close>

definition pending_error :: "byte list \<Rightarrow> utf8_stream_parser_error option" where
  "pending_error bs =
     (case from_utf8 bs of
        Inr _ \<Rightarrow> None
      | Inl err \<Rightarrow> Some (case ue_error_len err of
            Some n \<Rightarrow> InvalidUtf8 (ue_valid_up_to err) n
          | None \<Rightarrow> IncompleteUtf8AtEof))"

definition utf8_finish :: "('p \<Rightarrow> rstring \<Rightarrow> 'p \<times> 'e stream_text_chunk) \<Rightarrow>
    ('p \<Rightarrow> 'p \<times> 'e stream_text_chunk) \<Rightarrow> 'p utf8_stream_parser \<Rightarrow>
    'p utf8_stream_parser \<times> (utf8_stream_parser_error + 'e stream_text_chunk)" where
  "utf8_finish push_str finish u =
     (case (if pending_utf8 u \<noteq> [] then pending_error (pending_utf8 u) else None) of
        Some e \<Rightarrow> (u, Inl e)
      | None \<Rightarrow>
          (case (if pending_utf8 u = [] then Inr (u, chunk_default)
                 else case from_utf8 (pending_utf8 u) of
                     Inl err \<Rightarrow> Inl (InvalidUtf8 (ue_valid_up_to err)
                                 (case ue_error_len err of Some n \<Rightarrow> n | None \<Rightarrow> 0))
                   | Inr t \<Rightarrow>
                       (let (inner, out) = push_str (us_inner u) t
                        in Inr (u\<lparr>us_inner := inner, pending_utf8 := []\<rparr>, out))) of
             Inl e \<Rightarrow> (u, Inl e)
           | Inr (u, out) \<Rightarrow>
               (let (inner, tail) = finish (us_inner u)
                in (u\<lparr>us_inner := inner\<rparr>, Inr (chunk_append out tail)))))"

definition into_inner :: "'p utf8_stream_parser \<Rightarrow> utf8_stream_parser_error + 'p" where
  "into_inner u =
     (if pending_utf8 u = [] then Inr (us_inner u)
      else case pending_error (pending_utf8 u) of
          None \<Rightarrow> Inr (us_inner u)
        | Some e \<Rightarrow> Inl e)"

definition into_inner_lossy :: "'p utf8_stream_parser \<Rightarrow> 'p" where
  "into_inner_lossy u = us_inner u"

section \<open>The wrapper on a parser that meets the contract\<close>

text \<open>Feeding byte chunks up to the first error, and the result of a whole stream.\<close>

fun push_bytes_all :: "('p \<Rightarrow> rstring \<Rightarrow> 'p \<times> 'e stream_text_chunk) \<Rightarrow>
    'p utf8_stream_parser \<Rightarrow> byte list list \<Rightarrow>
    'p utf8_stream_parser \<times> (utf8_stream_parser_error + 'e stream_text_chunk)" where
  "push_bytes_all push_str u [] = (u, Inr chunk_default)"
| "push_bytes_all push_str u (b # bs) =
     (case push_bytes push_str u b of
        (u1, Inl e) \<Rightarrow> (u1, Inl e)
      | (u1, Inr c1) \<Rightarrow>
          (case push_bytes_all push_str u1 bs of
             (u2, Inl e) \<Rightarrow> (u2, Inl e)
           | (u2, Inr c2) \<Rightarrow> (u2, Inr (chunk_append c1 c2))))"

definition collect_bytes :: "('p \<Rightarrow> rstring \<Rightarrow> 'p \<times> 'e stream_text_chunk) \<Rightarrow>
    ('p \<Rightarrow> 'p \<times> 'e stream_text_chunk) \<Rightarrow> 'p \<Rightarrow> byte list list \<Rightarrow>
    utf8_stream_parser_error + 'e stream_text_chunk" where
  "collect_bytes push_str finish p bs =
     (case push_bytes_all push_str (utf8_new p) bs of
        (u, Inl e) \<Rightarrow> Inl e
      | (u, Inr c) \<Rightarrow>
          (case snd (utf8_finish push_str finish u) of
             Inl e \<Rightarrow> Inl e
           | Inr c' \<Rightarrow> Inr (chunk_append c c')))"

lemma push_bytes_invalid:
  assumes "utf8_split (pending_utf8 u @ chunk) = None"
  shows "\<exists>v n. push_bytes push_str u chunk = (u, Inl (InvalidUtf8 v n))"
  using utf8_split_None [OF assms] by (auto simp: push_bytes_def)

context stream_text_parser
begin

lemma push_bytes_valid:
  assumes "inv (us_inner u)" and "utf8_split (pending_utf8 u @ chunk) = Some (t, r)"
  shows "push_bytes push u chunk =
    (\<lparr>us_inner = fst (push (us_inner u) t), pending_utf8 = r\<rparr>, Inr (snd (push (us_inner u) t)))"
  using from_utf8_of_split [OF assms(2)] push_nil [OF assms(1)]
  by (auto simp: push_bytes_def Let_def case_prod_beta utf8_stream_parser.equality)

lemma push_bytes_all_valid:
  assumes "inv (us_inner u)" and "utf8_split (pending_utf8 u) = Some ([], pending_utf8 u)"
    and "utf8_split (pending_utf8 u @ concat bs) = Some (t, r)"
  shows "\<exists>c. push_bytes_all push u bs =
      (\<lparr>us_inner = fst (push (us_inner u) t), pending_utf8 = r\<rparr>, Inr c) \<and>
    visible_text c = visible_text (snd (push (us_inner u) t)) \<and>
    flat (extracted c) = flat (extracted (snd (push (us_inner u) t)))"
  using assms
proof (induction bs arbitrary: u t)
  case Nil
  then show ?case by (auto simp: push_nil utf8_stream_parser.equality)
next
  case (Cons b bs)
  obtain t1 r1 where 1: "utf8_split (pending_utf8 u @ b) = Some (t1, r1)"
    using Cons.prems(3) utf8_split_append [of "pending_utf8 u @ b" "concat bs"]
    by (cases "utf8_split (pending_utf8 u @ b)") auto
  then obtain t2 where 2: "utf8_split (r1 @ concat bs) = Some (t2, r)" and t: "t = t1 @ t2"
    using Cons.prems(3) utf8_split_append [of "pending_utf8 u @ b" "concat bs"]
    by (cases "utf8_split (r1 @ concat bs)") auto
  let ?u1 = "\<lparr>us_inner = fst (push (us_inner u) t1), pending_utf8 = r1\<rparr>"
  note step = push_bytes_valid [OF Cons.prems(1) 1]
  have "inv (us_inner ?u1)" using push_inv Cons.prems(1) by simp
  from Cons.IH [OF this, of t2] 2 utf8_split_rest [OF 1] show ?case
    by (auto simp: step t flat_append push_append_state [OF Cons.prems(1)]
        push_append_visible [OF Cons.prems(1)] push_append_extracted [OF Cons.prems(1)])
qed

lemma push_bytes_all_invalid:
  assumes "inv (us_inner u)" and "utf8_split (pending_utf8 u) = Some ([], pending_utf8 u)"
    and "utf8_split (pending_utf8 u @ concat bs) = None"
  shows "\<exists>u' v n. push_bytes_all push u bs = (u', Inl (InvalidUtf8 v n))"
  using assms
proof (induction bs arbitrary: u)
  case (Cons b bs)
  show ?case
  proof (cases "utf8_split (pending_utf8 u @ b)")
    case None
    then show ?thesis using push_bytes_invalid [OF None, of push] by auto
  next
    case (Some tr)
    obtain t1 r1 where 1: "utf8_split (pending_utf8 u @ b) = Some (t1, r1)" using Some by (cases tr) auto
    have 2: "utf8_split (r1 @ concat bs) = None"
      using Cons.prems(3) 1 utf8_split_append [of "pending_utf8 u @ b" "concat bs"] by simp
    let ?u1 = "\<lparr>us_inner = fst (push (us_inner u) t1), pending_utf8 = r1\<rparr>"
    have "\<exists>u' v n. push_bytes_all push ?u1 bs = (u', Inl (InvalidUtf8 v n))"
      using 2 utf8_split_rest [OF 1] push_inv Cons.prems(1) by (intro Cons.IH) simp_all
    then show ?thesis by (auto simp: push_bytes_valid [OF Cons.prems(1) 1])
  qed
qed simp

lemma utf8_finish_eq:
  assumes "utf8_split (pending_utf8 u) = Some ([], pending_utf8 u)"
  shows "snd (utf8_finish push finish u) =
    (if pending_utf8 u = [] then Inr (snd (finish (us_inner u))) else Inl IncompleteUtf8AtEof)"
  using from_utf8_of_split [OF assms]
  by (auto simp: utf8_finish_def pending_error_def Let_def case_prod_beta)

lemma collect_bytes_eq:
  assumes "inv p"
  shows "case utf8_split (concat bs) of
      None \<Rightarrow> (\<exists>v n. collect_bytes push finish p bs = Inl (InvalidUtf8 v n))
    | Some (t, r) \<Rightarrow>
        if r \<noteq> [] then collect_bytes push finish p bs = Inl IncompleteUtf8AtEof
        else \<exists>c. collect_bytes push finish p bs = Inr c \<and>
          visible_text c = visible_text (collect push finish p [t]) \<and>
          flat (extracted c) = flat (extracted (collect push finish p [t]))"
proof (cases "utf8_split (concat bs)")
  case None
  then have "\<exists>u' v n. push_bytes_all push (utf8_new p) bs = (u', Inl (InvalidUtf8 v n))"
    using assms by (intro push_bytes_all_invalid) (simp_all add: utf8_new_def)
  then show ?thesis by (auto simp: None collect_bytes_def)
next
  case (Some tr)
  obtain t r where tr: "tr = (t, r)" by (cases tr)
  obtain c where c: "push_bytes_all push (utf8_new p) bs =
      (\<lparr>us_inner = fst (push p t), pending_utf8 = r\<rparr>, Inr c)"
    "visible_text c = visible_text (snd (push p t))"
    "flat (extracted c) = flat (extracted (snd (push p t)))"
    using push_bytes_all_valid [of "utf8_new p" bs t r] assms Some tr by (auto simp: utf8_new_def)
  have "utf8_split r = Some ([], r)" using utf8_split_rest Some tr by simp
  then show ?thesis
    using c by (simp add: Some tr collect_bytes_def collect_def utf8_finish_eq case_prod_beta Let_def flat_append)
qed

end

section \<open>Properties\<close>

text \<open>C36: for every text and every way to cut its UTF-8 bytes into chunks, also inside a code point,
  the byte stream parser around a citation parser accepts all chunks and yields exactly what
  \<open>strip_citations\<close> computes on the text.\<close>

theorem utf8_citation_stream:
  assumes "\<forall>c \<in> set t. is_scalar c" and "concat bs = utf8_bytes t"
  shows "\<exists>p c. citation_new = Some p \<and>
    collect_bytes citation_push_str citation_finish p bs = Inr c \<and>
    strip_citations t = Some (visible_text c, extracted c)"
  using cit.collect_bytes_eq [OF citation_new_inv, of bs] utf8_split_of_from [OF from_utf8_bytes [OF assms(1)]]
  by (auto simp: assms(2) citation_new_Some strip_citations_eq Let_def)

theorem utf8_citation_stream_witness:
  "\<exists>p c. citation_new = Some p \<and>
    collect_bytes citation_push_str citation_finish p [[0x3C, 0xC3], [], [0xA9, 0xE2, 0x82], [0xAC]] = Inr c \<and>
    strip_citations [60, 233, 8364] = Some (visible_text c, extracted c)"
proof (rule utf8_citation_stream)
  show "\<forall>c \<in> set [60, 233, 8364]. is_scalar c" by (simp add: is_scalar_def)
  show "concat [[0x3C, 0xC3], [], [0xA9, 0xE2, 0x82], [0xAC]] = utf8_bytes [60, 233, 8364]"
    by (simp add: utf8_bytes_def char_bytes_def)
qed

text \<open>C39: on arbitrary bytes, the stream is accepted exactly when all bytes together are valid UTF-8;
  otherwise the caller gets \<open>InvalidUtf8\<close> when the bytes contain an invalid sequence and
  \<open>IncompleteUtf8AtEof\<close> when only the last code point is unfinished, however the bytes arrive.\<close>

theorem utf8_stream_errors:
  "\<exists>p. citation_new = Some p \<and>
     (case from_utf8 (concat bs) of
        Inr t \<Rightarrow> \<exists>c. collect_bytes citation_push_str citation_finish p bs = Inr c
      | Inl err \<Rightarrow>
          (case ue_error_len err of
             None \<Rightarrow> collect_bytes citation_push_str citation_finish p bs = Inl IncompleteUtf8AtEof
           | Some _ \<Rightarrow> \<exists>v n. collect_bytes citation_push_str citation_finish p bs = Inl (InvalidUtf8 v n)))"
proof -
  note eq = cit.collect_bytes_eq [OF citation_new_inv, of bs]
  show ?thesis
  proof (cases "utf8_split (concat bs)")
    case None
    then show ?thesis using eq utf8_split_None [OF None] by (auto simp: citation_new_Some)
  next
    case (Some tr)
    obtain t r where "tr = (t, r)" by (cases tr)
    with Some have split: "utf8_split (concat bs) = Some (t, r)" by simp
    show ?thesis using eq from_utf8_of_split(1) [OF split] by (auto simp: split citation_new_Some)
  qed
qed

text \<open>When \<open>push_bytes\<close> returns an error, the parser is exactly as before the call: the pushed
  chunk is rolled back and the inner parser has not seen any part of it.\<close>

theorem push_bytes_rollback:
  assumes "push_bytes push_str u chunk = (u', Inl e)"
  shows "u' = u"
  using assms
  by (auto simp: push_bytes_def Let_def case_prod_beta split: sum.splits option.splits if_splits)

theorem push_bytes_rollback_witness:
  "fst (push_bytes (\<lambda>p t. (p @ t, chunk_default)) \<lparr>us_inner = [], pending_utf8 = [0xC3]\<rparr> [0x28]) =
     \<lparr>us_inner = [], pending_utf8 = [0xC3]\<rparr>"
proof (rule push_bytes_rollback)
  show "push_bytes (\<lambda>p t. (p @ t, chunk_default)) \<lparr>us_inner = [], pending_utf8 = [0xC3]\<rparr> [0x28] =
      (fst (push_bytes (\<lambda>p t. (p @ t, chunk_default)) \<lparr>us_inner = [], pending_utf8 = [0xC3]\<rparr> [0x28]),
       Inl (InvalidUtf8 0 1))"
    by (simp add: push_bytes_def from_utf8_def decode_utf8.simps decode2_def cont_def)
qed

end
