(* ===== verification/Head_Tail_Buffer.thy ===== *)
theory Head_Tail_Buffer
  imports Utf8
begin

text \<open>
  \<open>HeadTailBuffer\<close> of \<^verbatim>\<open>core/src/unified_exec/head_tail_buffer.rs\<close>: the capped buffer that keeps
  the beginning and the end of a process's output.  The abstract specification \<open>kept\<close> describes the
  buffer after any output as a function of the whole output; every operation refines it.
\<close>

section \<open>Definitions\<close>

record head_tail_buffer =
  max_bytes :: nat
  head_budget :: nat
  tail_budget :: nat
  head :: "byte list"
  tail :: "byte list"
  omitted :: nat

definition UNIFIED_EXEC_OUTPUT_MAX_BYTES :: nat where
  "UNIFIED_EXEC_OUTPUT_MAX_BYTES = 1024 * 1024"

definition htb_new :: "nat \<Rightarrow> head_tail_buffer" where
  "htb_new m =
     (let head_b = m div 2; tail_b = sat_sub m head_b
      in \<lparr>max_bytes = m, head_budget = head_b, tail_budget = tail_b, head = [], tail = [], omitted = 0\<rparr>)"

definition htb_default :: head_tail_buffer where
  "htb_default = htb_new UNIFIED_EXEC_OUTPUT_MAX_BYTES"

definition retained_bytes :: "head_tail_buffer \<Rightarrow> nat" where
  "retained_bytes b = sat_add (length (head b)) (length (tail b))"

definition omitted_bytes :: "head_tail_buffer \<Rightarrow> nat" where
  "omitted_bytes b = omitted b"

definition total_bytes :: "head_tail_buffer \<Rightarrow> nat" where
  "total_bytes b = sat_add (retained_bytes b) (omitted b)"

definition trim_tail_to_budget :: "head_tail_buffer \<Rightarrow> head_tail_buffer" where
  "trim_tail_to_budget b =
     (let excess = sat_sub (length (tail b)) (tail_budget b) in
      if excess > 0 then b\<lparr>tail := drop excess (tail b), omitted := sat_add (omitted b) excess\<rparr> else b)"

definition push_to_tail :: "head_tail_buffer \<Rightarrow> byte list \<Rightarrow> head_tail_buffer" where
  "push_to_tail b chunk =
     (if chunk = [] then b
      else if tail_budget b = 0 then b\<lparr>omitted := sat_add (omitted b) (length chunk)\<rparr>
      else if length chunk \<ge> tail_budget b then
        let start = sat_sub (length chunk) (tail_budget b);
            kept = drop start chunk;
            dropped = sat_sub (length chunk) (length kept)
        in b\<lparr>omitted := sat_add (sat_add (omitted b) (length (tail b))) dropped, tail := kept\<rparr>
      else trim_tail_to_budget (b\<lparr>tail := tail b @ chunk\<rparr>))"

definition push_chunk :: "head_tail_buffer \<Rightarrow> byte list \<Rightarrow> head_tail_buffer" where
  "push_chunk b chunk =
     (if chunk = [] then b
      else if max_bytes b = 0 then b\<lparr>omitted := sat_add (omitted b) (length chunk)\<rparr>
      else
        let remaining_head = sat_sub (head_budget b) (length (head b));
            head_len = min remaining_head (length chunk);
            b = (if head_len > 0 then b\<lparr>head := head b @ take head_len chunk\<rparr> else b)
        in push_to_tail b (drop head_len chunk))"

definition snapshot_chunks :: "head_tail_buffer \<Rightarrow> byte list list" where
  "snapshot_chunks b =
     (if head b \<noteq> [] then [head b] else []) @ (if tail b \<noteq> [] then [tail b] else [])"

definition to_bytes :: "head_tail_buffer \<Rightarrow> byte list" where
  "to_bytes b = head b @ tail b"

definition format_output_omission_marker :: "nat \<Rightarrow> rstring" where
  "format_output_omission_marker n = lit ''... '' @ fmt_nat n @ lit '' bytes omitted ...''"

definition to_bytes_with_omission_marker :: "head_tail_buffer \<Rightarrow> byte list" where
  "to_bytes_with_omission_marker b =
     (if omitted b = 0 then to_bytes b
      else head b @ [10] @ utf8_bytes (format_output_omission_marker (omitted b)) @ [10] @ tail b)"

text \<open>\<open>drain\<close> returns the buffer that remains and the drained one.\<close>

definition drain :: "head_tail_buffer \<Rightarrow> head_tail_buffer \<times> head_tail_buffer" where
  "drain b = (b\<lparr>head := [], tail := [], omitted := 0\<rparr>,
     \<lparr>max_bytes = max_bytes b, head_budget = head_budget b, tail_budget = tail_budget b,
      head = head b, tail = tail b, omitted = omitted b\<rparr>)"

definition push_buffer :: "head_tail_buffer \<Rightarrow> head_tail_buffer \<Rightarrow> head_tail_buffer" where
  "push_buffer b other =
     (let b = push_chunk b (head other);
          b = push_chunk b (tail other)
      in b\<lparr>omitted := sat_add (omitted b) (omitted other)\<rparr>)"

section \<open>Specification\<close>

text \<open>The last \<open>n\<close> elements, and the buffer of capacity \<open>m\<close> after the output \<open>out\<close>.\<close>

definition last_n :: "nat \<Rightarrow> 'a list \<Rightarrow> 'a list" where
  "last_n n xs = drop (length xs - n) xs"

definition kept :: "nat \<Rightarrow> byte list \<Rightarrow> head_tail_buffer" where
  "kept m out =
     \<lparr>max_bytes = m, head_budget = m div 2, tail_budget = m - m div 2,
      head = take (m div 2) out, tail = last_n (m - m div 2) (drop (m div 2) out),
      omitted = min (length out - m) usize_max\<rparr>"

lemma htb_new_kept: "htb_new m = kept m []"
  by (simp add: htb_new_def kept_def last_n_def Let_def)

lemma last_n_append:
  "last_n n (last_n n xs @ ys) = last_n n (xs @ ys)"
  by (cases "length xs \<le> n") (simp_all add: last_n_def add.commute)

lemma last_n_append_long: "n \<le> length ys \<Longrightarrow> last_n n (xs @ ys) = last_n n ys"
  by (simp add: last_n_def)

lemma length_last_n: "length (last_n n xs) = min n (length xs)"
  by (simp add: last_n_def min_def)

lemma last_n_drop: "n + k \<le> length xs \<Longrightarrow> last_n n (drop k xs) = last_n n xs"
  by (simp add: last_n_def)

lemma last_n_all: "length xs \<le> n \<Longrightarrow> last_n n xs = xs"
  by (simp add: last_n_def)

lemma push_to_tail_last_n:
  assumes "tail b = last_n (tail_budget b) r" and "omitted b = min (length r - tail_budget b) usize_max"
    and "0 < tail_budget b"
  shows "push_to_tail b d =
    b\<lparr>tail := last_n (tail_budget b) (r @ d),
      omitted := min (length (r @ d) - tail_budget b) usize_max\<rparr>"
proof -
  let ?n = "tail_budget b"
  consider "d = []" | "d \<noteq> []" "?n \<le> length d" | "d \<noteq> []" "length d < ?n" by linarith
  then show ?thesis
  proof cases
    case 1
    then show ?thesis using assms by (simp add: push_to_tail_def)
  next
    case 2
    then have "push_to_tail b d = b\<lparr>tail := last_n ?n d,
        omitted := sat_add (sat_add (omitted b) (length (tail b))) (length d - ?n)\<rparr>"
      using assms(3) by (simp add: push_to_tail_def last_n_def Let_def)
    moreover have "sat_add (sat_add (omitted b) (length (tail b))) (length d - ?n) =
        min (length (r @ d) - ?n) usize_max"
    proof -
      have "length r - ?n + min ?n (length r) + (length d - ?n) = length (r @ d) - ?n"
        using 2 by simp
      then show ?thesis by (simp only: assms(1,2) length_last_n sat_add_sum)
    qed
    ultimately show ?thesis using 2 by (simp add: last_n_append_long)
  next
    case 3
    let ?t = "last_n ?n r @ d"
    have "push_to_tail b d = trim_tail_to_budget (b\<lparr>tail := ?t\<rparr>)"
      using 3 assms(1,3) by (simp add: push_to_tail_def)
    also have "\<dots> = b\<lparr>tail := last_n ?n ?t, omitted := sat_add (omitted b) (length ?t - ?n)\<rparr>"
      using assms(2) by (simp add: trim_tail_to_budget_def last_n_def Let_def)
    also have "sat_add (omitted b) (length ?t - ?n) = min (length (r @ d) - ?n) usize_max"
    proof -
      have "length r - ?n + (length ?t - ?n) = length (r @ d) - ?n" by (simp add: length_last_n)
      then show ?thesis by (simp only: assms(2) sat_add_sum)
    qed
    finally show ?thesis by (simp only: last_n_append)
  qed
qed

lemma push_chunk_kept: "push_chunk (kept m out) chunk = kept m (out @ chunk)"
proof (cases "chunk = [] \<or> m = 0")
  case True
  then consider "chunk = []" | "m = 0" "chunk \<noteq> []" by blast
  then show ?thesis
    by cases (simp_all add: push_chunk_def, simp add: kept_def last_n_def sat_add_sum)
next
  case False
  let ?h = "m div 2" and ?b = "kept m out"
  let ?k = "min (?h - length (head ?b)) (length chunk)"
  let ?b1 = "?b\<lparr>head := head ?b @ take ?k chunk\<rparr>"
  have head: "head ?b @ take ?k chunk = take ?h (out @ chunk)"
    by (cases "length out \<le> ?h"; cases "length chunk \<le> ?h - length out") (simp_all add: kept_def)
  have rest: "drop ?h out @ drop ?k chunk = drop ?h (out @ chunk)"
    by (cases "length out \<le> ?h"; cases "length chunk \<le> ?h - length out") (simp_all add: kept_def)
  have "push_chunk ?b chunk = push_to_tail ?b1 (drop ?k chunk)"
    using False by (simp add: push_chunk_def Let_def kept_def)
  also have "\<dots> = ?b1\<lparr>tail := last_n (tail_budget ?b1) (drop ?h out @ drop ?k chunk),
      omitted := min (length (drop ?h out @ drop ?k chunk) - tail_budget ?b1) usize_max\<rparr>"
  proof (rule push_to_tail_last_n)
    show "tail ?b1 = last_n (tail_budget ?b1) (drop ?h out)" by (simp add: kept_def)
    have "length out - m = length (drop ?h out) - (m - ?h)" by simp
    then show "omitted ?b1 = min (length (drop ?h out) - tail_budget ?b1) usize_max"
      by (simp only: kept_def head_tail_buffer.simps)
    show "0 < tail_budget ?b1" using False by (simp add: kept_def)
  qed
  also have "\<dots> = kept m (out @ chunk)"
  proof -
    have "length (drop ?h (out @ chunk)) - (m - ?h) = length (out @ chunk) - m" by simp
    then show ?thesis unfolding rest head by (simp only: kept_def head_tail_buffer.simps)
  qed
  finally show ?thesis .
qed

lemma push_buffer_kept: "push_buffer (kept m out) (kept m out') = kept m (out @ out')"
proof (cases "length out' \<le> m")
  case True
  then have "take (m div 2) out' @ last_n (m - m div 2) (drop (m div 2) out') = out'"
    by (simp add: last_n_all)
  then have "push_chunk (push_chunk (kept m out) (head (kept m out'))) (tail (kept m out')) =
      kept m (out @ out')"
    unfolding push_chunk_kept by (simp add: kept_def)
  with True show ?thesis by (simp add: push_buffer_def Let_def) (simp add: kept_def sat_add_def)
next
  case False
  let ?h = "m div 2"
  let ?mid = "take ?h out' @ last_n (m - ?h) (drop ?h out')"
  have mid: "push_chunk (push_chunk (kept m out) (head (kept m out'))) (tail (kept m out')) =
      kept m (out @ ?mid)"
    by (simp add: push_chunk_kept kept_def [of m out'])
  have len: "length ?mid = m" "length (last_n (m - ?h) (drop ?h out')) = m - ?h" "?h \<le> length out'"
    using False by (simp_all add: length_last_n)
  have head: "take ?h (out @ ?mid) = take ?h (out @ out')"
    using len(3) by (cases "?h \<le> length out") simp_all
  obtain u where u: "drop ?h out' = u @ last_n (m - ?h) (drop ?h out')"
    by (metis append_take_drop_id last_n_def)
  have split: "drop ?h (out @ take ?h out' @ v) = drop ?h (out @ take ?h out') @ v" for v
    using len(3) by (cases "?h \<le> length out") (simp_all add: min_absorb2)
  have tail: "last_n (m - ?h) (drop ?h (out @ ?mid)) = last_n (m - ?h) (drop ?h (out @ out'))"
    using split [of "last_n (m - ?h) (drop ?h out')"] split [of "drop ?h out'"] len(2) u
      last_n_append_long [of "m - ?h" "last_n (m - ?h) (drop ?h out')"]
    by (metis append.assoc append_take_drop_id order_refl)
  have om: "length (out @ ?mid) - m + (length out' - m) = length (out @ out') - m"
    using False len(1) by simp
  show ?thesis
    unfolding push_buffer_def Let_def mid
    using head tail arg_cong [OF om, of "\<lambda>n. min n usize_max"]
    by (simp only: kept_def head_tail_buffer.simps sat_add_sums)
qed

lemma drain_kept: "drain (kept m out) = (kept m [], kept m out)"
  by (simp add: drain_def kept_def last_n_def)

lemma kept_length: "length (head (kept m out)) + length (tail (kept m out)) = min m (length out)"
  by (auto simp: kept_def length_last_n)

lemma usize_max_pos: "0 < usize_max"
  by (simp add: usize_max_def)

lemma nothing_drained:
  assumes "retained_bytes (kept m out) = 0" and "omitted_bytes (kept m out) = 0"
  shows "out = []"
proof -
  have "min m (length out) = 0"
    using assms(1) kept_length [of m out] usize_max_pos
    by (simp add: retained_bytes_def sat_add_def del: length_greater_0_conv)
  moreover have "length out \<le> m"
    using assms(2) usize_max_pos by (simp add: omitted_bytes_def kept_def min_def split: if_splits)
  ultimately show ?thesis by simp
qed

section \<open>The interface of the buffer\<close>

text \<open>
  What the tasks that share a buffer rely on: \<open>rep out\<close> is the buffer that stands for the output
  \<open>out\<close>, and every operation acts on the output it stands for.
\<close>

locale output_buffer =
  fixes rep :: "byte list \<Rightarrow> 'b"
    and new :: 'b
    and push :: "'b \<Rightarrow> byte list \<Rightarrow> 'b"
    and merge :: "'b \<Rightarrow> 'b \<Rightarrow> 'b"
    and take_all :: "'b \<Rightarrow> 'b \<times> 'b"
    and holds_output :: "'b \<Rightarrow> bool"
  assumes new_rep: "new = rep []"
    and push_rep: "push (rep out) chunk = rep (out @ chunk)"
    and merge_rep: "merge (rep out) (rep out') = rep (out @ out')"
    and take_all_rep: "take_all (rep out) = (rep [], rep out)"
    and holds_output_rep: "out \<noteq> [] \<Longrightarrow> holds_output (rep out)"
begin

lemma push_chunks_rep: "foldl push (rep out) chunks = rep (out @ concat chunks)"
  by (induction chunks arbitrary: out) (simp_all add: push_rep)

lemma pushed: "foldl push new chunks = rep (concat chunks)"
  by (simp add: new_rep push_chunks_rep)

text \<open>Moving what one buffer holds to the end of another, unless it holds nothing.\<close>

lemma moved_rep:
  "(case take_all (rep b) of (rest, got) \<Rightarrow> (rest, if holds_output got then merge (rep a) got else rep a)) =
     (rep [], rep (a @ b))"
  using holds_output_rep [of b] by (cases "b = []") (simp_all add: take_all_rep merge_rep)

end

interpretation htb: output_buffer "kept m" "htb_new m" push_chunk push_buffer drain
    "\<lambda>b. retained_bytes b > 0 \<or> omitted_bytes b > 0" for m
  by unfold_locales (use nothing_drained in \<open>auto simp: htb_new_kept push_chunk_kept push_buffer_kept drain_kept\<close>)

section \<open>The collector\<close>

text \<open>
  The shared output buffer and its two clients.  The output task of
  \<^verbatim>\<open>core/src/unified_exec/process.rs\<close> appends what the process writes; the loop of
  \<open>collect_output_until_deadline\<close> in \<^verbatim>\<open>core/src/unified_exec/process_manager.rs\<close> drains the buffer
  under its lock and appends what it got to its own buffer.  Each action runs under the lock, so an
  execution is an interleaving of the two.  The field \<open>written\<close> records the output for the
  specification.  Waiting and deadlines only decide when the loop drains and when it stops.
\<close>

record output_state =
  live :: head_tail_buffer
  collected :: head_tail_buffer
  written :: "byte list"

definition write_output :: "output_state \<Rightarrow> byte list \<Rightarrow> output_state" where
  "write_output s chunk =
     s\<lparr>live := push_chunk (live s) chunk, written := written s @ chunk\<rparr>"

definition collect_output :: "output_state \<Rightarrow> output_state" where
  "collect_output s =
     (let (rest, drained_output) = drain (live s);
          has_drained_output = (retained_bytes drained_output > 0 \<or> omitted_bytes drained_output > 0)
      in if has_drained_output
         then s\<lparr>live := rest, collected := push_buffer (collected s) drained_output\<rparr>
         else s\<lparr>live := rest\<rparr>)"

inductive output_run :: "nat \<Rightarrow> output_state \<Rightarrow> bool" for m where
  start: "output_run m \<lparr>live = htb_new m, collected = htb_new m, written = []\<rparr>"
| write_step: "output_run m s \<Longrightarrow> output_run m (write_output s chunk)"
| collect_step: "output_run m s \<Longrightarrow> output_run m (collect_output s)"

lemma collect_output_kept:
  assumes "collected s = kept m a" and "live s = kept m b"
  shows "collect_output s = s\<lparr>live := kept m [], collected := kept m (a @ b)\<rparr>"
  using htb.moved_rep [where m = m and a = a and b = b] assms
  by (auto simp: collect_output_def case_prod_beta Let_def htb.take_all_rep split: if_splits)

lemma output_run_kept:
  assumes "output_run m s"
  shows "\<exists>a b. collected s = kept m a \<and> live s = kept m b \<and> written s = a @ b"
  using assms
proof induction
  case start
  have "collected \<lparr>live = htb_new m, collected = htb_new m, written = []\<rparr> = kept m [] \<and>
      live \<lparr>live = htb_new m, collected = htb_new m, written = []\<rparr> = kept m [] \<and> [] = [] @ []"
    by (simp add: htb.new_rep)
  then show ?case by (metis output_state.select_convs(3))
next
  case (write_step s chunk)
  then obtain a b where "collected s = kept m a" "live s = kept m b" "written s = a @ b" by blast
  then have "collected (write_output s chunk) = kept m a \<and> live (write_output s chunk) = kept m (b @ chunk) \<and>
      written (write_output s chunk) = a @ b @ chunk"
    by (simp add: write_output_def htb.push_rep)
  then show ?case by blast
next
  case (collect_step s)
  then obtain a b where "collected s = kept m a" "live s = kept m b" "written s = a @ b" by blast
  then have "collected (collect_output s) = kept m (a @ b) \<and> live (collect_output s) = kept m [] \<and>
      written (collect_output s) = (a @ b) @ []"
    by (simp add: collect_output_kept)
  then show ?case by blast
qed

section \<open>Properties\<close>

text \<open>C28: a buffer of capacity \<open>m\<close> that is fed with any chunks is the buffer of the specification
  for the whole output: the first \<open>m / 2\<close> bytes, the last \<open>m - m / 2\<close> of the remaining bytes, and
  the number of bytes between them (saturating), for every capacity, zero included.\<close>

theorem push_chunks_refines:
  "foldl push_chunk (htb_new m) chunks = kept m (concat chunks)"
  by (rule htb.pushed)

text \<open>C40: the buffer never holds more than its capacity and reports the length of the whole output
  (saturating); the text shown is the output itself when it fits, and otherwise the kept beginning
  and end around a marker line with the number of omitted bytes.\<close>

theorem head_tail_output:
  "length (to_bytes (foldl push_chunk (htb_new m) chunks)) = min m (length (concat chunks))
   \<and> total_bytes (foldl push_chunk (htb_new m) chunks) = min (length (concat chunks)) usize_max
   \<and> to_bytes_with_omission_marker (foldl push_chunk (htb_new m) chunks) =
      (if length (concat chunks) \<le> m then concat chunks
       else take (m div 2) (concat chunks) @ [10] @
            utf8_bytes (format_output_omission_marker (min (length (concat chunks) - m) usize_max)) @ [10] @
            last_n (m - m div 2) (concat chunks))"
proof -
  let ?out = "concat chunks"
  note len = kept_length [of m ?out]
  have "retained_bytes (kept m ?out) = min (min m (length ?out)) usize_max"
    using len by (simp add: retained_bytes_def sat_add_def)
  moreover have "omitted (kept m ?out) = min (length ?out - m) usize_max" by (simp add: kept_def)
  moreover have "min m (length ?out) + (length ?out - m) = length ?out" by simp
  ultimately have "total_bytes (kept m ?out) = min (length ?out) usize_max"
    by (simp only: total_bytes_def sat_add_sums)
  moreover have "to_bytes_with_omission_marker (kept m ?out) = ?out" if "length ?out \<le> m"
    using that by (simp add: to_bytes_with_omission_marker_def to_bytes_def kept_def last_n_all)
  moreover have "to_bytes_with_omission_marker (kept m ?out) = take (m div 2) ?out @ [10] @
      utf8_bytes (format_output_omission_marker (min (length ?out - m) usize_max)) @ [10] @
      last_n (m - m div 2) ?out" if "\<not> length ?out \<le> m"
  proof -
    have "omitted (kept m ?out) = min (length ?out - m) usize_max" "omitted (kept m ?out) \<noteq> 0"
      using that usize_max_pos by (simp_all add: kept_def min_def)
    then have "to_bytes_with_omission_marker (kept m ?out) = head (kept m ?out) @ [10] @
        utf8_bytes (format_output_omission_marker (min (length ?out - m) usize_max)) @ [10] @
        tail (kept m ?out)"
      unfolding to_bytes_with_omission_marker_def by (simp only: if_False)
    then show ?thesis using that by (simp add: kept_def last_n_drop)
  qed
  ultimately show ?thesis using len by (simp add: htb.pushed to_bytes_def)
qed

text \<open>C30: in every interleaving of the writing task and the collecting loop, the collected buffer is
  the one of the specification for a prefix of the output, and after a collection for all of the
  output so far: draining in pieces loses and reorders nothing beyond what one capped buffer
  would omit.\<close>

theorem collector_sees_output:
  assumes "output_run m s"
  shows "(\<exists>a. prefix a (written s) \<and> collected s = kept m a)
    \<and> collected (collect_output s) = kept m (written s)"
proof -
  obtain a b where ab: "collected s = kept m a" "live s = kept m b" "written s = a @ b"
    using output_run_kept [OF assms] by blast
  then have "prefix a (written s)" "collected (collect_output s) = kept m (written s)"
    by (simp_all add: collect_output_kept [OF ab(1,2)])
  with ab(1) show ?thesis by blast
qed

theorem collector_sees_output_witness:
  "collected (collect_output (write_output (collect_output (write_output
     \<lparr>live = htb_new 4, collected = htb_new 4, written = []\<rparr> [1, 2, 3])) [4, 5, 6, 7])) =
   kept 4 [1, 2, 3, 4, 5, 6, 7]"
proof -
  let ?s = "write_output (collect_output (write_output
     \<lparr>live = htb_new 4, collected = htb_new 4, written = []\<rparr> [1, 2, 3])) [4, 5, 6, 7]"
  have "output_run 4 ?s" by (intro output_run.intros)
  from collector_sees_output [OF this] show ?thesis
    by (simp add: write_output_def collect_output_def Let_def case_prod_beta)
qed

end
