(* ===== verification/Patch_Parser.thy ===== *)
theory Patch_Parser
  imports Prelude
begin

text \<open>
  The parser of the patch language, \<^verbatim>\<open>apply-patch/src/parser.rs\<close> and
  \<^verbatim>\<open>apply-patch/src/streaming_parser.rs\<close>: markers, hunks, the streaming parser with its line
  buffer and its modes, and \<open>parse_patch\<close> with the strict and lenient boundaries.

  A path is the string it was built from.  A method that takes \<open>&mut self\<close> and fails returns before
  it changes the parser's state, so that the state part is threaded through a \<open>Result\<close>; the
  line buffer and the line number, which are changed first, are threaded outside of it.
\<close>

section \<open>Data\<close>

definition BEGIN_PATCH_MARKER :: rstring where "BEGIN_PATCH_MARKER = lit ''*** Begin Patch''"
definition END_PATCH_MARKER :: rstring where "END_PATCH_MARKER = lit ''*** End Patch''"
definition ADD_FILE_MARKER :: rstring where "ADD_FILE_MARKER = lit ''*** Add File: ''"
definition DELETE_FILE_MARKER :: rstring where "DELETE_FILE_MARKER = lit ''*** Delete File: ''"
definition UPDATE_FILE_MARKER :: rstring where "UPDATE_FILE_MARKER = lit ''*** Update File: ''"
definition MOVE_TO_MARKER :: rstring where "MOVE_TO_MARKER = lit ''*** Move to: ''"
definition EOF_MARKER :: rstring where "EOF_MARKER = lit ''*** End of File''"
definition CHANGE_CONTEXT_MARKER :: rstring where "CHANGE_CONTEXT_MARKER = lit ''@@ ''"
definition EMPTY_CHANGE_CONTEXT_MARKER :: rstring where "EMPTY_CHANGE_CONTEXT_MARKER = lit ''@@''"
definition ENVIRONMENT_ID_MARKER :: rstring where "ENVIRONMENT_ID_MARKER = lit ''*** Environment ID:''"

definition PARSE_IN_STRICT_MODE :: bool where "PARSE_IN_STRICT_MODE = False"

type_synonym path = rstring

datatype parse_error =
    InvalidPatchError rstring
  | InvalidHunkError (message: rstring) (error_line: nat)

record update_file_chunk =
  change_context :: "rstring option"
  old_lines :: "rstring list"
  new_lines :: "rstring list"
  is_end_of_file :: bool

datatype hunk =
    AddFile path rstring
  | DeleteFile path
  | UpdateFile path "path option" "update_file_chunk list"

text \<open>\<open>Hunk::path\<close>: the path affected, the destination of a rename.\<close>

fun hunk_path :: "hunk \<Rightarrow> path" where
  "hunk_path (AddFile p _) = p"
| "hunk_path (DeleteFile p) = p"
| "hunk_path (UpdateFile _ (Some p) _) = p"
| "hunk_path (UpdateFile p None _) = p"

text \<open>The path that \<open>Hunk::resolve_path\<close> joins to the working directory: the source of a rename.\<close>

fun hunk_source_path :: "hunk \<Rightarrow> path" where
  "hunk_source_path (UpdateFile p _ _) = p"
| "hunk_source_path h = hunk_path h"

datatype streaming_parser_mode =
    NotStarted
  | StartedPatch
  | ModeAddFile
  | ModeDeleteFile
  | ModeUpdateFile (hunk_line_number: nat)
  | EndedPatch

record streaming_parser_state =
  mode :: streaming_parser_mode
  hunks :: "hunk list"
  environment_id :: "rstring option"

record streaming_patch_parser =
  patch_line_buffer :: rstring
  patch_state :: streaming_parser_state
  line_number :: nat

definition patch_parser_default :: streaming_patch_parser where
  "patch_parser_default =
     \<lparr>patch_line_buffer = [], patch_state = \<lparr>mode = NotStarted, hunks = [], environment_id = None\<rparr>,
      line_number = 0\<rparr>"

section \<open>Messages\<close>

definition quoted :: "rstring \<Rightarrow> rstring" where
  "quoted s = [39] @ s @ [39]"

definition first_line_error :: parse_error where
  "first_line_error = InvalidPatchError
     (lit ''The first line of the patch must be '' @ quoted (lit ''*** Begin Patch''))"

definition last_line_error :: parse_error where
  "last_line_error = InvalidPatchError
     (lit ''The last line of the patch must be '' @ quoted (lit ''*** End Patch''))"

definition unexpected_line :: "rstring \<Rightarrow> nat \<Rightarrow> parse_error" where
  "unexpected_line line n = InvalidHunkError
     (lit ''Unexpected line found in update hunk: '' @ quoted line @
      lit ''. Every line should start with '' @ quoted (lit '' '') @ lit '' (context line), '' @
      quoted (lit ''+'') @ lit '' (added line), or '' @ quoted (lit ''-'') @ lit '' (removed line)'') n"

definition invalid_header :: "rstring \<Rightarrow> nat \<Rightarrow> parse_error" where
  "invalid_header trimmed n = InvalidHunkError
     (quoted trimmed @ lit '' is not a valid hunk header. Valid hunk headers: '' @
      quoted (lit ''*** Add File: {path}'') @ lit '', '' @ quoted (lit ''*** Delete File: {path}'') @
      lit '', '' @ quoted (lit ''*** Update File: {path}'')) n"

definition expected_context :: "rstring \<Rightarrow> nat \<Rightarrow> parse_error" where
  "expected_context line n = InvalidHunkError
     (lit ''Expected update hunk to start with a @@ context marker, got: '' @ quoted line) n"

definition no_lines_error :: "nat \<Rightarrow> parse_error" where
  "no_lines_error n = InvalidHunkError (lit ''Update hunk does not contain any lines'') n"

section \<open>The streaming parser\<close>

definition has_no_lines :: "update_file_chunk \<Rightarrow> bool" where
  "has_no_lines chunk \<longleftrightarrow> old_lines chunk = [] \<and> new_lines chunk = []"

text \<open>\<open>chunks.last().is_some_and(f)\<close>\<close>

definition last_is :: "('a \<Rightarrow> bool) \<Rightarrow> 'a list \<Rightarrow> bool" where
  "last_is f xs = (case last_opt xs of None \<Rightarrow> False | Some x \<Rightarrow> f x)"

definition ensure_update_hunk_is_not_empty :: "nat \<Rightarrow> streaming_parser_state \<Rightarrow> rstring \<Rightarrow> parse_error + unit" where
  "ensure_update_hunk_is_not_empty n st line =
     (case last_opt (hunks st) of
        Some (UpdateFile path _ chunks) \<Rightarrow>
          (case (chunks = [], mode st) of
             (True, ModeUpdateFile hunk_line) \<Rightarrow>
               Inl (InvalidHunkError (lit ''Update file hunk for path '' @ quoted path @ lit '' is empty'') hunk_line)
           | _ \<Rightarrow>
               if last_is has_no_lines chunks then
                 (if line = END_PATCH_MARKER then Inl (no_lines_error n) else Inl (unexpected_line line n))
               else Inr ())
      | _ \<Rightarrow> Inr ())"

text \<open>Returns whether the line was a header, and the new state.\<close>

definition handle_hunk_headers_and_end_patch :: "nat \<Rightarrow> rstring \<Rightarrow> streaming_parser_state \<Rightarrow>
    parse_error + (bool \<times> streaming_parser_state)" where
  "handle_hunk_headers_and_end_patch n trimmed st =
     (case (mode st = StartedPatch, strip_prefix ENVIRONMENT_ID_MARKER trimmed) of
        (True, Some env) \<Rightarrow>
          if environment_id st \<noteq> None then
            Inl (InvalidPatchError (lit ''apply_patch environment_id cannot be specified more than once''))
          else
            let env = trim env in
            if env = [] then Inl (InvalidPatchError (lit ''apply_patch environment_id cannot be empty''))
            else Inr (True, st\<lparr>environment_id := Some env\<rparr>)
      | _ \<Rightarrow>
          if trimmed = END_PATCH_MARKER then
            bind_res (ensure_update_hunk_is_not_empty n st trimmed) (\<lambda>_. Inr (True, st\<lparr>mode := EndedPatch\<rparr>))
          else case strip_prefix ADD_FILE_MARKER trimmed of
            Some path \<Rightarrow>
              bind_res (ensure_update_hunk_is_not_empty n st trimmed)
                (\<lambda>_. Inr (True, st\<lparr>hunks := hunks st @ [AddFile path []], mode := ModeAddFile\<rparr>))
          | None \<Rightarrow> (case strip_prefix DELETE_FILE_MARKER trimmed of
            Some path \<Rightarrow>
              bind_res (ensure_update_hunk_is_not_empty n st trimmed)
                (\<lambda>_. Inr (True, st\<lparr>hunks := hunks st @ [DeleteFile path], mode := ModeDeleteFile\<rparr>))
          | None \<Rightarrow> (case strip_prefix UPDATE_FILE_MARKER trimmed of
            Some path \<Rightarrow>
              bind_res (ensure_update_hunk_is_not_empty n st trimmed)
                (\<lambda>_. Inr (True, st\<lparr>hunks := hunks st @ [UpdateFile path None []], mode := ModeUpdateFile n\<rparr>))
          | None \<Rightarrow> Inr (False, st))))"

text \<open>Replacing the last hunk and the mode, and appending to the last chunk, which is created when
  there is none.\<close>

definition set_last_hunk :: "hunk \<Rightarrow> nat \<Rightarrow> streaming_parser_state \<Rightarrow> streaming_parser_state" where
  "set_last_hunk h hunk_line st =
     st\<lparr>hunks := butlast (hunks st) @ [h], mode := ModeUpdateFile hunk_line\<rparr>"

definition empty_chunk :: "rstring option \<Rightarrow> update_file_chunk" where
  "empty_chunk ctx = \<lparr>change_context = ctx, old_lines = [], new_lines = [], is_end_of_file = False\<rparr>"

definition on_last_chunk :: "(update_file_chunk \<Rightarrow> update_file_chunk) \<Rightarrow> update_file_chunk list \<Rightarrow>
    update_file_chunk list" where
  "on_last_chunk f chunks = (if chunks = [] then [] else butlast chunks @ [f (last chunks)])"

definition push_diff_line :: "(update_file_chunk \<Rightarrow> update_file_chunk) \<Rightarrow> update_file_chunk list \<Rightarrow>
    update_file_chunk list" where
  "push_diff_line f chunks = on_last_chunk f (if chunks = [] then [empty_chunk None] else chunks)"

definition add_old :: "rstring \<Rightarrow> update_file_chunk \<Rightarrow> update_file_chunk" where
  "add_old l chunk = chunk\<lparr>old_lines := old_lines chunk @ [l]\<rparr>"

definition add_new :: "rstring \<Rightarrow> update_file_chunk \<Rightarrow> update_file_chunk" where
  "add_new l chunk = chunk\<lparr>new_lines := new_lines chunk @ [l]\<rparr>"

text \<open>The part of the update mode that looks at the last hunk.\<close>

definition is_context_marker :: "rstring \<Rightarrow> bool" where
  "is_context_marker update_line \<longleftrightarrow>
     update_line = EMPTY_CHANGE_CONTEXT_MARKER \<or> prefix CHANGE_CONTEXT_MARKER update_line"

definition process_diff_line :: "nat \<Rightarrow> rstring \<Rightarrow> update_file_chunk list \<Rightarrow>
    parse_error + update_file_chunk list" where
  "process_diff_line n line chunks =
     (if line = [] then Inr (push_diff_line (add_new [] \<circ> add_old []) chunks)
      else case strip_prefix (lit '' '') line of
        Some l \<Rightarrow> Inr (push_diff_line (add_new l \<circ> add_old l) chunks)
      | None \<Rightarrow> (case strip_prefix (lit ''+'') line of
        Some l \<Rightarrow> Inr (push_diff_line (add_new l) chunks)
      | None \<Rightarrow> (case strip_prefix (lit ''-'') line of
        Some l \<Rightarrow> Inr (push_diff_line (add_old l) chunks)
      | None \<Rightarrow>
          if last_is (\<lambda>chunk. \<not> has_no_lines chunk) chunks then Inl (expected_context line n)
          else Inl (unexpected_line line n))))"

definition process_update_hunk :: "nat \<Rightarrow> nat \<Rightarrow> rstring \<Rightarrow> rstring \<Rightarrow> path \<Rightarrow> path option \<Rightarrow>
    update_file_chunk list \<Rightarrow> streaming_parser_state \<Rightarrow> parse_error + streaming_parser_state" where
  "process_update_hunk n hunk_line line update_line path move_path chunks st =
     (if last_is is_end_of_file chunks \<and> update_line = [] then Inr st
      else if last_is is_end_of_file chunks \<and> \<not> is_context_marker update_line then
        Inl (expected_context line n)
      else case (chunks = [] \<and> move_path = None, strip_prefix MOVE_TO_MARKER update_line) of
        (True, Some move_to) \<Rightarrow> Inr (set_last_hunk (UpdateFile path (Some move_to) chunks) hunk_line st)
      | _ \<Rightarrow>
        if is_context_marker update_line \<and> last_is has_no_lines chunks then Inl (unexpected_line line n)
        else if update_line = EMPTY_CHANGE_CONTEXT_MARKER then
          Inr (set_last_hunk (UpdateFile path move_path (chunks @ [empty_chunk None])) hunk_line st)
        else case strip_prefix CHANGE_CONTEXT_MARKER update_line of
          Some ctx \<Rightarrow>
            Inr (set_last_hunk (UpdateFile path move_path (chunks @ [empty_chunk (Some ctx)])) hunk_line st)
        | None \<Rightarrow>
            if update_line = EOF_MARKER then
              if last_is has_no_lines chunks then Inl (no_lines_error n)
              else Inr (set_last_hunk (UpdateFile path move_path
                (on_last_chunk (\<lambda>chunk. chunk\<lparr>is_end_of_file := True\<rparr>) chunks)) hunk_line st)
            else bind_res (process_diff_line n line chunks)
              (\<lambda>chunks. Inr (set_last_hunk (UpdateFile path move_path chunks) hunk_line st)))"

definition process_line :: "nat \<Rightarrow> rstring \<Rightarrow> streaming_parser_state \<Rightarrow>
    parse_error + streaming_parser_state" where
  "process_line n line st =
     (let trimmed = trim line in
      case mode st of
        NotStarted \<Rightarrow>
          if trimmed = BEGIN_PATCH_MARKER then Inr (st\<lparr>mode := StartedPatch\<rparr>) else Inl first_line_error
      | StartedPatch \<Rightarrow>
          bind_res (handle_hunk_headers_and_end_patch n trimmed st) (\<lambda>(handled, st).
            if handled then Inr st else Inl (invalid_header trimmed n))
      | ModeAddFile \<Rightarrow>
          bind_res (handle_hunk_headers_and_end_patch n trimmed st) (\<lambda>(handled, st).
            if handled then Inr st
            else case (strip_prefix (lit ''+'') line, last_opt (hunks st)) of
              (Some line_to_add, Some (AddFile path contents)) \<Rightarrow>
                Inr (st\<lparr>hunks := butlast (hunks st) @ [AddFile path (contents @ line_to_add @ [newline])]\<rparr>)
            | _ \<Rightarrow> Inl (invalid_header trimmed n))
      | ModeDeleteFile \<Rightarrow>
          bind_res (handle_hunk_headers_and_end_patch n trimmed st) (\<lambda>(handled, st).
            if handled then Inr st else Inl (invalid_header trimmed n))
      | ModeUpdateFile hunk_line \<Rightarrow>
          (let update_line = trim_end line in
           bind_res (handle_hunk_headers_and_end_patch n update_line st) (\<lambda>(handled, st).
             if handled then Inr st
             else case last_opt (hunks st) of
               Some (UpdateFile path move_path chunks) \<Rightarrow>
                 process_update_hunk n hunk_line line update_line path move_path chunks st
             | _ \<Rightarrow> Inl (unexpected_line line n)))
      | EndedPatch \<Rightarrow> if trimmed = [] then Inr st else Inl last_line_error)"

text \<open>One char of \<open>push_delta\<close>, the loop, and \<open>finish\<close>.\<close>

definition strip_cr :: "rstring \<Rightarrow> rstring" where
  "strip_cr line = (case strip_suffix [carriage_return] line of Some l \<Rightarrow> l | None \<Rightarrow> line)"

definition push_char :: "streaming_patch_parser \<Rightarrow> rchar \<Rightarrow>
    streaming_patch_parser \<times> (parse_error + unit)" where
  "push_char p ch =
     (if ch = newline then
        let line = strip_cr (patch_line_buffer p);
            p = p\<lparr>patch_line_buffer := [], line_number := line_number p + 1\<rparr>
        in case process_line (line_number p) line (patch_state p) of
             Inl e \<Rightarrow> (p, Inl e)
           | Inr st \<Rightarrow> (p\<lparr>patch_state := st\<rparr>, Inr ())
      else (p\<lparr>patch_line_buffer := patch_line_buffer p @ [ch]\<rparr>, Inr ()))"

fun push_delta :: "streaming_patch_parser \<Rightarrow> rstring \<Rightarrow>
    streaming_patch_parser \<times> (parse_error + hunk list)" where
  "push_delta p [] = (p, Inr (hunks (patch_state p)))"
| "push_delta p (ch # delta) =
     (case push_char p ch of
        (p, Inl e) \<Rightarrow> (p, Inl e)
      | (p, Inr _) \<Rightarrow> push_delta p delta)"

definition patch_finish :: "streaming_patch_parser \<Rightarrow>
    streaming_patch_parser \<times> (parse_error + hunk list)" where
  "patch_finish p =
     (let (p, r) =
        (if patch_line_buffer p \<noteq> [] then
           let line = patch_line_buffer p;
               p = p\<lparr>patch_line_buffer := [], line_number := line_number p + 1\<rparr>
           in case (if trim line = END_PATCH_MARKER
                    then bind_res (ensure_update_hunk_is_not_empty (line_number p) (patch_state p) (trim line))
                      (\<lambda>_. Inr ((patch_state p)\<lparr>mode := EndedPatch\<rparr>))
                    else process_line (line_number p) line (patch_state p)) of
                Inl e \<Rightarrow> (p, Inl e)
              | Inr st \<Rightarrow> (p\<lparr>patch_state := st\<rparr>, Inr ())
         else (p, Inr ()))
      in case r of
           Inl e \<Rightarrow> (p, Inl e)
         | Inr _ \<Rightarrow>
             if mode (patch_state p) \<noteq> EndedPatch then (p, Inl last_line_error)
             else (p, Inr (hunks (patch_state p))))"

section \<open>Parsing a whole patch\<close>

record apply_patch_args =
  arg_patch :: rstring
  arg_hunks :: "hunk list"
  arg_workdir :: "rstring option"
  arg_environment_id :: "rstring option"

datatype parse_mode = Strict | Lenient

definition check_start_and_end_lines_strict :: "rstring option \<Rightarrow> rstring option \<Rightarrow> parse_error + unit" where
  "check_start_and_end_lines_strict first_line last_line =
     (let first_line = map_option trim first_line; last_line = map_option trim last_line in
      if first_line = Some BEGIN_PATCH_MARKER \<and> last_line = Some END_PATCH_MARKER then Inr ()
      else if first_line \<noteq> None \<and> first_line \<noteq> Some BEGIN_PATCH_MARKER then Inl first_line_error
      else Inl last_line_error)"

definition check_patch_boundaries_strict :: "rstring list \<Rightarrow> parse_error + rstring list" where
  "check_patch_boundaries_strict ls =
     (let (first_line, last_line) =
        (case ls of [] \<Rightarrow> (None, None) | [first] \<Rightarrow> (Some first, Some first)
         | first # rest \<Rightarrow> (Some first, Some (last rest)))
      in bind_res (check_start_and_end_lines_strict first_line last_line) (\<lambda>_. Inr ls))"

definition check_patch_boundaries_lenient :: "rstring list \<Rightarrow> parse_error + rstring list" where
  "check_patch_boundaries_lenient ls =
     (case check_patch_boundaries_strict ls of
        Inr ls' \<Rightarrow> Inr ls'
      | Inl e \<Rightarrow>
          (case ls of
             first # second # rest \<Rightarrow>
               if (first = lit ''<<EOF'' \<or> first = lit ''<<'' @ quoted (lit ''EOF'') \<or>
                   first = lit ''<<\"EOF\"'') \<and>
                  suffix (lit ''EOF'') (last ls) \<and> length ls \<ge> 4
               then check_patch_boundaries_strict (butlast (tl ls))
               else Inl e
           | _ \<Rightarrow> Inl e))"

fun check_patch_boundaries :: "parse_mode \<Rightarrow> rstring list \<Rightarrow> parse_error + rstring list" where
  "check_patch_boundaries Strict ls = check_patch_boundaries_strict ls"
| "check_patch_boundaries Lenient ls = check_patch_boundaries_lenient ls"

definition parse_patch_text :: "rstring \<Rightarrow> parse_mode \<Rightarrow> parse_error + apply_patch_args" where
  "parse_patch_text patch m =
     bind_res (check_patch_boundaries m (lines (trim patch))) (\<lambda>patch_lines.
       let patch = join [newline] patch_lines;
           (parser, r) = push_delta patch_parser_default patch
       in bind_res r (\<lambda>_.
         let (parser, r) = patch_finish parser
         in bind_res r (\<lambda>hs.
           Inr \<lparr>arg_patch = patch, arg_hunks = hs, arg_workdir = None,
             arg_environment_id = environment_id (patch_state parser)\<rparr>)))"

definition parse_patch :: "rstring \<Rightarrow> parse_error + apply_patch_args" where
  "parse_patch patch = parse_patch_text patch (if PARSE_IN_STRICT_MODE then Strict else Lenient)"

section \<open>Well-formed patches\<close>

definition wf_hunk :: "hunk \<Rightarrow> bool" where
  "wf_hunk h \<longleftrightarrow> hunk_path h \<noteq> [] \<and> hunk_source_path h \<noteq> [] \<and>
     (case h of
        UpdateFile _ _ chunks \<Rightarrow> chunks \<noteq> [] \<and> (\<forall>chunk \<in> set chunks. \<not> has_no_lines chunk)
      | _ \<Rightarrow> True)"

text \<open>An update hunk while it is read: only its last chunk may have no lines yet.\<close>

definition open_hunk :: "hunk \<Rightarrow> bool" where
  "open_hunk h \<longleftrightarrow> hunk_path h \<noteq> [] \<and> hunk_source_path h \<noteq> [] \<and>
     (case h of
        UpdateFile _ _ chunks \<Rightarrow> (\<forall>chunk \<in> set (butlast chunks). \<not> has_no_lines chunk)
      | _ \<Rightarrow> False)"

fun mode_inv :: "streaming_parser_mode \<Rightarrow> hunk list \<Rightarrow> bool" where
  "mode_inv (ModeUpdateFile _) hs \<longleftrightarrow>
     hs \<noteq> [] \<and> (\<forall>h \<in> set (butlast hs). wf_hunk h) \<and> open_hunk (last hs)"
| "mode_inv NotStarted hs \<longleftrightarrow> hs = []"
| "mode_inv StartedPatch hs \<longleftrightarrow> hs = []"
| "mode_inv ModeAddFile hs \<longleftrightarrow> (\<forall>h \<in> set hs. wf_hunk h) \<and> hs \<noteq> [] \<and> (\<exists>p c. last hs = AddFile p c)"
| "mode_inv ModeDeleteFile hs \<longleftrightarrow> (\<forall>h \<in> set hs. wf_hunk h)"
| "mode_inv EndedPatch hs \<longleftrightarrow> (\<forall>h \<in> set hs. wf_hunk h)"

definition state_inv :: "streaming_parser_state \<Rightarrow> bool" where
  "state_inv st \<longleftrightarrow> mode_inv (mode st) (hunks st) \<and> environment_id st \<noteq> Some []"

lemma last_is_simps [simp]: "\<not> last_is f []" "last_is f (xs @ [x]) = f x"
  by (simp_all add: last_is_def)

lemma last_is_iff: "last_is f xs \<longleftrightarrow> xs \<noteq> [] \<and> f (last xs)"
  by (simp add: last_is_def last_opt_def)

lemma strip_prefix_Some: "strip_prefix p s = Some r \<longleftrightarrow> s = p @ r"
  by (auto simp: strip_prefix_def prefix_def)

lemma trim_end_last: "trim_end s \<noteq> [] \<Longrightarrow> \<not> is_whitespace (last (trim_end s))"
  by (simp add: trim_end_def last_rev hd_dropWhile)

lemma trim_eq: "trim s = trim_end (trim_start s)"
  by (simp add: trim_def)

text \<open>A marker that ends with a space is never all of a trimmed line.\<close>

lemma marker_rest:
  assumes "strip_prefix m (trim_end s) = Some r" and "suffix [32] m"
  shows "r \<noteq> []"
proof
  assume "r = []"
  with assms have "trim_end s \<noteq> []" "last (trim_end s) = 32"
    by (auto simp: strip_prefix_Some suffix_def)
  then show False using trim_end_last [of s] by (simp add: is_whitespace_def)
qed

lemma markers_space:
  "suffix [32] ADD_FILE_MARKER" "suffix [32] DELETE_FILE_MARKER" "suffix [32] UPDATE_FILE_MARKER"
  "suffix [32] MOVE_TO_MARKER"
  by (simp_all add: suffix_def ADD_FILE_MARKER_def DELETE_FILE_MARKER_def UPDATE_FILE_MARKER_def
      MOVE_TO_MARKER_def)

lemma in_butlast_or_last: "x \<in> set xs \<Longrightarrow> x \<in> set (butlast xs) \<or> x = last xs"
  by (metis append_butlast_last_id in_set_conv_decomp_last rotate1.simps(2) set_ConsD set_rotate1 empty_iff list.set(1))

lemma ensure_closes:
  assumes "state_inv st" and "mode st \<noteq> NotStarted"
    and "ensure_update_hunk_is_not_empty n st line = Inr ()"
  shows "\<forall>h \<in> set (hunks st). wf_hunk h"
proof (cases "mode st")
  case (ModeUpdateFile k)
  then have inv: "hunks st \<noteq> []" "\<forall>h \<in> set (butlast (hunks st)). wf_hunk h" "open_hunk (last (hunks st))"
    using assms(1) by (simp_all add: state_inv_def)
  then obtain p mp chunks where l: "last (hunks st) = UpdateFile p mp chunks"
    by (auto simp: open_hunk_def split: hunk.splits)
  have "chunks \<noteq> []" "\<not> has_no_lines (last chunks)"
    using assms(3) inv(1) l ModeUpdateFile
    by (auto simp: ensure_update_hunk_is_not_empty_def last_opt_def last_is_iff split: if_splits)
  then have "wf_hunk (last (hunks st))"
    using inv(3) l in_butlast_or_last by (fastforce simp: open_hunk_def wf_hunk_def)
  then show ?thesis using inv(2) in_butlast_or_last by metis
qed (use assms in \<open>auto simp: state_inv_def\<close>)

lemma handle_inv:
  assumes "state_inv st" and "mode st \<noteq> NotStarted"
    and "handle_hunk_headers_and_end_patch n (trim_end l) st = Inr (handled, st')"
  shows "if handled then state_inv st' else st' = st"
proof -
  let ?ok = "ensure_update_hunk_is_not_empty n st (trim_end l) = Inr ()"
  note closes = ensure_closes [OF assms(1,2), of n "trim_end l"]
  have env: "environment_id st \<noteq> Some []" using assms(1) by (simp add: state_inv_def)
  have ended: "?ok \<Longrightarrow> state_inv (st\<lparr>mode := EndedPatch\<rparr>)"
    using closes env by (simp add: state_inv_def)
  have add: "?ok \<Longrightarrow> strip_prefix ADD_FILE_MARKER (trim_end l) = Some r \<Longrightarrow>
      state_inv (st\<lparr>hunks := hunks st @ [AddFile r []], mode := ModeAddFile\<rparr>)" for r
    using closes env marker_rest [of ADD_FILE_MARKER l r] markers_space
    by (auto simp: state_inv_def wf_hunk_def)
  have delete: "?ok \<Longrightarrow> strip_prefix DELETE_FILE_MARKER (trim_end l) = Some r \<Longrightarrow>
      state_inv (st\<lparr>hunks := hunks st @ [DeleteFile r], mode := ModeDeleteFile\<rparr>)" for r
    using closes env marker_rest [of DELETE_FILE_MARKER l r] markers_space
    by (auto simp: state_inv_def wf_hunk_def)
  have update: "?ok \<Longrightarrow> strip_prefix UPDATE_FILE_MARKER (trim_end l) = Some r \<Longrightarrow>
      state_inv (st\<lparr>hunks := hunks st @ [UpdateFile r None []], mode := ModeUpdateFile n\<rparr>)" for r
    using closes env marker_rest [of UPDATE_FILE_MARKER l r] markers_space
    by (auto simp: state_inv_def open_hunk_def)
  have "state_inv (st\<lparr>environment_id := Some e\<rparr>)" if "e \<noteq> []" for e
    using assms(1) that by (simp add: state_inv_def)
  with assms(3) ended add delete update show ?thesis
    unfolding handle_hunk_headers_and_end_patch_def
    by (fastforce simp: result_iff Let_def split: bool.splits option.splits if_splits)
qed

text \<open>Only the last chunk of a list changes, and an added line is never lost.\<close>

lemma open_push_diff_line:
  assumes "\<forall>chunk \<in> set (butlast chunks). \<not> has_no_lines chunk"
  shows "\<forall>chunk \<in> set (butlast (push_diff_line f chunks)). \<not> has_no_lines chunk"
  using assms by (simp add: push_diff_line_def on_last_chunk_def)

lemma process_diff_line_open:
  assumes "process_diff_line n line chunks = Inr chunks'"
    and "\<forall>chunk \<in> set (butlast chunks). \<not> has_no_lines chunk"
  shows "\<forall>chunk \<in> set (butlast chunks'). \<not> has_no_lines chunk"
proof -
  obtain f where "chunks' = push_diff_line f chunks"
    using assms(1) by (auto simp: process_diff_line_def split: option.splits if_splits)
  then show ?thesis using open_push_diff_line [OF assms(2)] by simp
qed

lemma append_chunk_open:
  assumes "\<forall>chunk \<in> set (butlast chunks). \<not> has_no_lines chunk" and "\<not> last_is has_no_lines chunks"
  shows "\<forall>chunk \<in> set chunks. \<not> has_no_lines chunk"
  using assms in_butlast_or_last by (fastforce simp: last_is_iff)

lemma process_update_hunk_inv:
  assumes "process_update_hunk n hunk_line line (trim_end line) path move_path chunks st = Inr st'"
    and "open_hunk (UpdateFile path move_path chunks)"
  shows "st' = st \<or> (\<exists>mp chunks'. st' = set_last_hunk (UpdateFile path mp chunks') hunk_line st \<and>
    open_hunk (UpdateFile path mp chunks'))"
proof -
  have op: "\<forall>chunk \<in> set (butlast chunks). \<not> has_no_lines chunk" "path \<noteq> []" "move_path \<noteq> Some []"
    using assms(2) by (cases move_path; simp add: open_hunk_def)+
  have chunk: "open_hunk (UpdateFile path mp cs)"
    if "\<forall>chunk \<in> set (butlast cs). \<not> has_no_lines chunk" "mp \<noteq> Some []" for mp cs
    using that op(2) by (cases mp) (auto simp: open_hunk_def)
  consider "st' = st"
    | r where "strip_prefix MOVE_TO_MARKER (trim_end line) = Some r"
        "st' = set_last_hunk (UpdateFile path (Some r) chunks) hunk_line st"
    | ctx where "\<not> last_is has_no_lines chunks"
        "st' = set_last_hunk (UpdateFile path move_path (chunks @ [empty_chunk ctx])) hunk_line st"
    | "st' = set_last_hunk (UpdateFile path move_path
        (on_last_chunk (\<lambda>chunk. chunk\<lparr>is_end_of_file := True\<rparr>) chunks)) hunk_line st"
    | chunks' where "process_diff_line n line chunks = Inr chunks'"
        "st' = set_last_hunk (UpdateFile path move_path chunks') hunk_line st"
    using assms(1)
    by (auto simp: process_update_hunk_def result_iff is_context_marker_def strip_prefix_def
        split: bool.splits option.splits if_splits)
  then show ?thesis
  proof cases
    case 2
    then show ?thesis using chunk [OF op(1), of "Some r"] marker_rest [OF 2(1)] markers_space by auto
  next
    case 3
    then show ?thesis using chunk [of "chunks @ [empty_chunk ctx]"] append_chunk_open [OF op(1)] op(3) by auto
  next
    case 4
    have "open_hunk (UpdateFile path move_path
        (on_last_chunk (\<lambda>chunk. chunk\<lparr>is_end_of_file := True\<rparr>) chunks))"
      using op(1,3) by (intro chunk) (simp_all add: on_last_chunk_def)
    with 4 show ?thesis by blast
  next
    case 5
    then show ?thesis using chunk [OF process_diff_line_open [OF 5(1) op(1)] op(3)] by blast
  qed simp
qed

lemma process_line_update:
  assumes "process_line n line st = Inr st'" and "state_inv st" and "mode st = ModeUpdateFile hunk_line"
  shows "state_inv st'"
proof -
  obtain handled st1 where h: "handle_hunk_headers_and_end_patch n (trim_end line) st = Inr (handled, st1)"
    using assms(1,3) by (cases "handle_hunk_headers_and_end_patch n (trim_end line) st")
      (auto simp: process_line_def Let_def)
  have st1: "if handled then state_inv st1 else st1 = st"
    using handle_inv [OF assms(2) _ h] assms(3) by simp
  have inv: "hunks st \<noteq> []" "\<forall>h \<in> set (butlast (hunks st)). wf_hunk h" "open_hunk (last (hunks st))"
    "environment_id st \<noteq> Some []"
    using assms(2,3) by (simp_all add: state_inv_def)
  show ?thesis
  proof (cases handled)
    case False
    obtain path move_path chunks where l: "last (hunks st) = UpdateFile path move_path chunks"
      using inv(3) by (auto simp: open_hunk_def split: hunk.splits)
    then have u: "process_update_hunk n hunk_line line (trim_end line) path move_path chunks st = Inr st'"
      using assms(1,3) h False st1 inv(1) by (simp add: process_line_def Let_def last_opt_def)
    show ?thesis
      using process_update_hunk_inv [OF u] inv l assms(2) by (auto simp: state_inv_def set_last_hunk_def)
  qed (use assms h st1 in \<open>simp add: process_line_def Let_def\<close>)
qed

lemma process_line_add:
  assumes "process_line n line st = Inr st'" and "state_inv st" and "mode st = ModeAddFile"
  shows "state_inv st'"
proof -
  obtain handled st1 where h: "handle_hunk_headers_and_end_patch n (trim line) st = Inr (handled, st1)"
    using assms(1,3) by (cases "handle_hunk_headers_and_end_patch n (trim line) st")
      (auto simp: process_line_def Let_def)
  have st1: "if handled then state_inv st1 else st1 = st"
    using handle_inv [OF assms(2) _ h [unfolded trim_eq]] assms(3) by simp
  have inv: "\<forall>h \<in> set (hunks st). wf_hunk h" "hunks st \<noteq> []" "environment_id st \<noteq> Some []"
    using assms(2,3) by (simp_all add: state_inv_def)
  show ?thesis
  proof (cases handled)
    case False
    obtain path contents where l: "last (hunks st) = AddFile path contents"
      using assms(2,3) by (auto simp: state_inv_def)
    then obtain r where "st' = st\<lparr>hunks := butlast (hunks st) @ [AddFile path (contents @ r @ [newline])]\<rparr>"
      using assms(1,3) h False st1 inv(2)
      by (cases "strip_prefix (lit ''+'') line") (auto simp: process_line_def Let_def last_opt_def)
    moreover have "wf_hunk (AddFile path (contents @ r @ [newline]))"
      using inv(1) last_in_set [OF inv(2)] l by (auto simp: wf_hunk_def)
    ultimately show ?thesis
      using inv assms(3) by (auto simp: state_inv_def dest: in_set_butlastD)
  qed (use assms h st1 in \<open>simp add: process_line_def Let_def\<close>)
qed

lemma process_line_inv:
  assumes "process_line n line st = Inr st'" and "state_inv st"
  shows "state_inv st'"
proof -
  have header: "state_inv st''" if "mode st \<noteq> NotStarted"
    "handle_hunk_headers_and_end_patch n (trim line) st = Inr (True, st'')" for st''
    using handle_inv [OF assms(2) that(1) that(2) [unfolded trim_eq]] by simp
  show ?thesis
  proof (cases "mode st")
    case (ModeUpdateFile k)
    then show ?thesis using process_line_update assms by blast
  next
    case ModeAddFile
    then show ?thesis using process_line_add assms by blast
  qed (use assms header in
    \<open>auto simp: process_line_def Let_def state_inv_def result_iff split: if_splits\<close>)
qed

lemma push_char_inv: "state_inv (patch_state p) \<Longrightarrow> state_inv (patch_state (fst (push_char p ch)))"
  by (auto simp: push_char_def Let_def intro: process_line_inv split: sum.split)

lemma push_delta_inv:
  "state_inv (patch_state p) \<Longrightarrow> state_inv (patch_state (fst (push_delta p delta)))"
proof (induction p delta rule: push_delta.induct)
  case (2 p ch delta)
  then show ?case
    using push_char_inv [OF "2.prems", of ch] by (auto split: prod.split sum.split)
qed simp

lemma patch_finish_wf:
  assumes "state_inv (patch_state p)" and "patch_finish p = (p', Inr hs)"
  shows "hs = hunks (patch_state p') \<and> state_inv (patch_state p') \<and> (\<forall>h \<in> set hs. wf_hunk h)"
proof -
  define n where "n = line_number p + 1"
  have "state_inv ((patch_state p)\<lparr>mode := EndedPatch\<rparr>)"
    if "ensure_update_hunk_is_not_empty n (patch_state p) l = Inr ()" for l
  proof (cases "mode (patch_state p) = NotStarted")
    case True
    then show ?thesis using assms(1) by (simp add: state_inv_def)
  next
    case False
    then show ?thesis using ensure_closes [OF assms(1) False that] assms(1) by (simp add: state_inv_def)
  qed
  then have "state_inv (patch_state p')" "mode (patch_state p') = EndedPatch" "hs = hunks (patch_state p')"
    using assms process_line_inv [of n _ "patch_state p"]
    by (auto simp: patch_finish_def Let_def n_def bind_res_def split: if_splits sum.splits)
  then show ?thesis by (simp add: state_inv_def)
qed

section \<open>Streaming\<close>

lemma push_delta_append:
  "push_delta p (d @ e) =
     (case push_delta p d of (p', Inl err) \<Rightarrow> (p', Inl err) | (p', Inr _) \<Rightarrow> push_delta p' e)"
  by (induction p d rule: push_delta.induct) (auto split: prod.split sum.split)

text \<open>Deltas pushed one by one, up to the first error.\<close>

fun push_deltas :: "streaming_patch_parser \<Rightarrow> rstring list \<Rightarrow>
    streaming_patch_parser \<times> (parse_error + hunk list)" where
  "push_deltas p [] = (p, Inr (hunks (patch_state p)))"
| "push_deltas p (d # ds) =
     (case push_delta p d of (p', Inl err) \<Rightarrow> (p', Inl err) | (p', Inr _) \<Rightarrow> push_deltas p' ds)"

lemma push_deltas_concat: "push_deltas p ds = push_delta p (concat ds)"
  by (induction ds arbitrary: p) (auto simp: push_delta_append split: prod.split sum.split)

text \<open>Only the last hunk of the list changes.\<close>

lemma handle_butlast:
  "handle_hunk_headers_and_end_patch n l st = Inr (handled, st') \<Longrightarrow>
     prefix (butlast (hunks st)) (butlast (hunks st')) \<and> (\<not> handled \<longrightarrow> st' = st)"
  by (auto simp: handle_hunk_headers_and_end_patch_def result_iff Let_def
      split: bool.splits option.splits if_splits)
    (metis prefixI append_butlast_last_id prefix_order.refl butlast.simps(1))+

lemma process_line_butlast:
  assumes "process_line n line st = Inr st'"
  shows "prefix (butlast (hunks st)) (butlast (hunks st'))"
proof -
  have update: "prefix (butlast (hunks st)) (butlast (hunks st''))"
    if "process_update_hunk n k line l path mp chunks st = Inr st''" for k l path mp chunks st''
    using that
    by (auto simp: process_update_hunk_def set_last_hunk_def result_iff
        split: bool.splits option.splits if_splits)
  show ?thesis
    using assms update
    by (auto simp: process_line_def Let_def result_iff dest!: handle_butlast
        split: streaming_parser_mode.splits if_splits option.splits hunk.splits)
qed

lemma push_delta_butlast:
  "push_delta p d = (p', Inr hs) \<Longrightarrow>
     hs = hunks (patch_state p') \<and> prefix (butlast (hunks (patch_state p))) (butlast hs)"
proof (induction p d rule: push_delta.induct)
  case (2 p ch delta)
  obtain p1 where 1: "push_char p ch = (p1, Inr ())" and rest: "push_delta p1 delta = (p', Inr hs)"
    using "2.prems" by (auto split: prod.splits sum.splits)
  have "prefix (butlast (hunks (patch_state p))) (butlast (hunks (patch_state p1)))"
    using 1 process_line_butlast by (auto simp: push_char_def Let_def split: if_splits sum.splits)
  moreover have "hs = hunks (patch_state p') \<and> prefix (butlast (hunks (patch_state p1))) (butlast hs)"
    using "2.IH" [OF 1 [symmetric] refl rest] .
  ultimately show ?case using prefix_order.trans by blast
qed simp

section \<open>Lines\<close>

fun run_lines :: "nat \<Rightarrow> streaming_parser_state \<Rightarrow> rstring list \<Rightarrow> parse_error + streaming_parser_state" where
  "run_lines n st [] = Inr st"
| "run_lines n st (l # ls) = bind_res (process_line (n + 1) l st) (\<lambda>st. run_lines (n + 1) st ls)"

lemma run_lines_append:
  "run_lines n st (ls @ ls') = bind_res (run_lines n st ls) (\<lambda>st. run_lines (n + length ls) st ls')"
proof (induction ls arbitrary: n st)
  case (Cons l ls)
  then show ?case by (cases "process_line (n + 1) l st") simp_all
qed simp

definition plain_line :: "rstring \<Rightarrow> bool" where
  "plain_line l \<longleftrightarrow> newline \<notin> set l \<and> \<not> suffix [carriage_return] l"

lemma push_delta_no_newline:
  "newline \<notin> set u \<Longrightarrow>
     push_delta p u = (p\<lparr>patch_line_buffer := patch_line_buffer p @ u\<rparr>, Inr (hunks (patch_state p)))"
  by (induction u arbitrary: p) (simp_all add: push_char_def)

lemma push_delta_line:
  assumes "plain_line u" and "process_line (n + 1) u st = Inr st'"
  shows "push_delta \<lparr>patch_line_buffer = [], patch_state = st, line_number = n\<rparr> (u @ newline # r) =
    push_delta \<lparr>patch_line_buffer = [], patch_state = st', line_number = n + 1\<rparr> r"
  using assms
  by (simp add: push_delta_append push_delta_no_newline plain_line_def push_char_def Let_def strip_cr_def
      strip_suffix_def)

lemma push_delta_lines:
  assumes "\<forall>l \<in> set ls. plain_line l" and "run_lines n st ls = Inr st'"
  shows "push_delta \<lparr>patch_line_buffer = [], patch_state = st, line_number = n\<rparr>
      (concat (map (\<lambda>l. l @ [newline]) ls) @ r) =
    push_delta \<lparr>patch_line_buffer = [], patch_state = st', line_number = n + length ls\<rparr> r"
  using assms
proof (induction ls arbitrary: n st)
  case (Cons l ls)
  then obtain st1 where "process_line (n + 1) l st = Inr st1" "run_lines (n + 1) st1 ls = Inr st'"
    by (auto simp: result_iff)
  with Cons push_delta_line [of l n st st1] show ?case by simp
qed simp

lemma join_lines: "ls \<noteq> [] \<Longrightarrow> join [c] ls = concat (map (\<lambda>l. l @ [c]) (butlast ls)) @ last ls"
  by (induction "[c]" ls rule: join.induct) simp_all

lemma lines_join:
  assumes "ls \<noteq> []" and "\<forall>l \<in> set ls. plain_line l" and "last ls \<noteq> []"
  shows "lines (join [newline] ls) = ls"
  using assms
proof (induction ls rule: induct_list012)
  case (2 l)
  then show ?case
    by (simp add: lines_def plain_line_def split_inclusive_no_sep strip_line_ending_def strip_suffix_def)
       (auto simp: suffix_def)
next
  case (3 l m ls)
  then have "lines (join [newline] (m # ls)) = m # ls" by simp
  moreover have "newline \<notin> set l" "strip_line_ending (l @ [newline]) = l"
    using "3.prems"(2) by (simp_all add: plain_line_def strip_line_ending_def strip_suffix_def)
  ultimately show ?case by (simp add: lines_def split_inclusive_line)
qed simp

end
