(* ===== verification/Patch_Grammar.thy ===== *)
theory Patch_Grammar
  imports Patch_Parser
begin

text \<open>
  The patch grammar as abstract syntax, its concrete text, and the hunks it denotes; the properties
  of the patch parser: it accepts the whole grammar with the intended meaning, everything it accepts
  is well formed, and streaming does not depend on how the text arrives.
\<close>

section \<open>Abstract syntax\<close>

datatype diff_line = Context rstring | Added rstring | Removed rstring

datatype chunk_spec = ChunkSpec "rstring option" "diff_line list" bool

datatype hunk_spec =
    AddSpec path "rstring list"
  | DeleteSpec path
  | UpdateSpec path "path option" "chunk_spec list"

text \<open>The lines of the concrete syntax.\<close>

fun diff_text :: "diff_line \<Rightarrow> rstring" where
  "diff_text (Context l) = lit '' '' @ l"
| "diff_text (Added l) = lit ''+'' @ l"
| "diff_text (Removed l) = lit ''-'' @ l"

fun context_text :: "rstring option \<Rightarrow> rstring" where
  "context_text None = EMPTY_CHANGE_CONTEXT_MARKER"
| "context_text (Some c) = CHANGE_CONTEXT_MARKER @ c"

fun chunk_lines :: "chunk_spec \<Rightarrow> rstring list" where
  "chunk_lines (ChunkSpec ctx ds eof) =
     context_text ctx # map diff_text ds @ (if eof then [EOF_MARKER] else [])"

fun move_lines :: "path option \<Rightarrow> rstring list" where
  "move_lines None = []"
| "move_lines (Some m) = [MOVE_TO_MARKER @ m]"

fun hunk_lines :: "hunk_spec \<Rightarrow> rstring list" where
  "hunk_lines (AddSpec p ls) = (ADD_FILE_MARKER @ p) # map (\<lambda>l. diff_text (Added l)) ls"
| "hunk_lines (DeleteSpec p) = [DELETE_FILE_MARKER @ p]"
| "hunk_lines (UpdateSpec p m cs) =
     (UPDATE_FILE_MARKER @ p) # move_lines m @ concat (map chunk_lines cs)"

fun environment_lines :: "rstring option \<Rightarrow> rstring list" where
  "environment_lines None = []"
| "environment_lines (Some e) = [ENVIRONMENT_ID_MARKER @ lit '' '' @ e]"

definition patch_text :: "rstring option \<Rightarrow> hunk_spec list \<Rightarrow> rstring" where
  "patch_text env hs = join [newline]
     ([BEGIN_PATCH_MARKER] @ environment_lines env @ concat (map hunk_lines hs) @ [END_PATCH_MARKER])"

text \<open>The hunks.\<close>

fun old_line :: "diff_line \<Rightarrow> rstring list" where
  "old_line (Context l) = [l]"
| "old_line (Added l) = []"
| "old_line (Removed l) = [l]"

fun new_line :: "diff_line \<Rightarrow> rstring list" where
  "new_line (Context l) = [l]"
| "new_line (Added l) = [l]"
| "new_line (Removed l) = []"

fun denote_chunk :: "chunk_spec \<Rightarrow> update_file_chunk" where
  "denote_chunk (ChunkSpec ctx ds eof) =
     \<lparr>change_context = ctx, old_lines = concat (map old_line ds), new_lines = concat (map new_line ds),
      is_end_of_file = eof\<rparr>"

fun denote :: "hunk_spec \<Rightarrow> hunk" where
  "denote (AddSpec p ls) = AddFile p (concat (map (\<lambda>l. l @ [newline]) ls))"
| "denote (DeleteSpec p) = DeleteFile p"
| "denote (UpdateSpec p m cs) = UpdateFile p m (map denote_chunk cs)"

text \<open>Well-formed syntax: lines without line breaks; names without line breaks and trailing white
  space; every chunk has a line, every update a chunk.\<close>

definition name_ok :: "rstring \<Rightarrow> bool" where
  "name_ok s \<longleftrightarrow> s \<noteq> [] \<and> newline \<notin> set s \<and> \<not> is_whitespace (last s)"

fun diff_line_ok :: "diff_line \<Rightarrow> bool" where
  "diff_line_ok (Context l) = plain_line l"
| "diff_line_ok (Added l) = plain_line l"
| "diff_line_ok (Removed l) = plain_line l"

fun chunk_ok :: "chunk_spec \<Rightarrow> bool" where
  "chunk_ok (ChunkSpec ctx ds eof) \<longleftrightarrow> pred_option name_ok ctx \<and> ds \<noteq> [] \<and> (\<forall>d \<in> set ds. diff_line_ok d)"

fun hunk_ok :: "hunk_spec \<Rightarrow> bool" where
  "hunk_ok (AddSpec p ls) \<longleftrightarrow> name_ok p \<and> (\<forall>l \<in> set ls. plain_line l)"
| "hunk_ok (DeleteSpec p) \<longleftrightarrow> name_ok p"
| "hunk_ok (UpdateSpec p m cs) \<longleftrightarrow> name_ok p \<and> pred_option name_ok m \<and> cs \<noteq> [] \<and> (\<forall>c \<in> set cs. chunk_ok c)"

definition environment_ok :: "rstring \<Rightarrow> bool" where
  "environment_ok e \<longleftrightarrow> name_ok e \<and> \<not> is_whitespace (hd e)"

section \<open>Trimming of the concrete syntax\<close>

lemma trim_end_ends:
  "s \<noteq> [] \<Longrightarrow> \<not> is_whitespace (last s) \<Longrightarrow> trim_end (m @ s) = m @ s"
  by (cases s rule: rev_cases) (simp_all add: trim_end_def)

lemma ws_chars [simp]:
  "\<not> is_whitespace 42" "\<not> is_whitespace 43" "\<not> is_whitespace 45" "\<not> is_whitespace 64" "is_whitespace 32"
  by (simp_all add: is_whitespace_def)

lemmas markers = BEGIN_PATCH_MARKER_def END_PATCH_MARKER_def ADD_FILE_MARKER_def DELETE_FILE_MARKER_def
  UPDATE_FILE_MARKER_def MOVE_TO_MARKER_def EOF_MARKER_def CHANGE_CONTEXT_MARKER_def
  EMPTY_CHANGE_CONTEXT_MARKER_def ENVIRONMENT_ID_MARKER_def

lemma name_trim_end: "name_ok s \<Longrightarrow> trim_end (m @ s) = m @ s"
  by (simp add: name_ok_def trim_end_ends)

lemma name_trim:
  assumes "name_ok s" and "\<not> is_whitespace (hd m)" and "m \<noteq> []"
  shows "trim (m @ s) = m @ s"
  using assms name_trim_end [OF assms(1), of m]
  by (cases m) (simp_all add: trim_eq trim_start_Cons)

section \<open>Header lines\<close>

definition ready :: "streaming_parser_state \<Rightarrow> bool" where
  "ready st \<longleftrightarrow> mode st \<noteq> NotStarted \<and> mode st \<noteq> EndedPatch \<and>
     (\<forall>n l. ensure_update_hunk_is_not_empty n st l = Inr ())"

lemma process_header:
  assumes "ready st" and "trim l = l" and "trim_end l = l"
    and "handle_hunk_headers_and_end_patch n l st = Inr (True, st')"
  shows "process_line n l st = Inr st'"
  using assms by (cases "mode st") (simp_all add: process_line_def Let_def ready_def)

lemma handle_headers:
  assumes "ready st"
  shows "handle_hunk_headers_and_end_patch n (ADD_FILE_MARKER @ p) st =
      Inr (True, st\<lparr>hunks := hunks st @ [AddFile p []], mode := ModeAddFile\<rparr>)"
    and "handle_hunk_headers_and_end_patch n (DELETE_FILE_MARKER @ p) st =
      Inr (True, st\<lparr>hunks := hunks st @ [DeleteFile p], mode := ModeDeleteFile\<rparr>)"
    and "handle_hunk_headers_and_end_patch n (UPDATE_FILE_MARKER @ p) st =
      Inr (True, st\<lparr>hunks := hunks st @ [UpdateFile p None []], mode := ModeUpdateFile n\<rparr>)"
    and "handle_hunk_headers_and_end_patch n END_PATCH_MARKER st = Inr (True, st\<lparr>mode := EndedPatch\<rparr>)"
  using assms
  by (auto simp: handle_hunk_headers_and_end_patch_def ready_def markers strip_prefix_def split: bool.split)

lemma marker_trim:
  assumes "name_ok p"
  shows "trim (ADD_FILE_MARKER @ p) = ADD_FILE_MARKER @ p" "trim (DELETE_FILE_MARKER @ p) = DELETE_FILE_MARKER @ p"
    "trim (UPDATE_FILE_MARKER @ p) = UPDATE_FILE_MARKER @ p"
  by (rule name_trim [OF assms]; simp add: markers)+

lemma process_headers:
  assumes "ready st" and "name_ok p"
  shows "process_line n (ADD_FILE_MARKER @ p) st =
      Inr (st\<lparr>hunks := hunks st @ [AddFile p []], mode := ModeAddFile\<rparr>)"
    and "process_line n (DELETE_FILE_MARKER @ p) st =
      Inr (st\<lparr>hunks := hunks st @ [DeleteFile p], mode := ModeDeleteFile\<rparr>)"
    and "process_line n (UPDATE_FILE_MARKER @ p) st =
      Inr (st\<lparr>hunks := hunks st @ [UpdateFile p None []], mode := ModeUpdateFile n\<rparr>)"
  by (simp_all add: process_header [OF assms(1)] handle_headers [OF assms(1)] marker_trim [OF assms(2)]
      name_trim_end [OF assms(2)])

lemma handle_no_header:
  "t = [] \<or> hd t \<noteq> 42 \<Longrightarrow> handle_hunk_headers_and_end_patch n t st = Inr (False, st)"
  by (cases t) (auto simp: handle_hunk_headers_and_end_patch_def markers strip_prefix_def split: bool.split)

lemma ready_states:
  "ready \<lparr>mode = StartedPatch, hunks = [], environment_id = env\<rparr>"
  "ready \<lparr>mode = ModeAddFile, hunks = hs @ [AddFile p c], environment_id = env\<rparr>"
  "ready \<lparr>mode = ModeDeleteFile, hunks = hs @ [DeleteFile p], environment_id = env\<rparr>"
  "cs \<noteq> [] \<Longrightarrow> \<not> has_no_lines (last cs) \<Longrightarrow>
     ready \<lparr>mode = ModeUpdateFile k, hunks = hs @ [UpdateFile p m cs], environment_id = env\<rparr>"
  by (auto simp: ready_def ensure_update_hunk_is_not_empty_def last_is_iff)

section \<open>Hunk bodies\<close>

lemma process_added_line:
  "process_line n (lit ''+'' @ l) \<lparr>mode = ModeAddFile, hunks = hs @ [AddFile p c], environment_id = env\<rparr> =
     Inr \<lparr>mode = ModeAddFile, hunks = hs @ [AddFile p (c @ l @ [newline])], environment_id = env\<rparr>"
  by (simp add: process_line_def Let_def trim_eq trim_start_Cons trim_end_Cons handle_no_header
      strip_prefix_def)

lemma run_added_lines:
  "run_lines n \<lparr>mode = ModeAddFile, hunks = hs @ [AddFile p c], environment_id = env\<rparr> (map (\<lambda>l. diff_text (Added l)) ls) =
     Inr \<lparr>mode = ModeAddFile, hunks = hs @ [AddFile p (c @ concat (map (\<lambda>l. l @ [newline]) ls))],
       environment_id = env\<rparr>"
proof (induction ls arbitrary: n c)
  case (Cons l ls)
  then show ?case using process_added_line [of "Suc n" l hs p c env] by simp
qed simp

text \<open>One line of an update hunk that is not a header.\<close>

abbreviation updating :: "nat \<Rightarrow> hunk list \<Rightarrow> path \<Rightarrow> path option \<Rightarrow> update_file_chunk list \<Rightarrow>
    rstring option \<Rightarrow> streaming_parser_state" where
  "updating k hs p m cs env \<equiv>
     \<lparr>mode = ModeUpdateFile k, hunks = hs @ [UpdateFile p m cs], environment_id = env\<rparr>"

lemma process_updating:
  assumes "handle_hunk_headers_and_end_patch n (trim_end l) (updating k hs p m cs env) =
      Inr (False, updating k hs p m cs env)"
  shows "process_line n l (updating k hs p m cs env) =
    process_update_hunk n k l (trim_end l) p m cs (updating k hs p m cs env)"
  using assms by (simp add: process_line_def Let_def)

lemma set_last_updating:
  "set_last_hunk (UpdateFile p m' cs') k (updating k hs p m cs env) = updating k hs p m' cs' env"
  by (simp add: set_last_hunk_def)

lemma process_move:
  assumes "name_ok t"
  shows "process_line n (MOVE_TO_MARKER @ t) (updating k hs p None [] env) = Inr (updating k hs p (Some t) [] env)"
proof -
  have te: "trim_end (MOVE_TO_MARKER @ t) = MOVE_TO_MARKER @ t" using assms by (rule name_trim_end)
  have "handle_hunk_headers_and_end_patch n (MOVE_TO_MARKER @ t) st = Inr (False, st)" for st
    by (auto simp: handle_hunk_headers_and_end_patch_def markers strip_prefix_def split: bool.split)
  then show ?thesis
    by (simp add: process_updating te process_update_hunk_def strip_prefix_def set_last_updating)
qed

lemma process_context:
  assumes "pred_option name_ok ctx" and "cs = [] \<or> \<not> has_no_lines (last cs)"
  shows "process_line n (context_text ctx) (updating k hs p m cs env) =
    Inr (updating k hs p m (cs @ [empty_chunk ctx]) env)"
proof -
  have te: "trim_end (context_text ctx) = context_text ctx"
  proof (cases ctx)
    case None
    then show ?thesis by (simp add: markers trim_end_def)
  next
    case (Some c)
    then show ?thesis using assms(1) by (simp add: name_trim_end)
  qed
  have at: "context_text ctx \<noteq> []" "hd (context_text ctx) = 64" "is_context_marker (context_text ctx)"
    by (cases ctx; simp add: markers is_context_marker_def)+
  let ?st = "updating k hs p m cs env"
  have "process_line n (context_text ctx) ?st =
      process_update_hunk n k (context_text ctx) (context_text ctx) p m cs ?st"
    using process_updating [of n "context_text ctx" k hs p m cs env] handle_no_header at(2)
    by (simp only: te) simp
  also have "\<dots> = Inr (updating k hs p m (cs @ [empty_chunk ctx]) env)"
  proof -
    have "strip_prefix MOVE_TO_MARKER (context_text ctx) = None"
      by (cases ctx) (simp_all add: markers strip_prefix_def)
    moreover have "CHANGE_CONTEXT_MARKER @ c \<noteq> EMPTY_CHANGE_CONTEXT_MARKER" "CHANGE_CONTEXT_MARKER @ c \<noteq> EOF_MARKER"
      for c by (simp_all add: markers)
    moreover have "strip_prefix CHANGE_CONTEXT_MARKER (CHANGE_CONTEXT_MARKER @ c) = Some c" for c
      by (simp add: strip_prefix_def)
    moreover have "\<not> last_is has_no_lines cs" using assms(2) by (auto simp: last_is_iff)
    ultimately show ?thesis
      using at by (cases ctx) (simp_all add: process_update_hunk_def set_last_updating split: bool.split)
  qed
  finally show ?thesis .
qed

fun diff_action :: "diff_line \<Rightarrow> update_file_chunk \<Rightarrow> update_file_chunk" where
  "diff_action (Context l) c = add_new l (add_old l c)"
| "diff_action (Added l) c = add_new l c"
| "diff_action (Removed l) c = add_old l c"

lemma process_diff:
  assumes "\<not> is_end_of_file c"
  shows "process_line n (diff_text d) (updating k hs p m (cs @ [c]) env) =
    Inr (updating k hs p m (cs @ [diff_action d c]) env)"
proof -
  have te: "trim_end (diff_text d) = [] \<or> hd (trim_end (diff_text d)) \<in> {32, 43, 45}"
    by (cases d) (simp_all add: trim_end_Cons trim_end_ws)
  then have "trim_end (diff_text d) = [] \<or> hd (trim_end (diff_text d)) \<noteq> 42" by auto
  note handle = handle_no_header [OF this]
  have other: "\<not> is_context_marker (trim_end (diff_text d))" "trim_end (diff_text d) \<noteq> EOF_MARKER"
    "trim_end (diff_text d) \<noteq> EMPTY_CHANGE_CONTEXT_MARKER"
    "strip_prefix CHANGE_CONTEXT_MARKER (trim_end (diff_text d)) = None"
    using te by (cases "trim_end (diff_text d)"; auto simp: is_context_marker_def markers strip_prefix_def)+
  have "process_diff_line n (diff_text d) (cs @ [c]) = Inr (cs @ [diff_action d c])"
    by (cases d) (simp_all add: process_diff_line_def push_diff_line_def on_last_chunk_def strip_prefix_def)
  then show ?thesis
    using assms other
    by (simp add: process_updating handle process_update_hunk_def set_last_updating)
qed

lemma process_eof:
  assumes "\<not> is_end_of_file c" and "\<not> has_no_lines c"
  shows "process_line n EOF_MARKER (updating k hs p m (cs @ [c]) env) =
    Inr (updating k hs p m (cs @ [c\<lparr>is_end_of_file := True\<rparr>]) env)"
proof -
  have te: "trim_end EOF_MARKER = EOF_MARKER" by (simp add: markers trim_end_def is_whitespace_def)
  have "handle_hunk_headers_and_end_patch n EOF_MARKER st = Inr (False, st)" for st
    by (auto simp: handle_hunk_headers_and_end_patch_def markers strip_prefix_def split: bool.split)
  moreover have "EOF_MARKER \<noteq> []" "\<not> is_context_marker EOF_MARKER" "EOF_MARKER \<noteq> EMPTY_CHANGE_CONTEXT_MARKER"
    "strip_prefix CHANGE_CONTEXT_MARKER EOF_MARKER = None"
    by (simp_all add: markers is_context_marker_def strip_prefix_def)
  ultimately show ?thesis
    using assms
    by (simp add: process_updating te process_update_hunk_def set_last_updating on_last_chunk_def)
qed

lemma diff_action_sel [simp]:
  "change_context (diff_action d c) = change_context c" "is_end_of_file (diff_action d c) = is_end_of_file c"
  "old_lines (diff_action d c) = old_lines c @ old_line d" "new_lines (diff_action d c) = new_lines c @ new_line d"
  by (cases d; simp add: add_new_def add_old_def)+

lemma run_diffs:
  "\<not> is_end_of_file c \<Longrightarrow>
     run_lines n (updating k hs p m (cs @ [c]) env) (map diff_text ds) =
     Inr (updating k hs p m (cs @ [c\<lparr>old_lines := old_lines c @ concat (map old_line ds),
       new_lines := new_lines c @ concat (map new_line ds)\<rparr>]) env)"
proof (induction ds arbitrary: n c)
  case (Cons d ds)
  then show ?case
    by (simp add: process_diff)
qed simp

lemma old_new_line: "old_line d \<noteq> [] \<or> new_line d \<noteq> []"
  by (cases d) simp_all

lemma denote_chunk_lines: "chunk_ok c \<Longrightarrow> \<not> has_no_lines (denote_chunk c)"
proof (cases c)
  case (ChunkSpec ctx ds eof)
  moreover assume "chunk_ok c"
  ultimately obtain d ds' where "ds = d # ds'" by (cases ds) auto
  then show ?thesis using old_new_line [of d] by (auto simp: ChunkSpec has_no_lines_def)
qed

lemma run_chunk:
  assumes "chunk_ok c" and "cs = [] \<or> \<not> has_no_lines (last cs)"
  shows "run_lines n (updating k hs p m cs env) (chunk_lines c) =
    Inr (updating k hs p m (cs @ [denote_chunk c]) env)"
proof -
  obtain ctx ds eof where c: "c = ChunkSpec ctx ds eof" by (cases c)
  let ?c = "\<lparr>change_context = ctx, old_lines = concat (map old_line ds), new_lines = concat (map new_line ds),
    is_end_of_file = False\<rparr>"
  have "run_lines n (updating k hs p m cs env) (context_text ctx # map diff_text ds) =
      Inr (updating k hs p m (cs @ [?c]) env)"
    using assms by (simp add: c process_context run_diffs empty_chunk_def)
  moreover have "\<not> has_no_lines ?c"
    using denote_chunk_lines [OF assms(1)] by (simp add: c has_no_lines_def)
  then have "run_lines n' (updating k hs p m (cs @ [?c]) env) (if eof then [EOF_MARKER] else []) =
      Inr (updating k hs p m (cs @ [denote_chunk c]) env)" for n'
    by (simp add: process_eof c)
  ultimately show ?thesis
    using run_lines_append [of n _ "context_text ctx # map diff_text ds"] by (simp add: c)
qed

lemma run_chunks:
  assumes "\<forall>c \<in> set cs. chunk_ok c" and "acc = [] \<or> \<not> has_no_lines (last acc)"
  shows "run_lines n (updating k hs p m acc env) (concat (map chunk_lines cs)) =
    Inr (updating k hs p m (acc @ map denote_chunk cs) env)"
  using assms
proof (induction cs arbitrary: n acc)
  case (Cons c cs)
  then show ?case by (simp add: run_lines_append run_chunk denote_chunk_lines)
qed simp

lemma run_hunk:
  assumes "ready st" and "hunk_ok h"
  shows "\<exists>st'. run_lines n st (hunk_lines h) = Inr st' \<and> ready st' \<and>
    hunks st' = hunks st @ [denote h] \<and> environment_id st' = environment_id st"
proof -
  obtain md hs env where st: "st = \<lparr>mode = md, hunks = hs, environment_id = env\<rparr>" by (cases st)
  note header = process_headers [OF assms(1)]
  show ?thesis
  proof (cases h)
    case (AddSpec p ls)
    then show ?thesis
      using assms(2) header(1) [of p "n + 1"] run_added_lines [of "n + 1" hs p "[]" env ls]
        ready_states(2) [of hs p _ env]
      by (simp add: st)
  next
    case (DeleteSpec p)
    then show ?thesis using assms(2) header(2) [of p "n + 1"] ready_states(3) [of hs p env] by (simp add: st)
  next
    case (UpdateSpec p m cs)
    then have ok: "name_ok p" "pred_option name_ok m" "cs \<noteq> []" "\<forall>c \<in> set cs. chunk_ok c"
      using assms(2) by simp_all
    have move: "run_lines n' (updating k hs p None [] env) (move_lines m) = Inr (updating k hs p m [] env)" for n' k
      using ok(2) by (cases m) (simp_all add: process_move)
    let ?st = "updating (n + 1) hs p m (map denote_chunk cs) env"
    have "run_lines n st (hunk_lines h) = Inr ?st"
      using header(3) [OF ok(1), of "n + 1"] ok(4)
      by (simp add: UpdateSpec st run_lines_append move run_chunks)
    moreover have "ready ?st"
      using ok(3,4) denote_chunk_lines by (intro ready_states(4)) (simp_all add: last_map)
    ultimately show ?thesis by (simp add: UpdateSpec st)
  qed
qed

lemma run_hunks:
  assumes "ready st" and "\<forall>h \<in> set hs. hunk_ok h"
  shows "\<exists>st'. run_lines n st (concat (map hunk_lines hs)) = Inr st' \<and> ready st' \<and>
    hunks st' = hunks st @ map denote hs \<and> environment_id st' = environment_id st"
  using assms
proof (induction hs arbitrary: n st)
  case (Cons h hs)
  from run_hunk [of st h n] Cons.prems obtain st1 where 1: "run_lines n st (hunk_lines h) = Inr st1" "ready st1"
    "hunks st1 = hunks st @ [denote h]" "environment_id st1 = environment_id st" by auto
  from Cons.IH [OF 1(2), of "n + length (hunk_lines h)"] Cons.prems(2) 1 show ?case
    by (auto simp: run_lines_append)
qed simp

section \<open>Whole patches\<close>

definition patch_lines :: "rstring option \<Rightarrow> hunk_spec list \<Rightarrow> rstring list" where
  "patch_lines env hs = [BEGIN_PATCH_MARKER] @ environment_lines env @ concat (map hunk_lines hs)"

lemma patch_text_lines: "patch_text env hs = join [newline] (patch_lines env hs @ [END_PATCH_MARKER])"
  by (simp add: patch_text_def patch_lines_def)

lemma name_plain:
  assumes "name_ok s"
  shows "plain_line (m @ s) \<longleftrightarrow> newline \<notin> set m"
proof -
  have "is_whitespace carriage_return" by (simp add: is_whitespace_def carriage_return_def)
  then have "last s \<noteq> carriage_return" using assms by (auto simp: name_ok_def)
  then show ?thesis using assms by (auto simp: name_ok_def plain_line_def suffix_last)
qed

lemma plain_Cons: "plain_line l \<Longrightarrow> c \<noteq> newline \<Longrightarrow> c \<noteq> carriage_return \<Longrightarrow> plain_line (c # l)"
  by (auto simp: plain_line_def suffix_last)

lemma plain_markers:
  "plain_line BEGIN_PATCH_MARKER" "plain_line END_PATCH_MARKER" "plain_line EOF_MARKER"
  "plain_line EMPTY_CHANGE_CONTEXT_MARKER" "newline \<notin> set ADD_FILE_MARKER" "newline \<notin> set DELETE_FILE_MARKER"
  "newline \<notin> set UPDATE_FILE_MARKER" "newline \<notin> set MOVE_TO_MARKER" "newline \<notin> set CHANGE_CONTEXT_MARKER"
  "newline \<notin> set ENVIRONMENT_ID_MARKER"
  by (simp_all add: markers plain_line_def newline_def carriage_return_def suffix_def)

lemma plain_diff: "diff_line_ok d \<Longrightarrow> plain_line (diff_text d)"
  by (cases d) (simp_all add: plain_Cons newline_def carriage_return_def)

lemma plain_chunk: "chunk_ok c \<Longrightarrow> \<forall>l \<in> set (chunk_lines c). plain_line l"
proof (cases c)
  case (ChunkSpec ctx ds eof)
  assume "chunk_ok c"
  then show ?thesis
    by (cases ctx) (auto simp: ChunkSpec plain_markers plain_diff name_plain)
qed

lemma plain_hunk: "hunk_ok h \<Longrightarrow> \<forall>l \<in> set (hunk_lines h). plain_line l"
proof (cases h)
  case (UpdateSpec p m cs)
  assume "hunk_ok h"
  then show ?thesis
    using plain_chunk by (cases m) (auto simp: UpdateSpec plain_markers name_plain)
qed (use plain_diff [of "Added _"] in \<open>auto simp: plain_markers name_plain\<close>)

lemma plain_environment:
  assumes "environment_ok e"
  shows "plain_line (ENVIRONMENT_ID_MARKER @ 32 # e)"
proof -
  have "newline \<notin> set (ENVIRONMENT_ID_MARKER @ [32])" using plain_markers(10) by (simp add: newline_def)
  then show ?thesis
    using assms name_plain [of e "ENVIRONMENT_ID_MARKER @ [32]"] by (simp add: environment_ok_def)
qed

lemma run_patch_lines:
  assumes "pred_option environment_ok env" and "\<forall>h \<in> set hs. hunk_ok h"
  shows "\<exists>st. run_lines 0 (patch_state patch_parser_default) (patch_lines env hs) = Inr st \<and> ready st \<and>
    hunks st = map denote hs \<and> environment_id st = env"
proof -
  let ?init = "\<lparr>mode = StartedPatch, hunks = [], environment_id = None\<rparr>"
  let ?st = "\<lparr>mode = StartedPatch, hunks = [], environment_id = env\<rparr>"
  have "trim BEGIN_PATCH_MARKER = BEGIN_PATCH_MARKER"
    by (simp add: markers trim_def trim_start_def trim_end_def is_whitespace_def)
  then have start: "process_line 1 BEGIN_PATCH_MARKER (patch_state patch_parser_default) = Inr ?init"
    by (simp add: process_line_def patch_parser_default_def)
  have env: "run_lines 1 ?init (environment_lines env) = Inr ?st"
  proof (cases env)
    case (Some e)
    then have e: "name_ok e" "\<not> is_whitespace (hd e)" "e \<noteq> []"
      using assms(1) by (simp_all add: environment_ok_def name_ok_def)
    have "trim (ENVIRONMENT_ID_MARKER @ lit '' '' @ e) = ENVIRONMENT_ID_MARKER @ lit '' '' @ e"
      using name_trim [OF e(1), of "ENVIRONMENT_ID_MARKER @ lit '' ''"] by (simp add: markers)
    moreover have "trim (lit '' '' @ e) = e"
      using e name_trim_end [OF e(1), of "[]"] by (cases e) (simp_all add: trim_def trim_start_def)
    ultimately show ?thesis
      using e(3) by (simp add: Some process_line_def Let_def handle_hunk_headers_and_end_patch_def strip_prefix_def)
  qed simp
  obtain st where "run_lines (1 + length (environment_lines env)) ?st (concat (map hunk_lines hs)) = Inr st"
    "ready st" "hunks st = map denote hs" "environment_id st = env"
    using run_hunks [OF ready_states(1) assms(2)] by fastforce
  then show ?thesis using start env by (simp add: patch_lines_def run_lines_append)
qed

lemma parse_lines:
  assumes "\<forall>l \<in> set ls. plain_line l" and "run_lines 0 (patch_state patch_parser_default) ls = Inr st"
    and "ready st"
  shows "\<exists>p q. push_delta patch_parser_default (join [newline] (ls @ [END_PATCH_MARKER])) = (p, Inr (hunks st)) \<and>
    patch_finish p = (q, Inr (hunks st)) \<and> environment_id (patch_state q) = environment_id st"
proof -
  have "patch_parser_default = \<lparr>patch_line_buffer = [], patch_state = patch_state patch_parser_default, line_number = 0\<rparr>"
    by (simp add: patch_parser_default_def)
  then have "push_delta patch_parser_default (join [newline] (ls @ [END_PATCH_MARKER])) =
      (\<lparr>patch_line_buffer = END_PATCH_MARKER, patch_state = st, line_number = length ls\<rparr>, Inr (hunks st))"
    using push_delta_lines [OF assms(1,2), of END_PATCH_MARKER] plain_markers(2)
    by (simp add: join_lines push_delta_no_newline plain_line_def)
  moreover have "trim END_PATCH_MARKER = END_PATCH_MARKER" "END_PATCH_MARKER \<noteq> []"
    by (simp_all add: markers trim_def trim_start_def trim_end_def is_whitespace_def)
  ultimately show ?thesis using assms(3) by (simp add: patch_finish_def Let_def ready_def)
qed

lemma boundaries:
  "check_patch_boundaries_strict (patch_lines env hs @ [END_PATCH_MARKER]) = Inr (patch_lines env hs @ [END_PATCH_MARKER])"
proof -
  have "trim BEGIN_PATCH_MARKER = BEGIN_PATCH_MARKER" "trim END_PATCH_MARKER = END_PATCH_MARKER"
    by (simp_all add: markers trim_def trim_start_def trim_end_def is_whitespace_def)
  then have "check_start_and_end_lines_strict (Some BEGIN_PATCH_MARKER) (Some END_PATCH_MARKER) = Inr ()"
    by (simp add: check_start_and_end_lines_strict_def Let_def)
  moreover have "check_patch_boundaries_strict (a # mid @ [b]) =
      bind_res (check_start_and_end_lines_strict (Some a) (Some b)) (\<lambda>_. Inr (a # mid @ [b]))" for a mid b
    by (cases mid) (simp_all add: check_patch_boundaries_strict_def)
  ultimately show ?thesis by (simp add: patch_lines_def flip: append_assoc)
qed

lemma patch_text_trim: "trim (patch_text env hs) = patch_text env hs"
proof -
  obtain u v where "patch_text env hs = BEGIN_PATCH_MARKER @ u" "patch_text env hs = v @ END_PATCH_MARKER"
    by (auto simp: patch_text_lines join_lines patch_lines_def)
  then have "trim_start (patch_text env hs) = patch_text env hs" "trim_end (patch_text env hs) = patch_text env hs"
    by (simp add: markers trim_start_def) (simp add: \<open>_ = v @ _\<close> markers trim_end_def is_whitespace_def)
  then show ?thesis by (simp add: trim_def)
qed

lemma parse_patch_accepts:
  assumes "pred_option environment_ok env" and "\<forall>h \<in> set hs. hunk_ok h"
  shows "parse_patch (patch_text env hs) =
    Inr \<lparr>arg_patch = patch_text env hs, arg_hunks = map denote hs, arg_workdir = None, arg_environment_id = env\<rparr>"
proof -
  have plain: "\<forall>l \<in> set (patch_lines env hs). plain_line l"
    using assms plain_hunk plain_environment by (cases env) (auto simp: patch_lines_def plain_markers)
  have lines: "lines (patch_text env hs) = patch_lines env hs @ [END_PATCH_MARKER]"
    using plain plain_markers(2) by (auto simp: patch_text_lines markers intro!: lines_join)
  obtain st where st: "run_lines 0 (patch_state patch_parser_default) (patch_lines env hs) = Inr st" "ready st"
    "hunks st = map denote hs" "environment_id st = env"
    using run_patch_lines [OF assms] by blast
  from parse_lines [OF plain st(1,2)] show ?thesis
    by (auto simp: parse_patch_def PARSE_IN_STRICT_MODE_def parse_patch_text_def patch_text_trim lines
        check_patch_boundaries_lenient_def boundaries patch_text_lines [symmetric] Let_def st)
qed

section \<open>Properties\<close>

text \<open>C14: \<open>parse_patch\<close> accepts the text of every well-formed abstract patch, with or without an
  environment id, and returns exactly the hunks it denotes: files to add with their contents, files
  to delete, and updates with their moves and chunks, in order.\<close>

theorem parse_patch_complete:
  assumes "pred_option environment_ok env" and "\<forall>h \<in> set hs. hunk_ok h"
  shows "parse_patch (patch_text env hs) =
    Inr \<lparr>arg_patch = patch_text env hs, arg_hunks = map denote hs, arg_workdir = None, arg_environment_id = env\<rparr>"
  using assms by (rule parse_patch_accepts)

theorem parse_patch_complete_witness:
  "parse_patch (patch_text (Some (lit ''dev'')) [AddSpec (lit ''a.txt'') [lit ''x'', []], DeleteSpec (lit ''b''),
      UpdateSpec (lit ''c'') (Some (lit ''d'')) [ChunkSpec (Some (lit ''fn f()'')) [Context (lit ''k''), Removed [], Added (lit ''new'')] True]]) =
   Inr \<lparr>arg_patch = patch_text (Some (lit ''dev'')) [AddSpec (lit ''a.txt'') [lit ''x'', []], DeleteSpec (lit ''b''),
        UpdateSpec (lit ''c'') (Some (lit ''d'')) [ChunkSpec (Some (lit ''fn f()'')) [Context (lit ''k''), Removed [], Added (lit ''new'')] True]],
      arg_hunks = [AddFile (lit ''a.txt'') (lit ''x'' @ [newline, newline]), DeleteFile (lit ''b''),
        UpdateFile (lit ''c'') (Some (lit ''d'')) [\<lparr>change_context = Some (lit ''fn f()''),
          old_lines = [lit ''k'', []], new_lines = [lit ''k'', lit ''new''], is_end_of_file = True\<rparr>]],
      arg_workdir = None, arg_environment_id = Some (lit ''dev'')\<rparr>"
  by (subst parse_patch_complete)
    (simp_all add: environment_ok_def name_ok_def plain_line_def newline_def carriage_return_def
      is_whitespace_def suffix_def)

text \<open>C38: whatever \<open>parse_patch\<close> accepts, in any text, is well formed: no path is empty, every update
  has at least one chunk, every chunk has at least one line, and an environment id is not empty.\<close>

theorem parse_patch_wf:
  assumes "parse_patch t = Inr args"
  shows "(\<forall>h \<in> set (arg_hunks args). wf_hunk h) \<and> arg_environment_id args \<noteq> Some []"
proof -
  obtain d p q where p: "fst (push_delta patch_parser_default d) = p"
    and fin: "patch_finish p = (q, Inr (arg_hunks args))"
    and env: "arg_environment_id args = environment_id (patch_state q)"
    using assms
    by (auto simp: parse_patch_def parse_patch_text_def result_iff Let_def case_prod_beta prod_eq_iff)
  have "state_inv (patch_state patch_parser_default)"
    by (simp add: patch_parser_default_def state_inv_def)
  then have "state_inv (patch_state p)" unfolding p [symmetric] by (rule push_delta_inv)
  from patch_finish_wf [OF this fin] env show ?thesis by (simp add: state_inv_def)
qed

theorem parse_patch_wf_witness:
  "wf_hunk (AddFile (lit ''f'') (lit ''x'' @ [newline]))"
  using parse_patch_wf [of "patch_text None [AddSpec (lit ''f'') [lit ''x'']]"]
    parse_patch_accepts [of None "[AddSpec (lit ''f'') [lit ''x'']]"]
  by (simp add: name_ok_def plain_line_def newline_def carriage_return_def is_whitespace_def suffix_def)



text \<open>While a patch is streamed, only the last reported hunk may still change: the hunks before
  it are the first hunks of every later report.\<close>

theorem streaming_hunks_stable:
  assumes "push_delta p d = (p', Inr hs)" and "push_delta p' e = (p'', Inr hs')"
  shows "prefix (butlast hs) (butlast hs')"
  using push_delta_butlast [OF assms(1)] push_delta_butlast [OF assms(2)] by auto

theorem streaming_hunks_stable_witness:
  "prefix (butlast [DeleteFile (lit ''f''), DeleteFile (lit ''g'')])
     (butlast [DeleteFile (lit ''f''), DeleteFile (lit ''g''), DeleteFile (lit ''h'')])"
proof -
  let ?d = "lit ''*** Begin Patch'' @ [newline] @ lit ''*** Delete File: f'' @ [newline] @
      lit ''*** Delete File: g'' @ [newline]"
  let ?e = "lit ''*** Delete File: h'' @ [newline]"
  let ?p = "fst (push_delta patch_parser_default ?d)"
  have "snd (push_delta patch_parser_default ?d) = Inr [DeleteFile (lit ''f''), DeleteFile (lit ''g'')]"
    by code_simp
  then have 1: "push_delta patch_parser_default ?d = (?p, Inr [DeleteFile (lit ''f''), DeleteFile (lit ''g'')])"
    by (simp only: prod_eq_iff fst_conv snd_conv)
  have "snd (push_delta ?p ?e) = Inr [DeleteFile (lit ''f''), DeleteFile (lit ''g''), DeleteFile (lit ''h'')]"
    by code_simp
  then have 2: "push_delta ?p ?e = (fst (push_delta ?p ?e),
      Inr [DeleteFile (lit ''f''), DeleteFile (lit ''g''), DeleteFile (lit ''h'')])"
    by (simp only: prod_eq_iff fst_conv snd_conv)
  show ?thesis by (rule streaming_hunks_stable [OF 1 2])
qed

end
