(* ===== verification/Patch_Text.thy ===== *)
theory Patch_Text
  imports Patch_Parser "HOL-Library.Multiset"
begin

text \<open>
  Applying update chunks to the text of a file: \<^verbatim>\<open>apply-patch/src/seek_sequence.rs\<close> and
  \<open>compute_replacements\<close>, \<open>apply_replacements\<close> and the text part of
  \<open>derive_new_contents_from_chunks\<close> in \<^verbatim>\<open>apply-patch/src/lib.rs\<close>.  An insertion past the end of a
  vector panics in Rust; it is \<open>None\<close> here and never happens.
\<close>

section \<open>Seeking\<close>

definition normalise_char :: "rchar \<Rightarrow> rchar" where
  "normalise_char c =
     (if c \<in> {8208, 8209, 8210, 8211, 8212, 8213, 8722} then 45
      else if c \<in> {8216, 8217, 8218, 8219} then 39
      else if c \<in> {8220, 8221, 8222, 8223} then 34
      else if c \<in> {160, 8194, 8195, 8196, 8197, 8198, 8199, 8200, 8201, 8202, 8239, 8287, 12288} then 32
      else c)"

definition normalise :: "rstring \<Rightarrow> rstring" where
  "normalise s = map normalise_char (trim s)"

definition exact_at :: "rstring list \<Rightarrow> rstring list \<Rightarrow> nat \<Rightarrow> bool" where
  "exact_at ls pattern i \<longleftrightarrow> take (length pattern) (drop i ls) = pattern"

definition lenient_at :: "(rstring \<Rightarrow> rstring) \<Rightarrow> rstring list \<Rightarrow> rstring list \<Rightarrow> nat \<Rightarrow> bool" where
  "lenient_at norm ls pattern i \<longleftrightarrow>
     list_all2 (\<lambda>l pat. norm l = norm pat) (take (length pattern) (drop i ls)) pattern"

definition seek_sequence :: "rstring list \<Rightarrow> rstring list \<Rightarrow> nat \<Rightarrow> bool \<Rightarrow> nat option" where
  "seek_sequence ls pattern start eof =
     (if pattern = [] then Some start
      else if length pattern > length ls then None
      else
        let search_start = (if eof \<and> length ls \<ge> length pattern then length ls - length pattern else start);
            range = [search_start..<Suc (sat_sub (length ls) (length pattern))]
        in case find (exact_at ls pattern) range of
             Some i \<Rightarrow> Some i
           | None \<Rightarrow> (case find (lenient_at trim_end ls pattern) range of
             Some i \<Rightarrow> Some i
           | None \<Rightarrow> (case find (lenient_at trim ls pattern) range of
             Some i \<Rightarrow> Some i
           | None \<Rightarrow> find (lenient_at normalise ls pattern) range)))"

section \<open>Replacements\<close>

type_synonym replacement = "nat \<times> nat \<times> rstring list"

text \<open>\<open>ComputeReplacements\<close> errors carry their message.\<close>

definition context_not_found :: "rstring \<Rightarrow> rstring \<Rightarrow> rstring" where
  "context_not_found ctx_line path = lit ''Failed to find context '' @ quoted ctx_line @ lit '' in '' @ path"

definition lines_not_found :: "rstring \<Rightarrow> rstring list \<Rightarrow> rstring" where
  "lines_not_found path old =
     lit ''Failed to find expected lines in '' @ path @ lit '':'' @ [newline] @ join [newline] old"

definition seek_context :: "rstring list \<Rightarrow> rstring \<Rightarrow> rstring option \<Rightarrow> nat \<Rightarrow> rstring + nat" where
  "seek_context original_lines path ctx line_index =
     (case ctx of
        None \<Rightarrow> Inr line_index
      | Some ctx_line \<Rightarrow>
          (case seek_sequence original_lines [ctx_line] line_index False of
             Some idx \<Rightarrow> Inr (idx + 1)
           | None \<Rightarrow> Inl (context_not_found ctx_line path)))"

definition insertion_index :: "rstring list \<Rightarrow> nat" where
  "insertion_index original_lines =
     (if last_is (\<lambda>l. l = []) original_lines then length original_lines - 1 else length original_lines)"

text \<open>The old lines of a chunk are sought as they are, then without a final empty line.\<close>

definition seek_old_lines :: "rstring list \<Rightarrow> update_file_chunk \<Rightarrow> nat \<Rightarrow> replacement option" where
  "seek_old_lines original_lines chunk line_index =
     (let pattern = old_lines chunk; new_slice = new_lines chunk in
      case seek_sequence original_lines pattern line_index (is_end_of_file chunk) of
        Some start_idx \<Rightarrow> Some (start_idx, length pattern, new_slice)
      | None \<Rightarrow>
          if last_is (\<lambda>l. l = []) pattern then
            let pattern = butlast pattern;
                new_slice = (if last_is (\<lambda>l. l = []) new_slice then butlast new_slice else new_slice)
            in map_option (\<lambda>start_idx. (start_idx, length pattern, new_slice))
                 (seek_sequence original_lines pattern line_index (is_end_of_file chunk))
          else None)"

fun compute_loop :: "rstring list \<Rightarrow> rstring \<Rightarrow> update_file_chunk list \<Rightarrow> nat \<Rightarrow> replacement list \<Rightarrow>
    rstring + replacement list" where
  "compute_loop original_lines path [] line_index replacements = Inr replacements"
| "compute_loop original_lines path (chunk # chunks) line_index replacements =
     bind_res (seek_context original_lines path (change_context chunk) line_index) (\<lambda>line_index.
       if old_lines chunk = [] then
         compute_loop original_lines path chunks line_index
           (replacements @ [(insertion_index original_lines, 0, new_lines chunk)])
       else case seek_old_lines original_lines chunk line_index of
           Some (start_idx, n, new_slice) \<Rightarrow>
             compute_loop original_lines path chunks (start_idx + n) (replacements @ [(start_idx, n, new_slice)])
         | None \<Rightarrow> Inl (lines_not_found path (old_lines chunk)))"

definition compute_replacements :: "rstring list \<Rightarrow> rstring \<Rightarrow> update_file_chunk list \<Rightarrow>
    rstring + replacement list" where
  "compute_replacements original_lines path chunks =
     bind_res (compute_loop original_lines path chunks 0 []) (\<lambda>rs. Inr (sort_key fst rs))"

fun remove_at :: "nat \<Rightarrow> nat \<Rightarrow> 'a list \<Rightarrow> 'a list" where
  "remove_at 0 start_idx ls = ls"
| "remove_at (Suc n) start_idx ls =
     remove_at n start_idx (if start_idx < length ls then take start_idx ls @ drop (Suc start_idx) ls else ls)"

fun insert_at :: "nat \<Rightarrow> 'a list \<Rightarrow> 'a list \<Rightarrow> 'a list option" where
  "insert_at idx [] ls = Some ls"
| "insert_at idx (x # xs) ls =
     (if idx \<le> length ls then insert_at (Suc idx) xs (take idx ls @ [x] @ drop idx ls) else None)"

fun apply_one :: "replacement \<Rightarrow> rstring list \<Rightarrow> rstring list option" where
  "apply_one (start_idx, old_len, new_segment) ls = insert_at start_idx new_segment (remove_at old_len start_idx ls)"

fun apply_loop :: "replacement list \<Rightarrow> rstring list \<Rightarrow> rstring list option" where
  "apply_loop [] ls = Some ls"
| "apply_loop (r # rs) ls = (case apply_one r ls of None \<Rightarrow> None | Some ls' \<Rightarrow> apply_loop rs ls')"

definition apply_replacements :: "rstring list \<Rightarrow> replacement list \<Rightarrow> rstring list option" where
  "apply_replacements ls replacements = apply_loop (rev replacements) ls"

text \<open>The lines of a file, and its new contents.\<close>

definition original_lines_of :: "rstring \<Rightarrow> rstring list" where
  "original_lines_of contents =
     (let ls = split_char newline contents in if last_is (\<lambda>l. l = []) ls then butlast ls else ls)"

datatype derive_error = ComputeReplacements rstring | Panic

definition new_contents_of :: "rstring \<Rightarrow> rstring \<Rightarrow> update_file_chunk list \<Rightarrow> derive_error + rstring" where
  "new_contents_of original_contents path_text chunks =
     (let original_lines = original_lines_of original_contents in
      case compute_replacements original_lines path_text chunks of
        Inl msg \<Rightarrow> Inl (ComputeReplacements msg)
      | Inr replacements \<Rightarrow>
          (case apply_replacements original_lines replacements of
             None \<Rightarrow> Inl Panic
           | Some ls \<Rightarrow>
               let ls = (if \<not> last_is (\<lambda>l. l = []) ls then ls @ [[]] else ls)
               in Inr (join [newline] ls)))"

section \<open>What seeking finds\<close>

definition in_range :: "rstring list \<Rightarrow> rstring list \<Rightarrow> nat \<Rightarrow> bool \<Rightarrow> nat \<Rightarrow> bool" where
  "in_range ls pattern start eof i \<longleftrightarrow>
     i + length pattern \<le> length ls \<and> (if eof then i + length pattern = length ls else start \<le> i)"

lemma lenient_levels:
  "exact_at ls pattern i \<Longrightarrow> lenient_at trim_end ls pattern i"
  "lenient_at trim_end ls pattern i \<Longrightarrow> lenient_at trim ls pattern i"
  "lenient_at trim ls pattern i \<Longrightarrow> lenient_at normalise ls pattern i"
  unfolding exact_at_def lenient_at_def
  by (simp add: list_all2_same) (auto elim!: list_all2_mono simp: trim_alt normalise_def)

lemma in_range_upt:
  "length pattern \<le> length ls \<Longrightarrow>
     i \<in> set [(if eof \<and> length pattern \<le> length ls then length ls - length pattern else start)..<
       Suc (length ls - length pattern)] \<longleftrightarrow> in_range ls pattern start eof i"
  by (auto simp: in_range_def)

lemma find_upt_Some:
  "find P [a..<b] = Some i \<longleftrightarrow> a \<le> i \<and> i < b \<and> P i \<and> (\<forall>j. a \<le> j \<and> j < i \<longrightarrow> \<not> P j)"
proof (induction "b - a" arbitrary: a)
  case (Suc n)
  then have upt: "[a..<b] = a # [Suc a..<b]" by (simp add: upt_conv_Cons)
  have "find P [Suc a..<b] = Some i \<longleftrightarrow> Suc a \<le> i \<and> i < b \<and> P i \<and> (\<forall>j. Suc a \<le> j \<and> j < i \<longrightarrow> \<not> P j)"
    using Suc by simp
  moreover have "P a \<Longrightarrow> (a = i) = (a \<le> i \<and> i < b \<and> P i \<and> (\<forall>j. a \<le> j \<and> j < i \<longrightarrow> \<not> P j))"
    using Suc(2) le_neq_implies_less [of a i] by auto
  moreover have "\<not> P a \<Longrightarrow> (Suc a \<le> i \<and> i < b \<and> P i \<and> (\<forall>j. Suc a \<le> j \<and> j < i \<longrightarrow> \<not> P j)) =
      (a \<le> i \<and> i < b \<and> P i \<and> (\<forall>j. a \<le> j \<and> j < i \<longrightarrow> \<not> P j))"
    by (metis Suc_leD Suc_leI le_neq_implies_less)
  ultimately show ?case by (simp add: upt)
qed simp

lemma find_upt_None: "find P [a..<b] = None \<longleftrightarrow> (\<forall>i. a \<le> i \<and> i < b \<longrightarrow> \<not> P i)"
  by (auto simp: find_None_iff)

text \<open>The search at one level: the first match in range.\<close>

definition first_match :: "(nat \<Rightarrow> bool) \<Rightarrow> rstring list \<Rightarrow> rstring list \<Rightarrow> nat \<Rightarrow> bool \<Rightarrow> nat \<Rightarrow> bool" where
  "first_match P ls pattern start eof i \<longleftrightarrow>
     in_range ls pattern start eof i \<and> P i \<and> (\<forall>j < i. in_range ls pattern start eof j \<longrightarrow> \<not> P j)"

definition no_match :: "(nat \<Rightarrow> bool) \<Rightarrow> rstring list \<Rightarrow> rstring list \<Rightarrow> nat \<Rightarrow> bool \<Rightarrow> bool" where
  "no_match P ls pattern start eof \<longleftrightarrow> (\<forall>i. in_range ls pattern start eof i \<longrightarrow> \<not> P i)"

lemma seek_sequence_cases:
  assumes "pattern \<noteq> []"
  shows "seek_sequence ls pattern start eof = Some i \<longleftrightarrow>
    first_match (exact_at ls pattern) ls pattern start eof i \<or>
    no_match (exact_at ls pattern) ls pattern start eof \<and> first_match (lenient_at trim_end ls pattern) ls pattern start eof i \<or>
    no_match (lenient_at trim_end ls pattern) ls pattern start eof \<and> first_match (lenient_at trim ls pattern) ls pattern start eof i \<or>
    no_match (lenient_at trim ls pattern) ls pattern start eof \<and> first_match (lenient_at normalise ls pattern) ls pattern start eof i"
proof (cases "length pattern > length ls")
  case True
  then show ?thesis using assms(1) by (simp add: seek_sequence_def first_match_def in_range_def)
next
  case False
  define a b where "a = (if eof \<and> length ls \<ge> length pattern then length ls - length pattern else start)"
    and "b = Suc (length ls - length pattern)"
  have range: "in_range ls pattern start eof i \<longleftrightarrow> a \<le> i \<and> i < b" for i
    using False by (auto simp: in_range_def a_def b_def)
  have some: "find P [a..<b] = Some i \<longleftrightarrow> first_match P ls pattern start eof i" for P i
    unfolding first_match_def range find_upt_Some by auto
  have no: "find P [a..<b] = None \<longleftrightarrow> no_match P ls pattern start eof" for P
    unfolding no_match_def range by (rule find_upt_None)
  have "seek_sequence ls pattern start eof =
      (case find (exact_at ls pattern) [a..<b] of Some i \<Rightarrow> Some i
       | None \<Rightarrow> (case find (lenient_at trim_end ls pattern) [a..<b] of Some i \<Rightarrow> Some i
       | None \<Rightarrow> (case find (lenient_at trim ls pattern) [a..<b] of Some i \<Rightarrow> Some i
       | None \<Rightarrow> find (lenient_at normalise ls pattern) [a..<b])))"
    using assms(1) False unfolding seek_sequence_def Let_def a_def b_def by (simp only: if_False)
  moreover have "find (lenient_at trim_end ls pattern) [a..<b] = None \<Longrightarrow> find (exact_at ls pattern) [a..<b] = None"
    "find (lenient_at trim ls pattern) [a..<b] = None \<Longrightarrow> find (lenient_at trim_end ls pattern) [a..<b] = None"
    unfolding no using lenient_levels by (auto simp: no_match_def)
  ultimately show ?thesis
    unfolding some [symmetric] no [symmetric] by (auto split: option.split)
qed

lemma seek_sequence_bounds:
  assumes "seek_sequence ls pattern start eof = Some i" and "start \<le> length ls"
  shows "i + length pattern \<le> length ls" and "\<not> eof \<Longrightarrow> start \<le> i"
  using assms by (cases "pattern = []";
      auto simp: seek_sequence_cases first_match_def in_range_def seek_sequence_def [of _ "[]"])+

lemma seek_sequence_matches:
  assumes "seek_sequence ls pattern start eof = Some i"
  shows "lenient_at normalise ls pattern i"
proof (cases "pattern = []")
  case True
  then show ?thesis by (simp add: lenient_at_def)
next
  case False
  then show ?thesis
    using assms by (auto simp: seek_sequence_cases first_match_def intro: lenient_levels)
qed

lemma seek_exact_first:
  assumes "exact_at ls pattern i" and "start \<le> i" and "i + length pattern \<le> length ls" and "pattern \<noteq> []"
    and "\<forall>j. start \<le> j \<and> j < i \<longrightarrow> \<not> exact_at ls pattern j"
  shows "seek_sequence ls pattern start False = Some i"
  using assms by (auto simp: seek_sequence_cases first_match_def in_range_def)

section \<open>Simultaneous replacement\<close>

text \<open>Replacements in order, each within the lines from \<open>pos\<close> to \<open>n\<close>, none overlapping, and their
  simultaneous application.\<close>

fun disjoint :: "nat \<Rightarrow> nat \<Rightarrow> replacement list \<Rightarrow> bool" where
  "disjoint pos n [] \<longleftrightarrow> pos \<le> n"
| "disjoint pos n ((s, k, new) # rs) \<longleftrightarrow> pos \<le> s \<and> disjoint (s + k) n rs"

fun splice :: "nat \<Rightarrow> replacement list \<Rightarrow> rstring list \<Rightarrow> rstring list" where
  "splice pos [] ls = drop pos ls"
| "splice pos ((s, k, new) # rs) ls = take (s - pos) (drop pos ls) @ new @ splice (s + k) rs ls"

lemma disjoint_le: "disjoint pos n rs \<Longrightarrow> pos \<le> n"
  by (induction rs arbitrary: pos) fastforce+

lemma disjoint_mono: "disjoint pos k rs \<Longrightarrow> k \<le> k' \<Longrightarrow> disjoint pos k' rs"
  by (induction pos k rs rule: disjoint.induct) auto

lemma disjoint_append: "disjoint pos n (rs @ rs') \<longleftrightarrow> (\<exists>m. disjoint pos m rs \<and> disjoint m n rs')"
proof (induction rs arbitrary: pos)
  case Nil
  then show ?case by (cases rs') (auto dest: disjoint_le intro: order_trans)
next
  case (Cons r rs)
  then show ?case by (cases r) auto
qed

lemma remove_at_eq: "start \<le> length ls \<Longrightarrow> remove_at n start ls = take start ls @ drop (start + n) ls"
proof (induction n arbitrary: ls)
  case (Suc n)
  show ?case
  proof (cases "start < length ls")
    case True
    then have "drop (start + n) (take start ls @ drop (Suc start) ls) = drop (start + Suc n) ls"
      by (simp add: add.commute)
    then show ?thesis using Suc.IH [of "take start ls @ drop (Suc start) ls"] True by simp
  next
    case False
    then show ?thesis using Suc by simp
  qed
qed simp

lemma insert_at_eq: "idx \<le> length ls \<Longrightarrow> insert_at idx xs ls = Some (take idx ls @ xs @ drop idx ls)"
proof (induction xs arbitrary: idx ls)
  case (Cons x xs)
  from Cons.prems Cons.IH [of "Suc idx" "take idx ls @ [x] @ drop idx ls"] show ?case by simp
qed simp

lemma apply_one_eq:
  "s \<le> length ls \<Longrightarrow> apply_one (s, k, new) ls = Some (take s ls @ new @ drop (s + k) ls)"
  by (simp add: remove_at_eq insert_at_eq)

lemma apply_loop_append:
  "apply_loop (rs @ rs') ls = (case apply_loop rs ls of None \<Rightarrow> None | Some ls' \<Rightarrow> apply_loop rs' ls')"
  by (induction rs arbitrary: ls) (simp_all split: option.split)

lemma apply_replacements_Cons:
  "apply_replacements ls (r # rs) = (case apply_replacements ls rs of None \<Rightarrow> None | Some ls' \<Rightarrow> apply_one r ls')"
  by (simp add: apply_replacements_def apply_loop_append split: option.split)

lemma apply_splice:
  "disjoint pos (length ls) rs \<Longrightarrow> apply_replacements ls rs = Some (take pos ls @ splice pos rs ls)"
proof (induction rs arbitrary: pos)
  case Nil
  then show ?case by (simp add: apply_replacements_def)
next
  case (Cons r rs)
  obtain s k new where r: "r = (s, k, new)" by (cases r)
  with Cons have d: "pos \<le> s" "disjoint (s + k) (length ls) rs" by simp_all
  then have sk: "s + k \<le> length ls" by (blast dest: disjoint_le)
  let ?ls = "take (s + k) ls @ splice (s + k) rs ls"
  have "apply_replacements ls (r # rs) = apply_one (s, k, new) ?ls"
    using Cons.IH [OF d(2)] by (simp add: apply_replacements_Cons r)
  also have "\<dots> = Some (take s ls @ new @ splice (s + k) rs ls)"
    using sk apply_one_eq [of s ?ls k new] by (simp add: min_def)
  also have "take s ls = take pos ls @ take (s - pos) (drop pos ls)"
    using d(1) by (metis le_add_diff_inverse take_add)
  finally show ?case by (simp add: r)
qed

text \<open>Replacements in ascending order never panic, overlapping or not.\<close>

lemma apply_sorted_total:
  assumes "sorted (map fst rs)" and "\<forall>r \<in> set rs. fst r \<le> length ls"
  shows "\<exists>ls'. apply_replacements ls rs = Some ls' \<and> (\<forall>b \<le> length ls. (\<forall>r \<in> set rs. b \<le> fst r) \<longrightarrow> b \<le> length ls')"
  using assms
proof (induction rs)
  case Nil
  then show ?case by (simp add: apply_replacements_def)
next
  case (Cons r rs)
  then obtain ls' where ls': "apply_replacements ls rs = Some ls'"
    "\<forall>b \<le> length ls. (\<forall>r \<in> set rs. b \<le> fst r) \<longrightarrow> b \<le> length ls'" by auto
  obtain s k new where r: "r = (s, k, new)" by (cases r)
  have "s \<le> length ls'" using ls'(2) Cons.prems r by auto
  then have "apply_replacements ls (r # rs) = Some (take s ls' @ new @ drop (s + k) ls')"
    using ls'(1) by (simp add: apply_replacements_Cons r remove_at_eq insert_at_eq)
  then show ?case using \<open>s \<le> length ls'\<close> r by (auto simp: min_def)
qed

section \<open>The computed replacements\<close>

definition fits :: "rstring list \<Rightarrow> replacement list \<Rightarrow> bool" where
  "fits ls rs \<longleftrightarrow> (\<forall>r \<in> set rs. fst r + fst (snd r) \<le> length ls)"

lemma fits_append [simp]: "fits ls (rs @ rs') \<longleftrightarrow> fits ls rs \<and> fits ls rs'"
  by (auto simp: fits_def)

lemma seek_context_bounds:
  assumes "seek_context ls path ctx k = Inr k'" and "k \<le> length ls"
  shows "k \<le> k'" and "k' \<le> length ls"
  using assms seek_sequence_bounds [of ls "[the ctx]" k False]
  by (fastforce simp: seek_context_def split: option.splits)+

lemma seek_old_lines_cases:
  assumes "seek_old_lines ls c k = Some (s, m, new)"
  shows "seek_sequence ls (take m (old_lines c)) k (is_end_of_file c) = Some s"
    and "m = length (old_lines c) \<or> m = length (old_lines c) - 1"
  using assms
  by (auto simp: seek_old_lines_def Let_def butlast_conv_take split: option.splits if_splits)

lemma seek_old_lines_bounds:
  assumes "seek_old_lines ls c k = Some (s, m, new)" and "k \<le> length ls"
  shows "s + m \<le> length ls" and "\<not> is_end_of_file c \<Longrightarrow> k \<le> s"
  using seek_sequence_bounds [OF seek_old_lines_cases(1) [OF assms(1)] assms(2)]
    seek_old_lines_cases(2) [OF assms(1)] by auto

lemma insertion_index_le: "insertion_index ls \<le> length ls"
  by (simp add: insertion_index_def)

text \<open>A property of all replacements holds when every step of the loop keeps it.\<close>

lemma compute_loop_induct:
  assumes "compute_loop ls path chunks k acc = Inr rs" and "P k acc" and "k \<le> length ls"
    and "set chunks \<subseteq> C"
    and ctx: "\<And>k k' acc. P k acc \<Longrightarrow> k \<le> k' \<Longrightarrow> k' \<le> length ls \<Longrightarrow> P k' acc"
    and pure: "\<And>c k acc. P k acc \<Longrightarrow> k \<le> length ls \<Longrightarrow> c \<in> C \<Longrightarrow> old_lines c = [] \<Longrightarrow>
      P k (acc @ [(insertion_index ls, 0, new_lines c)])"
    and old: "\<And>c k acc s m new. P k acc \<Longrightarrow> k \<le> length ls \<Longrightarrow> c \<in> C \<Longrightarrow>
      seek_old_lines ls c k = Some (s, m, new) \<Longrightarrow> P (s + m) (acc @ [(s, m, new)])"
  shows "\<exists>k \<le> length ls. P k rs"
  using assms(1-4)
proof (induction chunks arbitrary: k acc)
  case Nil
  then show ?case by auto
next
  case (Cons c chunks)
  then have c: "c \<in> C" "set chunks \<subseteq> C" by simp_all
  obtain k' where k': "seek_context ls path (change_context c) k = Inr k'"
    using Cons.prems(1) by (cases "seek_context ls path (change_context c) k") simp_all
  note b = seek_context_bounds [OF k' Cons.prems(3)]
  have P: "P k' acc" using ctx [OF Cons.prems(2) b] .
  show ?case
  proof (cases "old_lines c = []")
    case True
    have "compute_loop ls path chunks k' (acc @ [(insertion_index ls, 0, new_lines c)]) = Inr rs"
      using Cons.prems(1) k' True by simp
    then show ?thesis using pure [OF P b(2) c(1) True] b(2) c(2) by (rule Cons.IH)
  next
    case False
    then obtain s m new where o: "seek_old_lines ls c k' = Some (s, m, new)"
      using Cons.prems(1) k' by (cases "seek_old_lines ls c k'") auto
    have "compute_loop ls path chunks (s + m) (acc @ [(s, m, new)]) = Inr rs"
      using Cons.prems(1) k' False o by simp
    then show ?thesis
      using old [OF P b(2) c(1) o] seek_old_lines_bounds(1) [OF o b(2)] c(2) by (rule Cons.IH)
  qed
qed

lemma compute_loop_fits:
  assumes "compute_loop ls path chunks 0 [] = Inr rs"
  shows "fits ls rs"
proof -
  have "\<exists>k \<le> length ls. fits ls rs"
    by (rule compute_loop_induct [OF assms, where C = UNIV])
      (auto simp: fits_def insertion_index_le dest: seek_old_lines_bounds(1))
  then show ?thesis by blast
qed

lemma compute_apply_total:
  assumes "compute_replacements ls path chunks = Inr rs"
  shows "\<exists>ls'. apply_replacements ls rs = Some ls'"
proof -
  obtain rs0 where rs0: "compute_loop ls path chunks 0 [] = Inr rs0" and rs: "rs = sort_key fst rs0"
    using assms by (auto simp: compute_replacements_def result_iff)
  have "\<forall>r \<in> set rs. fst r \<le> length ls"
    using compute_loop_fits [OF rs0] by (auto simp: rs fits_def)
  moreover have "sorted (map fst rs)" by (simp add: rs)
  ultimately show ?thesis using apply_sorted_total by blast
qed

lemma disjoint_sorted: "disjoint pos n rs \<Longrightarrow> sorted (map fst rs) \<and> (\<forall>r \<in> set rs. pos \<le> fst r)"
proof (induction rs arbitrary: pos)
  case (Cons r rs)
  obtain s k new where r: "r = (s, k, new)" by (cases r)
  then show ?case using Cons.IH [of "s + k"] Cons.prems by fastforce
qed simp

text \<open>Sorting only moves the insertions at the end of the file behind the other replacements.\<close>

lemma sort_end:
  assumes "\<forall>r \<in> set rs. fst r \<le> (n :: nat)" and "sorted (map fst (filter (\<lambda>r. fst r < n) rs))"
  shows "sort_key fst rs = filter (\<lambda>r. fst r < n) rs @ filter (\<lambda>r. fst r = n) rs"
proof (rule properties_for_sort_key)
  show "mset (filter (\<lambda>r. fst r < n) rs @ filter (\<lambda>r. fst r = n) rs) = mset rs"
    using assms(1) by (induction rs) auto
  show "filter (\<lambda>x. fst k = fst x) (filter (\<lambda>r. fst r < n) rs @ filter (\<lambda>r. fst r = n) rs) =
      filter (\<lambda>x. fst k = fst x) rs" if "k \<in> set (filter (\<lambda>r. fst r < n) rs @ filter (\<lambda>r. fst r = n) rs)" for k
    using that by (auto simp: filter_empty_conv intro!: filter_cong [OF refl])
  show "sorted (map fst (filter (\<lambda>r. fst r < n) rs @ filter (\<lambda>r. fst r = n) rs))"
  proof -
    have "map fst (filter (\<lambda>r. fst r = n) rs) = replicate (length (filter (\<lambda>r. fst r = n) rs)) n"
      by (induction rs) auto
    then show ?thesis using assms(2) by (auto simp: sorted_append)
  qed
qed

lemma disjoint_ends: "fits ls rs \<Longrightarrow> \<forall>r \<in> set rs. fst r = length ls \<Longrightarrow> disjoint (length ls) (length ls) rs"
proof (induction rs)
  case (Cons r rs)
  then show ?case by (cases r) (auto simp: fits_def)
qed simp

lemma compute_loop_disjoint:
  assumes "compute_loop ls path chunks 0 [] = Inr rs" and "\<forall>c \<in> set chunks. \<not> is_end_of_file c"
    and "(\<forall>c \<in> set chunks. old_lines c \<noteq> []) \<or> \<not> last_is (\<lambda>l. l = []) ls"
  shows "\<exists>k \<le> length ls. disjoint 0 k (filter (\<lambda>r. fst r < length ls) rs)"
proof (rule compute_loop_induct [OF assms(1), where C = "set chunks"])
  fix k k' :: nat and acc :: "replacement list"
  assume "disjoint 0 k (filter (\<lambda>r. fst r < length ls) acc)" and "k \<le> k'"
  then show "disjoint 0 k' (filter (\<lambda>r. fst r < length ls) acc)"
    by (rule disjoint_mono)
next
  fix c k acc
  assume "disjoint 0 k (filter (\<lambda>r. fst r < length ls) acc)" and "c \<in> set chunks" and "old_lines c = []"
  then show "disjoint 0 k (filter (\<lambda>r. fst r < length ls) (acc @ [(insertion_index ls, 0, new_lines c)]))"
    using assms(3) by (auto simp: insertion_index_def)
next
  fix c k acc s m new
  assume d: "disjoint 0 k (filter (\<lambda>r. fst r < length ls) acc)" and "k \<le> length ls" and "c \<in> set chunks"
    and o: "seek_old_lines ls c k = Some (s, m, new)"
  then have s: "s + m \<le> length ls" "k \<le> s" using seek_old_lines_bounds [OF o] assms(2) by simp_all
  have "disjoint 0 (s + m) (filter (\<lambda>r. fst r < length ls) acc @ [(s, m, new)])"
    using d s(2) by (auto simp: disjoint_append)
  moreover have "disjoint 0 (s + m) (filter (\<lambda>r. fst r < length ls) acc)"
    using d by (rule disjoint_mono) (use s(2) in simp)
  ultimately show "disjoint 0 (s + m) (filter (\<lambda>r. fst r < length ls) (acc @ [(s, m, new)]))"
    by simp
qed simp_all

lemma compute_replacements_disjoint:
  assumes "compute_replacements ls path chunks = Inr rs" and "\<forall>c \<in> set chunks. \<not> is_end_of_file c"
    and "(\<forall>c \<in> set chunks. old_lines c \<noteq> []) \<or> \<not> last_is (\<lambda>l. l = []) ls"
  shows "disjoint 0 (length ls) rs"
proof -
  obtain rs0 where rs0: "compute_loop ls path chunks 0 [] = Inr rs0" and rs: "rs = sort_key fst rs0"
    using assms(1) by (auto simp: compute_replacements_def result_iff)
  note fits = compute_loop_fits [OF rs0]
  obtain k where k: "k \<le> length ls" "disjoint 0 k (filter (\<lambda>r. fst r < length ls) rs0)"
    using compute_loop_disjoint [OF rs0 assms(2,3)] by blast
  have "rs = filter (\<lambda>r. fst r < length ls) rs0 @ filter (\<lambda>r. fst r = length ls) rs0"
    unfolding rs using fits disjoint_sorted [OF k(2)] by (intro sort_end) (auto simp: fits_def)
  moreover have "disjoint (length ls) (length ls) (filter (\<lambda>r. fst r = length ls) rs0)"
    using fits by (intro disjoint_ends) (auto simp: fits_def)
  moreover have "disjoint 0 (length ls) (filter (\<lambda>r. fst r < length ls) rs0)"
    using k(2,1) by (rule disjoint_mono)
  ultimately show ?thesis by (auto simp: disjoint_append)
qed

text \<open>Every replaced region matches the old lines of a chunk.\<close>

lemma compute_replacements_match:
  assumes "compute_replacements ls path chunks = Inr rs" and "(s, k, new) \<in> set rs"
  shows "\<exists>c \<in> set chunks. k \<le> length (old_lines c) \<and> lenient_at normalise ls (take k (old_lines c)) s"
proof -
  obtain rs0 where rs0: "compute_loop ls path chunks 0 [] = Inr rs0" and rs: "rs = sort_key fst rs0"
    using assms(1) by (auto simp: compute_replacements_def result_iff)
  have "\<exists>k \<le> length ls. \<forall>(s, k, new) \<in> set rs0. \<exists>c \<in> set chunks. k \<le> length (old_lines c) \<and>
      lenient_at normalise ls (take k (old_lines c)) s"
  proof (rule compute_loop_induct [OF rs0, where C = "set chunks"])
    fix c k s m new and acc :: "replacement list"
    assume acc: "\<forall>(s, k, new) \<in> set acc. \<exists>c \<in> set chunks. k \<le> length (old_lines c) \<and>
        lenient_at normalise ls (take k (old_lines c)) s" and c: "c \<in> set chunks"
      and o: "seek_old_lines ls c k = Some (s, m, new)"
    have "lenient_at normalise ls (take m (old_lines c)) s"
      using seek_old_lines_cases(1) [OF o] by (rule seek_sequence_matches)
    then show "\<forall>(s, k, new) \<in> set (acc @ [(s, m, new)]). \<exists>c \<in> set chunks. k \<le> length (old_lines c) \<and>
        lenient_at normalise ls (take k (old_lines c)) s"
      using acc c seek_old_lines_cases(2) [OF o] by (auto intro!: bexI [of _ c])
  qed (auto simp: lenient_at_def)
  then show ?thesis using assms(2) by (auto simp: rs)
qed

section \<open>Edit scripts\<close>

text \<open>An edit of a file: unchanged lines, lines to remove, lines to put in their place; the rest of the
  file is unchanged.  The patch for a script has one chunk for each edit.\<close>

type_synonym edit = "rstring list \<times> rstring list \<times> rstring list"

fun source_lines :: "edit list \<Rightarrow> rstring list \<Rightarrow> rstring list" where
  "source_lines [] rest = rest"
| "source_lines ((gap, old, new) # es) rest = gap @ old @ source_lines es rest"

fun target_lines :: "edit list \<Rightarrow> rstring list \<Rightarrow> rstring list" where
  "target_lines [] rest = rest"
| "target_lines ((gap, old, new) # es) rest = gap @ new @ target_lines es rest"

fun edit_chunk :: "edit \<Rightarrow> update_file_chunk" where
  "edit_chunk (gap, old, new) =
     \<lparr>change_context = None, old_lines = old, new_lines = new, is_end_of_file = False\<rparr>"

text \<open>The old lines of each edit do not occur earlier in the lines that follow the previous edit.\<close>

fun first_places :: "edit list \<Rightarrow> rstring list \<Rightarrow> bool" where
  "first_places [] rest \<longleftrightarrow> True"
| "first_places ((gap, old, new) # es) rest \<longleftrightarrow>
     old \<noteq> [] \<and> (\<forall>j < length gap. \<not> exact_at (gap @ old @ source_lines es rest) old j) \<and>
     first_places es rest"

fun edit_replacements :: "nat \<Rightarrow> edit list \<Rightarrow> replacement list" where
  "edit_replacements pos [] = []"
| "edit_replacements pos ((gap, old, new) # es) =
     (pos + length gap, length old, new) # edit_replacements (pos + length gap + length old) es"

lemma compute_loop_script:
  "first_places es rest \<Longrightarrow>
     compute_loop (pre @ source_lines es rest) path (map edit_chunk es) (length pre) acc =
     Inr (acc @ edit_replacements (length pre) es)"
proof (induction es arbitrary: pre acc)
  case (Cons e es)
  obtain gap old new where e: "e = (gap, old, new)" by (cases e)
  let ?ls = "pre @ source_lines (e # es) rest"
  have old: "old \<noteq> []" "\<forall>j < length gap. \<not> exact_at (gap @ old @ source_lines es rest) old j"
    using Cons.prems by (simp_all add: e)
  have shift: "exact_at ?ls old (length pre + j) \<longleftrightarrow> exact_at (gap @ old @ source_lines es rest) old j" for j
    by (simp add: exact_at_def e)
  have "seek_sequence ?ls old (length pre) False = Some (length pre + length gap)"
  proof (rule seek_exact_first)
    show "\<forall>j. length pre \<le> j \<and> j < length pre + length gap \<longrightarrow> \<not> exact_at ?ls old j"
      using old(2) shift by (metis le_add_diff_inverse nat_add_left_cancel_less)
  qed (use old in \<open>simp_all add: exact_at_def e\<close>)
  then have "seek_old_lines ?ls (edit_chunk e) (length pre) = Some (length pre + length gap, length old, new)"
    by (simp add: seek_old_lines_def e)
  then have "compute_loop ?ls path (map edit_chunk (e # es)) (length pre) acc =
      compute_loop ((pre @ gap @ old) @ source_lines es rest) path (map edit_chunk es)
        (length (pre @ gap @ old)) (acc @ [(length pre + length gap, length old, new)])"
    using old(1) by (simp add: e seek_context_def add.assoc)
  also have "\<dots> = Inr (acc @ edit_replacements (length pre) (e # es))"
    using Cons.prems by (subst Cons.IH) (simp_all add: e add.assoc)
  finally show ?case .
qed simp

lemma script_disjoint:
  "disjoint pos (pos + length (source_lines es rest)) (edit_replacements pos es)"
proof (induction es arbitrary: pos)
  case (Cons e es)
  obtain gap old new where "e = (gap, old, new)" by (cases e)
  then show ?case using Cons [of "pos + length gap + length old"] by (simp add: add.assoc)
qed simp

lemma script_splice:
  "splice (length pre) (edit_replacements (length pre) es) (pre @ source_lines es rest) = target_lines es rest"
proof (induction es arbitrary: pre)
  case (Cons e es)
  obtain gap old new where "e = (gap, old, new)" by (cases e)
  then show ?case using Cons [of "pre @ gap @ old"] by (simp add: add.assoc)
qed simp

lemma script_replacements:
  assumes "first_places es rest"
  shows "compute_replacements (source_lines es rest) path (map edit_chunk es) = Inr (edit_replacements 0 es)"
    and "apply_replacements (source_lines es rest) (edit_replacements 0 es) = Some (target_lines es rest)"
proof -
  note d = script_disjoint [of 0 es rest, simplified]
  have "sort_key fst (edit_replacements 0 es) = edit_replacements 0 es"
    using disjoint_sorted [OF d] by (simp add: sort_key_id_if_sorted)
  then show "compute_replacements (source_lines es rest) path (map edit_chunk es) = Inr (edit_replacements 0 es)"
    using compute_loop_script [OF assms, of "[]" path "[]"] by (simp add: compute_replacements_def)
  show "apply_replacements (source_lines es rest) (edit_replacements 0 es) = Some (target_lines es rest)"
    using apply_splice [OF d] script_splice [of "[]" es rest] by simp
qed

text \<open>The text of a file with these lines, each ended by a line feed.\<close>

definition text_of :: "rstring list \<Rightarrow> rstring" where
  "text_of ls = concat (map (\<lambda>l. l @ [newline]) ls)"

lemma split_text_of: "\<forall>l \<in> set ls. newline \<notin> set l \<Longrightarrow> split_char newline (text_of ls) = ls @ [[]]"
proof (induction ls)
  case (Cons l ls)
  have "c \<notin> set u \<Longrightarrow> split_char c (u @ c # r) = u # split_char c r" for c :: rchar and u r
    by (induction u) auto
  with Cons show ?case by (simp add: text_of_def)
qed (simp add: text_of_def)

lemma original_lines_text_of: "\<forall>l \<in> set ls. newline \<notin> set l \<Longrightarrow> original_lines_of (text_of ls) = ls"
  by (simp add: original_lines_of_def split_text_of)

lemma join_text_of: "join [newline] (ls @ [[]]) = text_of ls"
  by (simp add: join_lines text_of_def)

section \<open>Boundary behaviour\<close>

text \<open>With \<open>eof\<close> set, only the last possible position is tried: there is no second search from
  \<open>start\<close>.\<close>

lemma seek_eof_no_fallback:
  "seek_sequence [lit ''a'', lit ''b''] [lit ''a''] 0 True = None"
  "seek_sequence [lit ''a'', lit ''b''] [lit ''a''] 0 False = Some 0"
  by code_simp+

text \<open>An end-of-file chunk is sought from the end also when an earlier chunk has already replaced these
  lines: its new line is lost without an error.\<close>

lemma eof_chunk_overlaps:
  "new_contents_of (lit ''a'' @ [newline] @ lit ''b'' @ [newline]) (lit ''f'')
     [\<lparr>change_context = None, old_lines = [lit ''a'', lit ''b''], new_lines = [lit ''x''], is_end_of_file = False\<rparr>,
      \<lparr>change_context = None, old_lines = [lit ''b''], new_lines = [lit ''y''], is_end_of_file = True\<rparr>] =
   Inr (lit ''x'' @ [newline])"
  by code_simp

text \<open>A file whose last line is empty loses that line with any update.\<close>

lemma blank_last_line_lost:
  "new_contents_of (lit ''a'' @ [newline, newline]) (lit ''f'')
     [\<lparr>change_context = None, old_lines = [lit ''a''], new_lines = [lit ''b''], is_end_of_file = False\<rparr>] =
   Inr (lit ''b'' @ [newline])"
  by code_simp

section \<open>Properties\<close>








end
