(* ===== verification/Patch_Apply.thy ===== *)
theory Patch_Apply
  imports Patch_Text Utf8
begin

text \<open>
  Applying a parsed patch to a file system (\<^verbatim>\<open>apply-patch/src/lib.rs\<close>).  The executor's file system
  and the path URIs, which wrap the \<^verbatim>\<open>url\<close> crate, are parameters: a record of operations over an
  abstract state.  The model returns the new state, the delta of committed changes and the result
  of every operation, so that each early return of the source is a branch.

  The lemmas relate the delta to what happened to the files: an exact delta replays to the final
  files and reverts to the initial ones, also when the application fails half way; on a file system
  of regular files the application is a simple function of the files.
\<close>

section \<open>The file system interface\<close>

record create_directory_options =
  create_recursive :: bool

record remove_options =
  remove_recursive :: bool
  remove_force :: bool

record file_metadata =
  is_directory :: bool
  is_file :: bool
  is_symlink :: bool
  file_size :: nat
  created_at_ms :: int
  modified_at_ms :: int

text \<open>What the code uses of a path URI: \<open>join\<close> with the text of its error, \<open>parent\<close> and
  \<open>inferred_native_path_string\<close>; \<open>to_path_buf\<close> is the latter as a path.\<close>

record 'u path_uri_ops =
  uri_join :: "'u \<Rightarrow> rstring \<Rightarrow> rstring + 'u"
  uri_parent :: "'u \<Rightarrow> 'u option"
  inferred_native_path_string :: "'u \<Rightarrow> rstring"

text \<open>The operations of \<open>ExecutorFileSystem\<close> that a patch uses, for a fixed sandbox context.\<close>

record ('s, 'u) executor_file_system = "'u path_uri_ops" +
  read_file :: "'s \<Rightarrow> 'u \<Rightarrow> io_error + byte list"
  write_file :: "'s \<Rightarrow> 'u \<Rightarrow> byte list \<Rightarrow> 's \<times> (io_error + unit)"
  create_directory :: "'s \<Rightarrow> 'u \<Rightarrow> create_directory_options \<Rightarrow> 's \<times> (io_error + unit)"
  get_metadata :: "'s \<Rightarrow> 'u \<Rightarrow> io_error + file_metadata"
  remove_path :: "'s \<Rightarrow> 'u \<Rightarrow> remove_options \<Rightarrow> 's \<times> (io_error + unit)"

definition utf8_error_text :: "utf8_error \<Rightarrow> rstring" where
  "utf8_error_text e =
     (case ue_error_len e of
        Some n \<Rightarrow> lit ''invalid utf-8 sequence of '' @ fmt_nat n @ lit '' bytes from index '' @ fmt_nat (ue_valid_up_to e)
      | None \<Rightarrow> lit ''incomplete utf-8 byte sequence from index '' @ fmt_nat (ue_valid_up_to e))"

definition read_file_text :: "('s, 'u) executor_file_system \<Rightarrow> 's \<Rightarrow> 'u \<Rightarrow> io_error + rstring" where
  "read_file_text fs s u =
     bind_res (read_file fs s u) (\<lambda>bytes.
       case from_utf8 bytes of
         Inr t \<Rightarrow> Inr t
       | Inl e \<Rightarrow> Inl \<lparr>io_kind = InvalidData, io_text = utf8_error_text e\<rparr>)"

abbreviation to_path_buf :: "('s, 'u) executor_file_system \<Rightarrow> 'u \<Rightarrow> path" where
  "to_path_buf fs \<equiv> inferred_native_path_string fs"

section \<open>Errors\<close>

text \<open>\<open>Panicked\<close> is no value of the source: it marks a panic of \<open>new_contents_of\<close>.\<close>

datatype apply_patch_error =
    ParseError parse_error
  | IoError (io_context: rstring) (io_source: io_error)
  | ComputeReplacementsError rstring
  | PathUri rstring
  | ImplicitInvocation
  | Panicked

fun is_permission_denied :: "apply_patch_error \<Rightarrow> bool" where
  "is_permission_denied (IoError _ e) \<longleftrightarrow> io_kind e = PermissionDenied"
| "is_permission_denied _ \<longleftrightarrow> False"

definition apply_patch_error_from_io :: "io_error \<Rightarrow> apply_patch_error" where
  "apply_patch_error_from_io e = IoError (lit ''I/O error'') \<lparr>io_kind = io_kind e, io_text = io_text e\<rparr>"

fun parse_error_text :: "parse_error \<Rightarrow> rstring" where
  "parse_error_text (InvalidPatchError m) = lit ''invalid patch: '' @ m"
| "parse_error_text (InvalidHunkError m n) = lit ''invalid hunk at line '' @ fmt_nat n @ lit '', '' @ m"

fun apply_patch_error_text :: "apply_patch_error \<Rightarrow> rstring" where
  "apply_patch_error_text (ParseError e) = parse_error_text e"
| "apply_patch_error_text (IoError c e) = c @ lit '': '' @ io_text e"
| "apply_patch_error_text (ComputeReplacementsError m) = m"
| "apply_patch_error_text (PathUri m) = m"
| "apply_patch_error_text ImplicitInvocation =
     lit ''patch detected without explicit call to apply_patch. Rerun as ['' @ [34] @ lit ''apply_patch'' @ [34] @
     lit '', '' @ [34] @ lit ''<patch>'' @ [34] @ lit '']''"
| "apply_patch_error_text Panicked = []"

text \<open>The \<open>anyhow\<close> errors of the application: a plain message, an I/O error with a context, or an error
  of the two kinds that \<open>?\<close> converts.\<close>

datatype anyhow_error =
    Bail rstring
  | WithContext rstring io_error
  | FromApplyPatchError apply_patch_error
  | FromPathUriError rstring

fun anyhow_text :: "anyhow_error \<Rightarrow> rstring" where
  "anyhow_text (Bail m) = m"
| "anyhow_text (WithContext c _) = c"
| "anyhow_text (FromApplyPatchError e) = apply_patch_error_text e"
| "anyhow_text (FromPathUriError m) = m"

text \<open>The conversion at the end of \<open>apply_hunks\<close>: an I/O error is found behind its context, every other
  error becomes the source of an I/O error of kind other.\<close>

fun error_of_anyhow :: "anyhow_error \<Rightarrow> apply_patch_error" where
  "error_of_anyhow (WithContext _ e) = apply_patch_error_from_io e"
| "error_of_anyhow e = IoError (anyhow_text e) \<lparr>io_kind = OtherKind, io_text = anyhow_text e\<rparr>"

section \<open>Deltas\<close>

datatype applied_patch_file_change =
    AddChange rstring "rstring option"
  | DeleteChange rstring
  | UpdateChange "path option" rstring "rstring option" rstring

type_synonym applied_patch_change = "path \<times> applied_patch_file_change"

record applied_patch_delta =
  changes :: "applied_patch_change list"
  exact :: bool

definition empty_delta :: applied_patch_delta where
  "empty_delta = \<lparr>changes = [], exact = True\<rparr>"

definition append_delta :: "applied_patch_delta \<Rightarrow> applied_patch_delta \<Rightarrow> applied_patch_delta" where
  "append_delta d d' = \<lparr>changes = changes d @ changes d', exact = (exact d \<and> exact d')\<rparr>"

definition push_change :: "applied_patch_delta \<Rightarrow> path \<Rightarrow> applied_patch_file_change \<Rightarrow> applied_patch_delta" where
  "push_change d p c = d\<lparr>changes := changes d @ [(p, c)]\<rparr>"

record affected_paths =
  added :: "path list"
  modified :: "path list"
  deleted :: "path list"

record applied_patch =
  original_contents :: rstring
  new_contents :: rstring

section \<open>Operations\<close>

definition path_is_a_directory :: io_error where
  "path_is_a_directory = \<lparr>io_kind = InvalidInput, io_text = lit ''path is a directory''\<rparr>"

definition ensure_not_directory :: "('s, 'u) executor_file_system \<Rightarrow> 's \<Rightarrow> 'u \<Rightarrow> io_error + unit" where
  "ensure_not_directory fs s u =
     bind_res (get_metadata fs s u) (\<lambda>metadata.
       if is_directory metadata then Inl path_is_a_directory else Inr ())"

definition remove_failure_was_side_effect_free ::
    "('s, 'u) executor_file_system \<Rightarrow> 's \<Rightarrow> 'u \<Rightarrow> rstring option \<Rightarrow> bool" where
  "remove_failure_was_side_effect_free fs s u expected_content =
     (case expected_content of
        Some c \<Rightarrow> (case read_file_text fs s u of Inr content \<Rightarrow> content = c | Inl _ \<Rightarrow> False)
      | None \<Rightarrow> False)"

definition note_existing_path_delta_support ::
    "('s, 'u) executor_file_system \<Rightarrow> 's \<Rightarrow> 'u \<Rightarrow> bool \<Rightarrow> bool" where
  "note_existing_path_delta_support fs s u ex =
     (case get_metadata fs s u of
        Inr metadata \<Rightarrow> if is_file metadata \<and> \<not> is_symlink metadata then ex else False
      | Inl e \<Rightarrow> if io_kind e = NotFound then ex else False)"

definition read_optional_file_text_for_delta ::
    "('s, 'u) executor_file_system \<Rightarrow> 's \<Rightarrow> 'u \<Rightarrow> bool \<Rightarrow> bool \<times> rstring option" where
  "read_optional_file_text_for_delta fs s u ex =
     (let ex = note_existing_path_delta_support fs s u ex in
      case read_file_text fs s u of
        Inr content \<Rightarrow> (ex, Some content)
      | Inl e \<Rightarrow> if io_kind e = NotFound then (ex, None) else (False, None))"

definition failed_write :: "('s, 'u) executor_file_system \<Rightarrow> 'u \<Rightarrow> rstring" where
  "failed_write fs u = lit ''Failed to write file '' @ inferred_native_path_string fs u"

text \<open>\<open>Result::with_context\<close> on an I/O result.\<close>

definition with_context :: "rstring \<Rightarrow> io_error + 'a \<Rightarrow> anyhow_error + 'a" where
  "with_context c r = (case r of Inr x \<Rightarrow> Inr x | Inl e \<Rightarrow> Inl (WithContext c e))"

definition write_file_with_missing_parent_retry ::
    "('s, 'u) executor_file_system \<Rightarrow> 's \<Rightarrow> 'u \<Rightarrow> byte list \<Rightarrow> 's \<times> (anyhow_error + unit)" where
  "write_file_with_missing_parent_retry fs s u contents =
     (case write_file fs s u contents of
        (s, Inr _) \<Rightarrow> (s, Inr ())
      | (s, Inl e) \<Rightarrow>
          if io_kind e = NotFound then
            (case (case uri_parent fs u of
                     Some parent \<Rightarrow> create_directory fs s parent \<lparr>create_recursive = True\<rparr>
                   | None \<Rightarrow> (s, Inr ())) of
               (s, Inl e) \<Rightarrow>
                 (s, Inl (WithContext (lit ''Failed to create parent directories for '' @ inferred_native_path_string fs u) e))
             | (s, Inr _) \<Rightarrow> map_prod id (with_context (failed_write fs u)) (write_file fs s u contents))
          else (s, Inl (WithContext (failed_write fs u) e)))"

definition derive_new_contents_from_chunks ::
    "('s, 'u) executor_file_system \<Rightarrow> 's \<Rightarrow> 'u \<Rightarrow> update_file_chunk list \<Rightarrow> apply_patch_error + applied_patch" where
  "derive_new_contents_from_chunks fs s u chunks =
     (case read_file_text fs s u of
        Inl e \<Rightarrow> Inl (IoError (lit ''Failed to read file to update '' @ inferred_native_path_string fs u) e)
      | Inr contents \<Rightarrow>
          (case new_contents_of contents (inferred_native_path_string fs u) chunks of
             Inl (ComputeReplacements m) \<Rightarrow> Inl (ComputeReplacementsError m)
           | Inl Panic \<Rightarrow> Inl Panicked
           | Inr new \<Rightarrow> Inr \<lparr>original_contents = contents, new_contents = new\<rparr>))"

text \<open>The removal that ends a deletion and a rename: the check that the path is no directory, the
  removal, and the update of the exactness when it fails.\<close>

definition remove_checked ::
    "('s, 'u) executor_file_system \<Rightarrow> 's \<Rightarrow> 'u \<Rightarrow> rstring \<Rightarrow> rstring option \<Rightarrow> applied_patch_delta \<Rightarrow>
     's \<times> applied_patch_delta \<times> (anyhow_error + unit)" where
  "remove_checked fs s u msg expected d =
     (case ensure_not_directory fs s u of
        Inl e \<Rightarrow> (s, d, Inl (WithContext msg e))
      | Inr _ \<Rightarrow>
          (case remove_path fs s u \<lparr>remove_recursive = False, remove_force = False\<rparr> of
             (s, Inl e) \<Rightarrow>
               (s, d\<lparr>exact := exact d \<and> remove_failure_was_side_effect_free fs s u expected\<rparr>, Inl (WithContext msg e))
           | (s, Inr _) \<Rightarrow> (s, d, Inr ())))"

type_synonym 's hunk_result = "'s \<times> applied_patch_delta \<times> (anyhow_error + affected_paths)"

definition apply_add_file ::
    "('s, 'u) executor_file_system \<Rightarrow> 's \<Rightarrow> 'u \<Rightarrow> path \<Rightarrow> rstring \<Rightarrow> applied_patch_delta \<Rightarrow> affected_paths \<Rightarrow> 's hunk_result"
  where
  "apply_add_file fs s u affected_path contents d a =
     (let (exact', overwritten_content) = read_optional_file_text_for_delta fs s u (exact d);
          d = d\<lparr>exact := exact'\<rparr>
      in case write_file_with_missing_parent_retry fs s u (utf8_bytes contents) of
           (s, Inl e) \<Rightarrow> (s, d\<lparr>exact := False\<rparr>, Inl e)
         | (s, Inr _) \<Rightarrow>
             (s, push_change d (to_path_buf fs u) (AddChange contents overwritten_content),
              Inr (a\<lparr>added := added a @ [affected_path]\<rparr>)))"

definition apply_delete_file ::
    "('s, 'u) executor_file_system \<Rightarrow> 's \<Rightarrow> 'u \<Rightarrow> path \<Rightarrow> applied_patch_delta \<Rightarrow> affected_paths \<Rightarrow> 's hunk_result" where
  "apply_delete_file fs s u affected_path d a =
     (let d = d\<lparr>exact := note_existing_path_delta_support fs s u (exact d)\<rparr>;
          deleted_content = (case read_file_text fs s u of Inr c \<Rightarrow> Some c | Inl _ \<Rightarrow> None);
          d = (if deleted_content = None then d\<lparr>exact := False\<rparr> else d)
      in case remove_checked fs s u (lit ''Failed to delete file '' @ inferred_native_path_string fs u) deleted_content d of
           (s, d, Inl e) \<Rightarrow> (s, d, Inl e)
         | (s, d, Inr _) \<Rightarrow>
             (s, (case deleted_content of
                    Some content \<Rightarrow> push_change d (to_path_buf fs u) (DeleteChange content)
                  | None \<Rightarrow> d),
              Inr (a\<lparr>deleted := deleted a @ [affected_path]\<rparr>)))"

definition apply_rename ::
    "('s, 'u) executor_file_system \<Rightarrow> 's \<Rightarrow> 'u \<Rightarrow> 'u \<Rightarrow> path \<Rightarrow> applied_patch \<Rightarrow> applied_patch_delta \<Rightarrow> affected_paths \<Rightarrow>
     's hunk_result" where
  "apply_rename fs s u dest_uri affected_path ap d a =
     (let (exact', overwritten) = read_optional_file_text_for_delta fs s dest_uri (exact d);
          d = d\<lparr>exact := exact'\<rparr>
      in case write_file_with_missing_parent_retry fs s dest_uri (utf8_bytes (new_contents ap)) of
           (s, Inl e) \<Rightarrow> (s, d\<lparr>exact := False\<rparr>, Inl e)
         | (s, Inr _) \<Rightarrow>
             (let dest_write_change_index = length (changes d);
                  d = push_change d (to_path_buf fs dest_uri) (AddChange (new_contents ap) overwritten)
              in case remove_checked fs s u (lit ''Failed to remove original '' @ inferred_native_path_string fs u)
                        (Some (original_contents ap)) d of
                   (s, d, Inl e) \<Rightarrow> (s, d, Inl e)
                 | (s, d, Inr _) \<Rightarrow>
                     (s, d\<lparr>changes := (changes d)[dest_write_change_index :=
                            (to_path_buf fs u,
                             UpdateChange (Some (to_path_buf fs dest_uri)) (original_contents ap) overwritten (new_contents ap))]\<rparr>,
                      Inr (a\<lparr>modified := modified a @ [affected_path]\<rparr>))))"

definition apply_update_file ::
    "('s, 'u) executor_file_system \<Rightarrow> 's \<Rightarrow> 'u \<Rightarrow> 'u \<Rightarrow> path \<Rightarrow> path option \<Rightarrow> update_file_chunk list \<Rightarrow>
     applied_patch_delta \<Rightarrow> affected_paths \<Rightarrow> 's hunk_result" where
  "apply_update_file fs s cwd u affected_path move_path chunks d a =
     (let d = d\<lparr>exact := note_existing_path_delta_support fs s u (exact d)\<rparr> in
      case derive_new_contents_from_chunks fs s u chunks of
        Inl e \<Rightarrow> (s, d, Inl (FromApplyPatchError e))
      | Inr ap \<Rightarrow>
          (case move_path of
             Some dest \<Rightarrow>
               (case uri_join fs cwd dest of
                  Inl m \<Rightarrow> (s, d, Inl (FromPathUriError m))
                | Inr dest_uri \<Rightarrow> apply_rename fs s u dest_uri affected_path ap d a)
           | None \<Rightarrow>
               (case write_file fs s u (utf8_bytes (new_contents ap)) of
                  (s, Inl e) \<Rightarrow> (s, d\<lparr>exact := False\<rparr>, Inl (WithContext (failed_write fs u) e))
                | (s, Inr _) \<Rightarrow>
                    (s, push_change d (to_path_buf fs u) (UpdateChange None (original_contents ap) None (new_contents ap)),
                     Inr (a\<lparr>modified := modified a @ [affected_path]\<rparr>)))))"

definition apply_hunk ::
    "('s, 'u) executor_file_system \<Rightarrow> 'u \<Rightarrow> hunk \<Rightarrow> 's \<Rightarrow> applied_patch_delta \<Rightarrow> affected_paths \<Rightarrow> 's hunk_result" where
  "apply_hunk fs cwd h s d a =
     (case uri_join fs cwd (hunk_source_path h) of
        Inl m \<Rightarrow> (s, d, Inl (FromPathUriError m))
      | Inr u \<Rightarrow>
          (case h of
             AddFile _ contents \<Rightarrow> apply_add_file fs s u (hunk_path h) contents d a
           | DeleteFile _ \<Rightarrow> apply_delete_file fs s u (hunk_path h) d a
           | UpdateFile _ move_path chunks \<Rightarrow> apply_update_file fs s cwd u (hunk_path h) move_path chunks d a))"

fun apply_hunk_loop ::
    "('s, 'u) executor_file_system \<Rightarrow> 'u \<Rightarrow> hunk list \<Rightarrow> 's \<Rightarrow> applied_patch_delta \<Rightarrow> affected_paths \<Rightarrow> 's hunk_result" where
  "apply_hunk_loop fs cwd [] s d a = (s, d, Inr a)"
| "apply_hunk_loop fs cwd (h # hs) s d a =
     (case apply_hunk fs cwd h s d a of
        (s, d, Inl e) \<Rightarrow> (s, d, Inl e)
      | (s, d, Inr a) \<Rightarrow> apply_hunk_loop fs cwd hs s d a)"

definition no_affected :: affected_paths where
  "no_affected = \<lparr>added = [], modified = [], deleted = []\<rparr>"

definition apply_hunks_to_files ::
    "('s, 'u) executor_file_system \<Rightarrow> 'u \<Rightarrow> hunk list \<Rightarrow> 's \<Rightarrow> applied_patch_delta \<Rightarrow> 's hunk_result" where
  "apply_hunks_to_files fs cwd hs s d =
     (if hs = [] then (s, d, Inl (Bail (lit ''No files were modified.'')))
      else apply_hunk_loop fs cwd hs s d no_affected)"

section \<open>Reporting\<close>

text \<open>A writer is a parameter: it takes a line (without its line end) and may fail.\<close>

type_synonym 'w writer = "'w \<Rightarrow> rstring \<Rightarrow> 'w \<times> (io_error + unit)"

fun write_lines :: "'w writer \<Rightarrow> 'w \<Rightarrow> rstring list \<Rightarrow> 'w \<times> (io_error + unit)" where
  "write_lines wr w [] = (w, Inr ())"
| "write_lines wr w (l # ls) =
     (case wr w l of (w, Inl e) \<Rightarrow> (w, Inl e) | (w, Inr _) \<Rightarrow> write_lines wr w ls)"

definition summary_lines :: "affected_paths \<Rightarrow> rstring list" where
  "summary_lines a =
     lit ''Success. Updated the following files:'' #
     map (\<lambda>p. lit ''A '' @ p) (added a) @ map (\<lambda>p. lit ''M '' @ p) (modified a) @ map (\<lambda>p. lit ''D '' @ p) (deleted a)"

definition print_summary :: "'w writer \<Rightarrow> 'w \<Rightarrow> affected_paths \<Rightarrow> 'w \<times> (io_error + unit)" where
  "print_summary wr w a = write_lines wr w (summary_lines a)"

record apply_patch_failure =
  failure_error :: apply_patch_error
  failure_delta :: applied_patch_delta

definition without_delta :: "apply_patch_error \<Rightarrow> apply_patch_failure" where
  "without_delta e = \<lparr>failure_error = e, failure_delta = empty_delta\<rparr>"

text \<open>The state of a run: the file system, standard output and standard error.\<close>

type_synonym ('s, 'w) run_result = "'s \<times> 'w \<times> 'w \<times> (apply_patch_failure + applied_patch_delta)"

definition apply_hunks ::
    "('s, 'u) executor_file_system \<Rightarrow> 'w writer \<Rightarrow> 'u \<Rightarrow> hunk list \<Rightarrow> 's \<Rightarrow> 'w \<Rightarrow> 'w \<Rightarrow> ('s, 'w) run_result" where
  "apply_hunks fs wr cwd hs s stdout stderr =
     (case apply_hunks_to_files fs cwd hs s empty_delta of
        (s, d, Inr a) \<Rightarrow>
          (case print_summary wr stdout a of
             (stdout, Inl e) \<Rightarrow> (s, stdout, stderr, Inl \<lparr>failure_error = apply_patch_error_from_io e, failure_delta = d\<rparr>)
           | (stdout, Inr _) \<Rightarrow> (s, stdout, stderr, Inr d))
      | (s, d, Inl error) \<Rightarrow>
          (case wr stderr (anyhow_text error) of
             (stderr, Inl e) \<Rightarrow> (s, stdout, stderr, Inl \<lparr>failure_error = apply_patch_error_from_io e, failure_delta = d\<rparr>)
           | (stderr, Inr _) \<Rightarrow> (s, stdout, stderr, Inl \<lparr>failure_error = error_of_anyhow error, failure_delta = d\<rparr>)))"

fun invalid_patch_message :: "parse_error \<Rightarrow> rstring" where
  "invalid_patch_message (InvalidPatchError m) = lit ''Invalid patch: '' @ m"
| "invalid_patch_message (InvalidHunkError m n) = lit ''Invalid patch hunk on line '' @ fmt_nat n @ lit '': '' @ m"

definition apply_patch ::
    "('s, 'u) executor_file_system \<Rightarrow> 'w writer \<Rightarrow> 'u \<Rightarrow> rstring \<Rightarrow> 's \<Rightarrow> 'w \<Rightarrow> 'w \<Rightarrow> ('s, 'w) run_result" where
  "apply_patch fs wr cwd patch s stdout stderr =
     (case parse_patch patch of
        Inr source \<Rightarrow> apply_hunks fs wr cwd (arg_hunks source) s stdout stderr
      | Inl e \<Rightarrow>
          (case wr stderr (invalid_patch_message e) of
             (stderr, Inl io) \<Rightarrow> (s, stdout, stderr, Inl (without_delta (apply_patch_error_from_io io)))
           | (stderr, Inr _) \<Rightarrow> (s, stdout, stderr, Inl (without_delta (ParseError e)))))"


section \<open>What a delta says about the files\<close>

text \<open>The regular files of a state, by path, and what applying a patch relies on: the operations act on
  the named file only, a regular file is read as its contents, a write that does not find its path
  changes nothing, directories are no files, and a failing removal either did nothing or removed
  the file, which then cannot be read.\<close>

type_synonym files = "path \<Rightarrow> byte list option"

definition file_laws :: "('s, 'u) executor_file_system \<Rightarrow> ('s \<Rightarrow> files) \<Rightarrow> bool" where
  "file_laws fs view \<longleftrightarrow>
     (\<forall>s u m b. get_metadata fs s u = Inr m \<longrightarrow> is_file m \<longrightarrow> \<not> is_symlink m \<longrightarrow> read_file fs s u = Inr b \<longrightarrow>
        view s (to_path_buf fs u) = Some b) \<and>
     (\<forall>s u e. get_metadata fs s u = Inl e \<longrightarrow> io_kind e = NotFound \<longrightarrow>
        (\<exists>e'. read_file fs s u = Inl e' \<and> io_kind e' = NotFound)) \<and>
     (\<forall>s u e. read_file fs s u = Inl e \<longrightarrow> io_kind e = NotFound \<longrightarrow> view s (to_path_buf fs u) = None) \<and>
     (\<forall>s u b s'. write_file fs s u b = (s', Inr ()) \<longrightarrow> view s' = (view s)(to_path_buf fs u \<mapsto> b)) \<and>
     (\<forall>s u b s' e. write_file fs s u b = (s', Inl e) \<longrightarrow> io_kind e = NotFound \<longrightarrow> view s' = view s) \<and>
     (\<forall>s u opt. view (fst (create_directory fs s u opt)) = view s) \<and>
     (\<forall>s u opt s'. remove_path fs s u opt = (s', Inr ()) \<longrightarrow> view s' = (view s)(to_path_buf fs u := None)) \<and>
     (\<forall>s u opt s' e. remove_path fs s u opt = (s', Inl e) \<longrightarrow>
        view s' = view s \<or> (\<exists>e'. read_file fs s' u = Inl e'))"

text \<open>Doing the changes of a delta, and undoing them from the last to the first.\<close>

fun replay_change :: "applied_patch_change \<Rightarrow> files \<Rightarrow> files" where
  "replay_change (p, AddChange c _) v = v(p \<mapsto> utf8_bytes c)"
| "replay_change (p, DeleteChange _) v = v(p := None)"
| "replay_change (p, UpdateChange None _ _ new) v = v(p \<mapsto> utf8_bytes new)"
| "replay_change (p, UpdateChange (Some dest) _ _ new) v = v(dest \<mapsto> utf8_bytes new, p := None)"

fun revert_change :: "applied_patch_change \<Rightarrow> files \<Rightarrow> files" where
  "revert_change (p, AddChange _ overwritten) v = v(p := map_option utf8_bytes overwritten)"
| "revert_change (p, DeleteChange c) v = v(p \<mapsto> utf8_bytes c)"
| "revert_change (p, UpdateChange None old _ _) v = v(p \<mapsto> utf8_bytes old)"
| "revert_change (p, UpdateChange (Some dest) old overwritten _) v =
     v(dest := map_option utf8_bytes overwritten, p \<mapsto> utf8_bytes old)"

definition replay :: "applied_patch_change list \<Rightarrow> files \<Rightarrow> files" where
  "replay cs v = fold replay_change cs v"

definition revert :: "applied_patch_change list \<Rightarrow> files \<Rightarrow> files" where
  "revert cs v = foldr revert_change cs v"

lemma replay_simps [simp]: "replay [] v = v" "replay (c # cs) v = replay cs (replay_change c v)"
    "replay (cs @ cs') v = replay cs' (replay cs v)"
  and revert_simps [simp]: "revert [] v = v" "revert (c # cs) v = revert_change c (revert cs v)"
    "revert (cs @ cs') v = revert cs (revert cs' v)"
  by (simp_all add: replay_def revert_def)

definition difference :: "applied_patch_change list \<Rightarrow> files \<Rightarrow> files \<Rightarrow> bool" where
  "difference cs v v' \<longleftrightarrow> v' = replay cs v \<and> v = revert cs v'"

lemma difference_Nil [simp]: "difference [] v v' \<longleftrightarrow> v' = v"
  by (auto simp: difference_def)

lemma difference_append: "difference cs v v1 \<Longrightarrow> difference cs' v1 v2 \<Longrightarrow> difference (cs @ cs') v v2"
  unfolding difference_def replay_simps revert_simps by metis

text \<open>From one state and delta to a later one: changes are only added, exactness is never regained,
  and while it lasts the new changes are the difference of the files.\<close>

definition tracks :: "('s \<Rightarrow> files) \<Rightarrow> 's \<Rightarrow> applied_patch_delta \<Rightarrow> 's \<Rightarrow> applied_patch_delta \<Rightarrow> bool" where
  "tracks view s d s' d' \<longleftrightarrow>
     (\<exists>cs. changes d' = changes d @ cs \<and> (exact d' \<longrightarrow> exact d \<and> difference cs (view s) (view s')))"

lemma tracks_refl: "changes d' = changes d \<Longrightarrow> exact d' \<longrightarrow> exact d \<and> view s' = view s \<Longrightarrow> tracks view s d s' d'"
  by (simp add: tracks_def)

lemma tracks_trans: "tracks view s d s1 d1 \<Longrightarrow> tracks view s1 d1 s2 d2 \<Longrightarrow> tracks view s d s2 d2"
  unfolding tracks_def by (auto intro: difference_append)

lemma tracks_change:
  assumes "changes d' = changes d @ [c]" and "exact d' \<Longrightarrow> exact d \<and> difference [c] (view s) (view s')"
  shows "tracks view s d s' d'"
  unfolding tracks_def using assms by blast

lemma write_ok:
  "file_laws fs view \<Longrightarrow> write_file fs s u b = (s', Inr x) \<Longrightarrow> view s' = (view s)(to_path_buf fs u \<mapsto> b)"
  by (cases x) (auto simp: file_laws_def)

lemma write_not_found:
  "file_laws fs view \<Longrightarrow> write_file fs s u b = (s', Inl e) \<Longrightarrow> io_kind e = NotFound \<Longrightarrow> view s' = view s"
  by (auto simp: file_laws_def)

lemma create_directory_files:
  "file_laws fs view \<Longrightarrow> create_directory fs s u opt = (s', r) \<Longrightarrow> view s' = view s"
  unfolding file_laws_def by (metis fst_conv)

lemma remove_ok:
  "file_laws fs view \<Longrightarrow> remove_path fs s u opt = (s', Inr x) \<Longrightarrow> view s' = (view s)(to_path_buf fs u := None)"
  by (cases x) (auto simp: file_laws_def)

lemma read_file_text_bytes: "read_file_text fs s u = Inr t \<Longrightarrow> read_file fs s u = Inr (utf8_bytes t)"
  by (cases "read_file fs s u") (auto simp: read_file_text_def utf8_bytes_from split: sum.splits)

lemma read_file_text_not_found:
  "read_file_text fs s u = Inl e \<Longrightarrow> io_kind e = NotFound \<Longrightarrow> read_file fs s u = Inl e"
  by (cases "read_file fs s u") (auto simp: read_file_text_def split: sum.splits)

lemma remove_fail:
  assumes "file_laws fs view" and "remove_path fs s u opt = (s', Inl e)"
    and "remove_failure_was_side_effect_free fs s' u expected"
  shows "view s' = view s"
  using assms by (fastforce simp: file_laws_def remove_failure_was_side_effect_free_def
      dest: read_file_text_bytes split: option.splits sum.splits)

lemma exact_read:
  assumes "file_laws fs view" and "note_existing_path_delta_support fs s u ex" and "read_file_text fs s u = Inr t"
  shows "ex \<and> view s (to_path_buf fs u) = Some (utf8_bytes t)"
  using assms read_file_text_bytes [OF assms(3)]
  by (fastforce simp: file_laws_def note_existing_path_delta_support_def split: sum.splits if_splits)

lemma exact_read_optional:
  assumes "file_laws fs view" and "read_optional_file_text_for_delta fs s u ex = (True, c)"
  shows "ex \<and> view s (to_path_buf fs u) = map_option utf8_bytes c"
proof (cases "read_file_text fs s u")
  case (Inr t)
  then show ?thesis using assms exact_read [OF assms(1)]
    by (auto simp: read_optional_file_text_for_delta_def)
next
  case (Inl e)
  then have "io_kind e = NotFound" "c = None" "note_existing_path_delta_support fs s u ex"
    using assms(2) by (auto simp: read_optional_file_text_for_delta_def split: if_splits)
  moreover from this Inl have "read_file fs s u = Inl e" by (simp add: read_file_text_not_found)
  ultimately show ?thesis using assms(1)
    by (auto simp: file_laws_def note_existing_path_delta_support_def split: sum.splits if_splits)
qed

lemma write_retry_ok:
  assumes "file_laws fs view" and "write_file_with_missing_parent_retry fs s u b = (s', Inr x)"
  shows "view s' = (view s)(to_path_buf fs u \<mapsto> b)"
proof -
  obtain s1 r1 where w: "write_file fs s u b = (s1, r1)" by (cases "write_file fs s u b")
  show ?thesis
  proof (cases r1)
    case (Inr y)
    then show ?thesis using assms w by (auto simp: write_file_with_missing_parent_retry_def write_ok)
  next
    case (Inl e)
    obtain s2 r2 where c: "(case uri_parent fs u of
        Some parent \<Rightarrow> create_directory fs s1 parent \<lparr>create_recursive = True\<rparr> | None \<Rightarrow> (s1, Inr ())) = (s2, r2)"
      by fastforce
    have "view s2 = view s1"
      using c create_directory_files [OF assms(1)] by (auto split: option.splits)
    moreover have "io_kind e = NotFound" "write_file fs s2 u b = (s', Inr ())"
      using assms(2) w Inl c by (cases "write_file fs s2 u b";
        auto simp: write_file_with_missing_parent_retry_def with_context_def split: if_splits sum.splits)+
    ultimately show ?thesis
      using write_not_found [OF assms(1)] write_ok [OF assms(1)] w Inl by auto
  qed
qed

lemma remove_checked_tracks:
  assumes "file_laws fs view" and "remove_checked fs s u msg expected d = (s', d', r)"
  shows "changes d' = changes d"
    and "case r of
        Inl _ \<Rightarrow> exact d' \<longrightarrow> exact d \<and> view s' = view s
      | Inr _ \<Rightarrow> exact d' = exact d \<and> view s' = (view s)(to_path_buf fs u := None)"
  using assms remove_ok [OF assms(1)] remove_fail [OF assms(1)]
  by (auto simp: remove_checked_def split: sum.splits prod.splits)

lemma add_file_tracks:
  assumes "file_laws fs view" and "apply_add_file fs s u p c d a = (s', d', r)"
  shows "tracks view s d s' d'"
proof -
  obtain ex ow where o: "read_optional_file_text_for_delta fs s u (exact d) = (ex, ow)" by fastforce
  obtain s1 r1 where w: "write_file_with_missing_parent_retry fs s u (utf8_bytes c) = (s1, r1)" by fastforce
  show ?thesis
  proof (cases r1)
    case (Inl e)
    then show ?thesis using assms(2) o w by (auto simp: apply_add_file_def intro: tracks_refl)
  next
    case (Inr x)
    then have *: "s' = s1" "d' = push_change (d\<lparr>exact := ex\<rparr>) (to_path_buf fs u) (AddChange c ow)"
      using assms(2) o w by (auto simp: apply_add_file_def)
    have v: "view s1 = (view s)(to_path_buf fs u \<mapsto> utf8_bytes c)"
      using write_retry_ok [OF assms(1)] w Inr by simp
    show ?thesis
    proof (rule tracks_change)
      assume "exact d'"
      then show "exact d \<and> difference [(to_path_buf fs u, AddChange c ow)] (view s) (view s')"
        using exact_read_optional [OF assms(1)] o * v by (auto simp: push_change_def difference_def)
    qed (simp add: * push_change_def)
  qed
qed

lemma delete_file_tracks:
  assumes "file_laws fs view" and "apply_delete_file fs s u p d a = (s', d', r)"
  shows "tracks view s d s' d'"
proof (cases "read_file_text fs s u")
  case (Inl e)
  define d1 where "d1 = d\<lparr>exact := False\<rparr>"
  obtain s2 d2 r2 where c: "remove_checked fs s u (lit ''Failed to delete file '' @ inferred_native_path_string fs u) None d1 =
      (s2, d2, r2)" by (metis prod_cases3)
  have "changes d' = changes d" "\<not> exact d'"
    using assms(2) Inl c remove_checked_tracks [OF assms(1) c]
    by (auto simp: apply_delete_file_def Let_def d1_def split: sum.splits)
  then show ?thesis by (auto intro: tracks_refl)
next
  case (Inr t)
  define d1 where "d1 = d\<lparr>exact := note_existing_path_delta_support fs s u (exact d)\<rparr>"
  have d1: "exact d \<and> view s (to_path_buf fs u) = Some (utf8_bytes t)" if "exact d1"
    using that exact_read [OF assms(1) _ Inr] by (auto simp: d1_def)
  obtain s2 d2 r2 where c: "remove_checked fs s u (lit ''Failed to delete file '' @ inferred_native_path_string fs u) (Some t) d1 =
      (s2, d2, r2)" by (metis prod_cases3)
  note rc = remove_checked_tracks [OF assms(1) c]
  show ?thesis
  proof (cases r2)
    case (Inl e)
    then have "s' = s2" "d' = d2"
      using assms(2) Inr c by (auto simp: apply_delete_file_def Let_def d1_def [symmetric])
    then show ?thesis using rc Inl d1 by (intro tracks_refl) (auto simp: d1_def)
  next
    case (Inr x)
    then have *: "s' = s2" "d' = push_change d2 (to_path_buf fs u) (DeleteChange t)"
      using assms(2) \<open>read_file_text fs s u = Inr t\<close> c by (auto simp: apply_delete_file_def Let_def d1_def [symmetric])
    then show ?thesis using rc Inr d1
      by (intro tracks_change [of _ _ "(to_path_buf fs u, DeleteChange t)"])
        (auto simp: push_change_def difference_def d1_def)
  qed
qed

lemma rename_tracks:
  assumes "file_laws fs view" and "apply_rename fs s u dest p ap d a = (s', d', r)"
    and "exact d \<Longrightarrow> view s (to_path_buf fs u) = Some (utf8_bytes (original_contents ap))"
  shows "tracks view s d s' d'"
proof -
  obtain ex ow where o: "read_optional_file_text_for_delta fs s dest (exact d) = (ex, ow)" by fastforce
  obtain s1 r1 where w: "write_file_with_missing_parent_retry fs s dest (utf8_bytes (new_contents ap)) = (s1, r1)" by fastforce
  show ?thesis
  proof (cases r1)
    case (Inl e)
    then show ?thesis using assms(2) o w by (auto simp: apply_rename_def intro: tracks_refl)
  next
    case (Inr x)
    let ?add = "(to_path_buf fs dest, AddChange (new_contents ap) ow)"
    let ?upd = "(to_path_buf fs u, UpdateChange (Some (to_path_buf fs dest)) (original_contents ap) ow (new_contents ap))"
    define d1 where "d1 = push_change (d\<lparr>exact := ex\<rparr>) (to_path_buf fs dest) (AddChange (new_contents ap) ow)"
    obtain s2 d2 r2 where c: "remove_checked fs s1 u (lit ''Failed to remove original '' @ inferred_native_path_string fs u)
        (Some (original_contents ap)) d1 = (s2, d2, r2)" by (metis prod_cases3)
    note rc = remove_checked_tracks [OF assms(1) c]
    have v: "view s1 = (view s)(to_path_buf fs dest \<mapsto> utf8_bytes (new_contents ap))"
      using write_retry_ok [OF assms(1)] w Inr by simp
    have ow: "exact d \<and> view s (to_path_buf fs dest) = map_option utf8_bytes ow" if "exact d1"
      using exact_read_optional [OF assms(1)] o that by (auto simp: d1_def push_change_def)
    show ?thesis
    proof (cases r2)
      case Inl2: (Inl e)
      then have "s' = s2" "d' = d2"
        using assms(2) o w Inr c by (auto simp: apply_rename_def Let_def d1_def)
      then show ?thesis using rc Inl2 ow v
        by (intro tracks_change [of _ _ ?add]) (auto simp: d1_def push_change_def difference_def)
    next
      case Inr2: (Inr y)
      then have *: "s' = s2" "d' = d2\<lparr>changes := (changes d2)[length (changes d) := ?upd]\<rparr>"
        using assms(2) o w Inr c by (auto simp: apply_rename_def Let_def d1_def)
      then show ?thesis using rc Inr2 ow v assms(3)
        by (intro tracks_change [of _ _ ?upd]) (auto simp: d1_def push_change_def difference_def)
    qed
  qed
qed

lemma update_file_tracks:
  assumes "file_laws fs view" and "apply_update_file fs s cwd u p mv chunks d a = (s', d', r)"
  shows "tracks view s d s' d'"
proof -
  define d1 where "d1 = d\<lparr>exact := note_existing_path_delta_support fs s u (exact d)\<rparr>"
  have *: "tracks view s d s d1"
    by (auto intro!: tracks_refl simp: d1_def note_existing_path_delta_support_def split: sum.splits if_splits)
  show ?thesis
  proof (cases "derive_new_contents_from_chunks fs s u chunks")
    case (Inl e)
    then show ?thesis using assms(2) * by (auto simp: apply_update_file_def Let_def d1_def [symmetric])
  next
    case (Inr ap)
    then have "read_file_text fs s u = Inr (original_contents ap)"
      by (auto simp: derive_new_contents_from_chunks_def split: sum.splits derive_error.splits)
    then have old: "exact d1 \<Longrightarrow> view s (to_path_buf fs u) = Some (utf8_bytes (original_contents ap))"
      using exact_read [OF assms(1)] by (simp add: d1_def)
    obtain s1 r1 where w: "write_file fs s u (utf8_bytes (new_contents ap)) = (s1, r1)" by fastforce
    have "tracks view s d1 s' d'"
    proof (cases mv)
      case (Some dest)
      then show ?thesis using assms(2) Inr rename_tracks [OF assms(1) _ old]
        by (cases "uri_join fs cwd dest") (auto simp: apply_update_file_def Let_def d1_def [symmetric] intro: tracks_refl)
    next
      case None
      show ?thesis
      proof (cases r1)
        case (Inl e)
        then show ?thesis using assms(2) Inr None w
          by (auto simp: apply_update_file_def Let_def d1_def [symmetric] intro: tracks_refl)
      next
        case Inr2: (Inr x)
        let ?c = "(to_path_buf fs u, UpdateChange None (original_contents ap) None (new_contents ap))"
        show ?thesis using assms(2) Inr None w Inr2 old write_ok [OF assms(1), of s u _ s1 x]
          by (intro tracks_change [of _ _ ?c])
            (auto simp: apply_update_file_def Let_def d1_def [symmetric] push_change_def difference_def)
      qed
    qed
    with * show ?thesis by (rule tracks_trans)
  qed
qed

lemma hunk_tracks: "file_laws fs view \<Longrightarrow> apply_hunk fs cwd h s d a = (s', d', r) \<Longrightarrow> tracks view s d s' d'"
  by (auto simp: apply_hunk_def tracks_refl add_file_tracks delete_file_tracks update_file_tracks
      split: sum.splits hunk.splits)

lemma hunk_loop_tracks:
  "file_laws fs view \<Longrightarrow> apply_hunk_loop fs cwd hs s d a = (s', d', r) \<Longrightarrow> tracks view s d s' d'"
proof (induction hs arbitrary: s d a)
  case (Cons h hs)
  obtain s1 d1 r1 where h: "apply_hunk fs cwd h s d a = (s1, d1, r1)" by (metis prod_cases3)
  note t = hunk_tracks [OF Cons.prems(1) h]
  show ?case
  proof (cases r1)
    case (Inl e)
    then show ?thesis using Cons.prems(2) h t by simp
  next
    case (Inr a1)
    then show ?thesis using Cons h tracks_trans [OF t] by simp
  qed
qed (auto intro: tracks_refl)

section \<open>Applying a patch to regular files\<close>

text \<open>A file system of regular files only, where what should work works: an existing file can be read,
  overwritten and removed, and a new one can be written once its directory has been created.\<close>

definition regular_files :: "('s, 'u) executor_file_system \<Rightarrow> ('s \<Rightarrow> files) \<Rightarrow> bool" where
  "regular_files fs view \<longleftrightarrow> file_laws fs view \<and>
     (\<forall>s u b. view s (to_path_buf fs u) = Some b \<longrightarrow> read_file fs s u = Inr b \<and>
        (\<exists>m. get_metadata fs s u = Inr m \<and> is_file m \<and> \<not> is_symlink m \<and> \<not> is_directory m)) \<and>
     (\<forall>s u. view s (to_path_buf fs u) = None \<longrightarrow>
        (\<exists>e. read_file fs s u = Inl e \<and> io_kind e = NotFound) \<and>
        (\<exists>e. get_metadata fs s u = Inl e \<and> io_kind e = NotFound)) \<and>
     (\<forall>s u b. view s (to_path_buf fs u) \<noteq> None \<longrightarrow> (\<exists>s'. write_file fs s u b = (s', Inr ()))) \<and>
     (\<forall>s u b. (\<exists>s'. write_file fs s u b = (s', Inr ())) \<or>
        (\<exists>s1 e parent s2 s3. write_file fs s u b = (s1, Inl e) \<and> io_kind e = NotFound \<and> uri_parent fs u = Some parent \<and>
           create_directory fs s1 parent \<lparr>create_recursive = True\<rparr> = (s2, Inr ()) \<and> write_file fs s2 u b = (s3, Inr ()))) \<and>
     (\<forall>s u opt. view s (to_path_buf fs u) \<noteq> None \<longrightarrow> (\<exists>s'. remove_path fs s u opt = (s', Inr ())))"

text \<open>What a hunk means for the files, and a patch: the hunks up to the first that cannot be applied.\<close>

fun hunk_files :: "('s, 'u) executor_file_system \<Rightarrow> 'u \<Rightarrow> hunk \<Rightarrow> files \<Rightarrow> files option" where
  "hunk_files fs cwd (AddFile p c) v =
     (case uri_join fs cwd p of Inl _ \<Rightarrow> None | Inr u \<Rightarrow> Some (v(to_path_buf fs u \<mapsto> utf8_bytes c)))"
| "hunk_files fs cwd (DeleteFile p) v =
     (case uri_join fs cwd p of
        Inl _ \<Rightarrow> None
      | Inr u \<Rightarrow> if v (to_path_buf fs u) = None then None else Some (v(to_path_buf fs u := None)))"
| "hunk_files fs cwd (UpdateFile p mv chunks) v =
     (case uri_join fs cwd p of
        Inl _ \<Rightarrow> None
      | Inr u \<Rightarrow>
          (case v (to_path_buf fs u) of
             None \<Rightarrow> None
           | Some b \<Rightarrow>
               (case bind_res (map_sum (\<lambda>_. ()) id (from_utf8 b))
                       (\<lambda>t. map_sum (\<lambda>_. ()) id (new_contents_of t (to_path_buf fs u) chunks)) of
                  Inl _ \<Rightarrow> None
                | Inr new \<Rightarrow>
                    (case mv of
                       None \<Rightarrow> Some (v(to_path_buf fs u \<mapsto> utf8_bytes new))
                     | Some dest \<Rightarrow>
                         (case uri_join fs cwd dest of
                            Inl _ \<Rightarrow> None
                          | Inr w \<Rightarrow> Some (v(to_path_buf fs w \<mapsto> utf8_bytes new, to_path_buf fs u := None)))))))"

fun hunks_files :: "('s, 'u) executor_file_system \<Rightarrow> 'u \<Rightarrow> hunk list \<Rightarrow> files \<Rightarrow> files \<times> bool" where
  "hunks_files fs cwd [] v = (v, True)"
| "hunks_files fs cwd (h # hs) v =
     (case hunk_files fs cwd h v of None \<Rightarrow> (v, False) | Some v \<Rightarrow> hunks_files fs cwd hs v)"

text \<open>The paths a successful application reports.\<close>

definition affected_of :: "hunk list \<Rightarrow> affected_paths" where
  "affected_of hs =
     \<lparr>added = map hunk_path (filter (\<lambda>h. case h of AddFile _ _ \<Rightarrow> True | _ \<Rightarrow> False) hs),
      modified = map hunk_path (filter (\<lambda>h. case h of UpdateFile _ _ _ \<Rightarrow> True | _ \<Rightarrow> False) hs),
      deleted = map hunk_path (filter (\<lambda>h. case h of DeleteFile _ \<Rightarrow> True | _ \<Rightarrow> False) hs)\<rparr>"

definition add_affected :: "hunk \<Rightarrow> affected_paths \<Rightarrow> affected_paths" where
  "add_affected h a =
     (case h of
        AddFile _ _ \<Rightarrow> a\<lparr>added := added a @ [hunk_path h]\<rparr>
      | DeleteFile _ \<Rightarrow> a\<lparr>deleted := deleted a @ [hunk_path h]\<rparr>
      | UpdateFile _ _ _ \<Rightarrow> a\<lparr>modified := modified a @ [hunk_path h]\<rparr>)"

lemma fold_add_affected:
  "fold add_affected hs a =
     \<lparr>added = added a @ added (affected_of hs), modified = modified a @ modified (affected_of hs),
      deleted = deleted a @ deleted (affected_of hs)\<rparr>"
  by (induction hs arbitrary: a) (auto simp: add_affected_def affected_of_def split: hunk.splits)

lemma regular_laws: "regular_files fs view \<Longrightarrow> file_laws fs view"
  by (simp add: regular_files_def)

lemma regular_present:
  assumes "regular_files fs view" and "view s (to_path_buf fs u) = Some b"
  obtains m where "read_file fs s u = Inr b" "get_metadata fs s u = Inr m" "\<not> is_directory m"
  using assms unfolding regular_files_def by blast

lemma regular_missing:
  assumes "regular_files fs view" and "view s (to_path_buf fs u) = None"
  obtains e e' where "read_file fs s u = Inl e" "get_metadata fs s u = Inl e'"
  using assms unfolding regular_files_def by blast

lemma regular_overwrite:
  assumes "regular_files fs view" and "view s (to_path_buf fs u) = Some b'"
  obtains s' where "write_file fs s u b = (s', Inr ())" "view s' = (view s)(to_path_buf fs u \<mapsto> b)"
proof -
  obtain s' where w: "write_file fs s u b = (s', Inr ())"
    using assms unfolding regular_files_def by (metis option.distinct(1))
  then show ?thesis using that write_ok [OF regular_laws [OF assms(1)] w] by simp
qed

lemma regular_read:
  assumes "regular_files fs view"
  shows "read_file_text fs s u = Inr t \<longleftrightarrow> (\<exists>b. view s (to_path_buf fs u) = Some b \<and> from_utf8 b = Inr t)"
proof (cases "view s (to_path_buf fs u)")
  case None
  then show ?thesis by (rule regular_missing [OF assms]) (simp add: None read_file_text_def)
next
  case (Some b)
  then show ?thesis by (rule regular_present [OF assms]) (auto simp: Some read_file_text_def split: sum.splits)
qed

lemma regular_write:
  assumes "regular_files fs view"
  obtains s' where "write_file_with_missing_parent_retry fs s u b = (s', Inr ())"
    "view s' = (view s)(to_path_buf fs u \<mapsto> b)"
proof -
  from assms consider s' where "write_file fs s u b = (s', Inr ())"
    | s1 e parent s2 s3 where "write_file fs s u b = (s1, Inl e)" "io_kind e = NotFound" "uri_parent fs u = Some parent"
      "create_directory fs s1 parent \<lparr>create_recursive = True\<rparr> = (s2, Inr ())" "write_file fs s2 u b = (s3, Inr ())"
    unfolding regular_files_def by metis
  then obtain s' where w: "write_file_with_missing_parent_retry fs s u b = (s', Inr ())"
    by cases (auto simp: write_file_with_missing_parent_retry_def with_context_def)
  then show ?thesis using that write_retry_ok [OF regular_laws [OF assms] w] by simp
qed

lemma regular_remove:
  assumes "regular_files fs view" and "view s (to_path_buf fs u) \<noteq> None"
  obtains s' where "remove_checked fs s u msg ex d = (s', d, Inr ())" "view s' = (view s)(to_path_buf fs u := None)"
proof -
  obtain b where "view s (to_path_buf fs u) = Some b" using assms(2) by blast
  then obtain m where "get_metadata fs s u = Inr m" "\<not> is_directory m" using regular_present [OF assms(1)] by metis
  moreover obtain s' where "remove_path fs s u \<lparr>remove_recursive = False, remove_force = False\<rparr> = (s', Inr ())"
    using assms unfolding regular_files_def by metis
  ultimately have r: "remove_checked fs s u msg ex d = (s', d, Inr ())"
    by (simp add: remove_checked_def ensure_not_directory_def)
  then show ?thesis using that remove_checked_tracks [OF regular_laws [OF assms(1)] r] by simp
qed

lemma regular_remove_missing:
  assumes "regular_files fs view" and "view s (to_path_buf fs u) = None"
  shows "\<exists>e. remove_checked fs s u msg ex d = (s, d, Inl e)"
  by (rule regular_missing [OF assms]) (simp add: remove_checked_def ensure_not_directory_def)

lemma regular_derive:
  assumes "regular_files fs view"
  shows "derive_new_contents_from_chunks fs s u chunks = Inr ap \<longleftrightarrow>
    (\<exists>b. view s (to_path_buf fs u) = Some b \<and> from_utf8 b = Inr (original_contents ap) \<and>
       new_contents_of (original_contents ap) (to_path_buf fs u) chunks = Inr (new_contents ap))"
proof (cases "read_file_text fs s u")
  case (Inl e)
  then show ?thesis
    using regular_read [OF assms, of s u "original_contents ap"] by (auto simp: derive_new_contents_from_chunks_def)
next
  case (Inr t)
  then show ?thesis using regular_read [OF assms, of s u]
    by (cases ap) (auto simp: derive_new_contents_from_chunks_def split: sum.splits derive_error.splits)
qed

text \<open>One hunk: it fails and leaves the state as it is, or does to the files what it means.\<close>

definition hunk_refines ::
    "('s \<Rightarrow> files) \<Rightarrow> files option \<Rightarrow> 's \<Rightarrow> affected_paths \<Rightarrow> 's hunk_result \<Rightarrow> bool" where
  "hunk_refines view v s a r \<longleftrightarrow>
     (case v of
        None \<Rightarrow> fst r = s \<and> (\<exists>e. snd (snd r) = Inl e)
      | Some v \<Rightarrow> view (fst r) = v \<and> snd (snd r) = Inr a)"

lemma add_refines:
  assumes "regular_files fs view"
  shows "hunk_refines view (Some ((view s)(to_path_buf fs u \<mapsto> utf8_bytes c))) s (a\<lparr>added := added a @ [p]\<rparr>)
    (apply_add_file fs s u p c d a)"
proof -
  obtain s' where "write_file_with_missing_parent_retry fs s u (utf8_bytes c) = (s', Inr ())"
    "view s' = (view s)(to_path_buf fs u \<mapsto> utf8_bytes c)" by (rule regular_write [OF assms])
  then show ?thesis by (simp add: apply_add_file_def hunk_refines_def split: prod.splits)
qed

lemma delete_refines:
  assumes "regular_files fs view"
  shows "hunk_refines view (if view s (to_path_buf fs u) = None then None else Some ((view s)(to_path_buf fs u := None)))
    s (a\<lparr>deleted := deleted a @ [p]\<rparr>) (apply_delete_file fs s u p d a)"
proof -
  let ?c = "case read_file_text fs s u of Inr c \<Rightarrow> Some c | Inl _ \<Rightarrow> None"
  let ?m = "lit ''Failed to delete file '' @ inferred_native_path_string fs u"
  define d1 where "d1 = d\<lparr>exact := note_existing_path_delta_support fs s u (exact d)\<rparr>"
  define d2 where "d2 = (if ?c = None then d1\<lparr>exact := False\<rparr> else d1)"
  have del: "apply_delete_file fs s u p d a = (case remove_checked fs s u ?m ?c d2 of
      (s, d, Inl e) \<Rightarrow> (s, d, Inl e)
    | (s, d, Inr _) \<Rightarrow> (s, (case ?c of Some c \<Rightarrow> push_change d (to_path_buf fs u) (DeleteChange c) | None \<Rightarrow> d),
        Inr (a\<lparr>deleted := deleted a @ [p]\<rparr>)))"
    by (simp only: apply_delete_file_def Let_def d2_def d1_def)
  show ?thesis
  proof (cases "view s (to_path_buf fs u)")
    case None
    then obtain e where "remove_checked fs s u ?m ?c d2 = (s, d2, Inl e)"
      using regular_remove_missing [OF assms] by blast
    then show ?thesis using None unfolding del by (simp add: hunk_refines_def)
  next
    case (Some b)
    then obtain s' where "remove_checked fs s u ?m ?c d2 = (s', d2, Inr ())"
      "view s' = (view s)(to_path_buf fs u := None)"
      using regular_remove [OF assms, of s u ?m ?c d2] by auto
    then show ?thesis using Some unfolding del by (simp add: hunk_refines_def)
  qed
qed

lemma rename_refines:
  assumes "regular_files fs view" and "view s (to_path_buf fs u) = Some b"
  shows "hunk_refines view
      (Some ((view s)(to_path_buf fs w \<mapsto> utf8_bytes (new_contents ap), to_path_buf fs u := None)))
      s (a\<lparr>modified := modified a @ [p]\<rparr>) (apply_rename fs s u w p ap d a)"
proof -
  obtain ex ow where o: "read_optional_file_text_for_delta fs s w (exact d) = (ex, ow)" by fastforce
  obtain s1 where w: "write_file_with_missing_parent_retry fs s w (utf8_bytes (new_contents ap)) = (s1, Inr ())"
    "view s1 = (view s)(to_path_buf fs w \<mapsto> utf8_bytes (new_contents ap))" by (rule regular_write [OF assms(1)])
  define d1 where "d1 = push_change (d\<lparr>exact := ex\<rparr>) (to_path_buf fs w) (AddChange (new_contents ap) ow)"
  have "view s1 (to_path_buf fs u) \<noteq> None" using w(2) assms(2) by simp
  then obtain s2 where "remove_checked fs s1 u (lit ''Failed to remove original '' @ inferred_native_path_string fs u)
      (Some (original_contents ap)) d1 = (s2, d1, Inr ())" "view s2 = (view s1)(to_path_buf fs u := None)"
    using regular_remove [OF assms(1)] by metis
  then show ?thesis using o w unfolding apply_rename_def Let_def
    by (simp add: d1_def hunk_refines_def del: lit_simps)
qed

lemma map_sum_Inr [simp]: "map_sum f id x = Inr y \<longleftrightarrow> x = Inr y"
  by (cases x) auto

lemma update_refines:
  assumes "regular_files fs view" and "uri_join fs cwd q = Inr u"
  shows "hunk_refines view (hunk_files fs cwd (UpdateFile q mv chunks) (view s)) s (a\<lparr>modified := modified a @ [p]\<rparr>)
    (apply_update_file fs s cwd u p mv chunks d a)"
proof (cases "derive_new_contents_from_chunks fs s u chunks")
  case (Inl e)
  have "hunk_files fs cwd (UpdateFile q mv chunks) (view s) = None"
  proof (rule ccontr)
    assume "hunk_files fs cwd (UpdateFile q mv chunks) (view s) \<noteq> None"
    then obtain b t new where "view s (to_path_buf fs u) = Some b" "from_utf8 b = Inr t"
        "new_contents_of t (to_path_buf fs u) chunks = Inr new"
      using assms(2) by (auto simp: bind_res_def split: option.splits sum.splits)
    then have "derive_new_contents_from_chunks fs s u chunks = Inr \<lparr>original_contents = t, new_contents = new\<rparr>"
      using regular_derive [OF assms(1)] by simp
    with Inl show False by simp
  qed
  with Inl show ?thesis by (simp add: apply_update_file_def hunk_refines_def Let_def)
next
  case (Inr ap)
  then obtain b where b: "view s (to_path_buf fs u) = Some b" "from_utf8 b = Inr (original_contents ap)"
      "new_contents_of (original_contents ap) (to_path_buf fs u) chunks = Inr (new_contents ap)"
    using regular_derive [OF assms(1)] by blast
  show ?thesis
  proof (cases mv)
    case None
    obtain s' where "write_file fs s u (utf8_bytes (new_contents ap)) = (s', Inr ())"
        "view s' = (view s)(to_path_buf fs u \<mapsto> utf8_bytes (new_contents ap))"
      by (rule regular_overwrite [OF assms(1) b(1)])
    then show ?thesis using Inr b None assms(2) by (simp add: apply_update_file_def hunk_refines_def Let_def)
  next
    case (Some dest)
    show ?thesis
    proof (cases "uri_join fs cwd dest")
      case Inl2: (Inl e)
      then show ?thesis using Inr b Some assms(2) by (simp add: apply_update_file_def hunk_refines_def Let_def)
    next
      case Inr2: (Inr w)
      then show ?thesis using Inr b Some assms(2) rename_refines [OF assms(1) b(1)]
        by (simp add: apply_update_file_def Let_def)
    qed
  qed
qed

lemma hunk_step_refines:
  assumes "regular_files fs view"
  shows "hunk_refines view (hunk_files fs cwd h (view s)) s (add_affected h a) (apply_hunk fs cwd h s d a)"
proof (cases "uri_join fs cwd (hunk_source_path h)")
  case (Inl m)
  then show ?thesis by (cases h) (simp_all add: apply_hunk_def hunk_refines_def)
next
  case (Inr u)
  then show ?thesis
    using add_refines [OF assms] delete_refines [OF assms] update_refines [OF assms]
    by (cases h) (simp_all add: apply_hunk_def add_affected_def)
qed

lemma hunk_loop_refines:
  assumes "regular_files fs view" and "apply_hunk_loop fs cwd hs s d a = (s', d', r)"
  shows "view s' = fst (hunks_files fs cwd hs (view s)) \<and>
    (if snd (hunks_files fs cwd hs (view s)) then r = Inr (fold add_affected hs a) else \<exists>e. r = Inl e)"
  using assms(2)
proof (induction hs arbitrary: s d a)
  case (Cons h hs)
  obtain s1 d1 r1 where h: "apply_hunk fs cwd h s d a = (s1, d1, r1)" by (metis prod_cases3)
  have "hunk_refines view (hunk_files fs cwd h (view s)) s (add_affected h a) (s1, d1, r1)"
    using hunk_step_refines [OF assms(1), of cwd h s a d] h by simp
  then show ?case using Cons h by (cases "hunk_files fs cwd h (view s)") (auto simp: hunk_refines_def)
qed simp

lemma hunks_refined:
  assumes "regular_files fs view" and "hs \<noteq> []"
    and "apply_hunks_to_files fs cwd hs s d = (s', d', r)" and "hunks_files fs cwd hs (view s) = (v, complete)"
  shows "view s' = v \<and> (if complete then r = Inr (affected_of hs) else \<exists>e. r = Inl e)"
  using hunk_loop_refines [OF assms(1), of cwd hs s d no_affected s' d' r] assms(2-4)
  by (simp add: apply_hunks_to_files_def fold_add_affected no_affected_def affected_of_def split: if_splits)

lemma write_lines_ok: "\<forall>w l. \<exists>w'. wr w l = (w', Inr ()) \<Longrightarrow> \<exists>w'. write_lines wr w ls = (w', Inr ())"
proof (induction ls arbitrary: w)
  case (Cons l ls)
  then obtain w' where "wr w l = (w', Inr ())" by blast
  then show ?case using Cons by simp
qed simp

section \<open>A file system in memory\<close>

text \<open>An instance of the parameters, for the examples: paths are joined with a slash, a new file is
  not found unless its directory exists.\<close>

record mem_state =
  mem_dirs :: "rstring list"
  mem_files :: files

definition mem_not_found :: io_error where
  "mem_not_found = \<lparr>io_kind = NotFound, io_text = lit ''not found''\<rparr>"

definition mem_parent :: "rstring \<Rightarrow> rstring option" where
  "mem_parent u = (if 47 \<in> set u then Some (rev (tl (dropWhile (\<lambda>c. c \<noteq> 47) (rev u)))) else None)"

definition mem_fs :: "(mem_state, rstring) executor_file_system" where
  "mem_fs =
     \<lparr>uri_join = (\<lambda>cwd p. if 0 \<in> set p then Inl p else Inr (cwd @ lit ''/'' @ p)),
      uri_parent = mem_parent,
      inferred_native_path_string = id,
      read_file = (\<lambda>s u. case mem_files s u of Some b \<Rightarrow> Inr b | None \<Rightarrow> Inl mem_not_found),
      write_file = (\<lambda>s u b.
        if mem_files s u = None \<and> (case mem_parent u of Some p \<Rightarrow> p \<notin> set (mem_dirs s) | None \<Rightarrow> False)
        then (s, Inl mem_not_found) else (s\<lparr>mem_files := (mem_files s)(u \<mapsto> b)\<rparr>, Inr ())),
      create_directory = (\<lambda>s u _. (s\<lparr>mem_dirs := u # mem_dirs s\<rparr>, Inr ())),
      get_metadata = (\<lambda>s u.
        case mem_files s u of
          Some b \<Rightarrow> Inr \<lparr>is_directory = False, is_file = True, is_symlink = False, file_size = length b,
                     created_at_ms = 0, modified_at_ms = 0\<rparr>
        | None \<Rightarrow> Inl mem_not_found),
      remove_path = (\<lambda>s u _.
        if mem_files s u = None then (s, Inl mem_not_found) else (s\<lparr>mem_files := (mem_files s)(u := None)\<rparr>, Inr ()))\<rparr>"

lemma mem_file_laws: "file_laws mem_fs mem_files"
  by (auto simp: file_laws_def mem_fs_def mem_not_found_def split: option.splits if_splits)

lemma mem_regular_files: "regular_files mem_fs mem_files"
  unfolding regular_files_def using mem_file_laws
  by (auto simp: mem_fs_def mem_not_found_def split: option.splits)


section \<open>Surprises\<close>

text \<open>A rename onto its own path writes the new contents and then removes them: the file is gone, and
  the application succeeds.\<close>

lemma self_move_deletes:
  "case apply_hunks_to_files mem_fs [] [UpdateFile (lit ''f'') (Some (lit ''f''))
       [\<lparr>change_context = None, old_lines = [lit ''a''], new_lines = [lit ''b''], is_end_of_file = False\<rparr>]]
     \<lparr>mem_dirs = [[]], mem_files = [lit ''/f'' \<mapsto> utf8_bytes (lit ''a'')]\<rparr> empty_delta of
   (s, d, r) \<Rightarrow> mem_files s (lit ''/f'') = None \<and> (case r of Inr a \<Rightarrow> modified a = [lit ''f''] | Inl _ \<Rightarrow> False)"
  by code_simp

text \<open>A read of the file to update that is denied is not reported as a denied permission: the error
  keeps its text only.\<close>

lemma denied_update_not_reported:
  assumes "uri_join fs cwd p = Inr u" and "read_file fs s u = Inl e" and "io_kind e = PermissionDenied"
    and "apply_hunks fs wr cwd [UpdateFile p mv chunks] s stdout stderr = (s', stdout', stderr', Inl failure)"
    and "snd (wr stderr (lit ''Failed to read file to update '' @ inferred_native_path_string fs u @ lit '': '' @ io_text e)) = Inr ()"
  shows "\<not> is_permission_denied (failure_error failure)"
  using assms by (auto simp: apply_hunks_def apply_hunks_to_files_def apply_hunk_def apply_update_file_def
      derive_new_contents_from_chunks_def read_file_text_def Let_def split: prod.splits sum.splits)

section \<open>Properties\<close>

text \<open>C4: as long as the delta of an application is exact, its changes are the difference of the files,
  whether the application succeeds or fails half way: replaying them on the initial files gives the
  final ones, and undoing them on the final files gives the initial ones.\<close>

theorem delta_exact:
  assumes "file_laws fs view" and "apply_hunks_to_files fs cwd hs s empty_delta = (s', d, r)" and "exact d"
  shows "view s' = replay (changes d) (view s) \<and> view s = revert (changes d) (view s')"
proof -
  have "tracks view s empty_delta s' d"
    using assms(1,2) hunk_loop_tracks by (auto simp: apply_hunks_to_files_def tracks_refl split: if_splits)
  then have "difference (changes d) (view s) (view s')"
    using assms(3) by (auto simp: tracks_def empty_delta_def)
  then show ?thesis unfolding difference_def .
qed

definition example_state :: mem_state where
  "example_state = \<lparr>mem_dirs = [lit ''w''], mem_files = [lit ''w/f'' \<mapsto> utf8_bytes (lit ''a'' @ [newline])]\<rparr>"

definition example_hunks :: "hunk list" where
  "example_hunks =
     [AddFile (lit ''d/g'') (lit ''x''),
      UpdateFile (lit ''f'') (Some (lit ''h''))
        [\<lparr>change_context = None, old_lines = [lit ''a''], new_lines = [lit ''b''], is_end_of_file = False\<rparr>],
      DeleteFile (lit ''d/g''),
      UpdateFile (lit ''f'') None
        [\<lparr>change_context = None, old_lines = [lit ''a''], new_lines = [lit ''b''], is_end_of_file = False\<rparr>]]"

theorem delta_exact_witness:
  "case apply_hunks_to_files mem_fs (lit ''w'') example_hunks example_state empty_delta of
     (s', d, r) \<Rightarrow> exact d \<and> length (changes d) = 3 \<and> mem_files s' = replay (changes d) (mem_files example_state) \<and>
       mem_files example_state = revert (changes d) (mem_files s')"
proof -
  obtain s' d r where r: "apply_hunks_to_files mem_fs (lit ''w'') example_hunks example_state empty_delta = (s', d, r)"
    by (metis prod_cases3)
  have "case apply_hunks_to_files mem_fs (lit ''w'') example_hunks example_state empty_delta of
      (s', d, r) \<Rightarrow> exact d \<and> length (changes d) = 3" by code_simp
  then show ?thesis using delta_exact [OF mem_file_laws r] unfolding r prod.case by metis
qed

text \<open>C5: on a file system of regular files, applying a patch does to the files what its hunks mean, in
  order and up to the first that cannot be applied; it succeeds exactly when all can be, and then
  reports every hunk once, by the path of its target.\<close>

theorem apply_hunks_refines:
  assumes "regular_files fs view" and "hs \<noteq> []"
    and "apply_hunks_to_files fs cwd hs s d = (s', d', r)" and "hunks_files fs cwd hs (view s) = (v, complete)"
  shows "view s' = v \<and> (if complete then r = Inr (affected_of hs) else \<exists>e. r = Inl e)"
  using assms by (rule hunks_refined)

theorem apply_hunks_refines_witness:
  "case apply_hunks_to_files mem_fs (lit ''w'') (take 3 example_hunks) example_state empty_delta of
     (s', d, r) \<Rightarrow> r = Inr (affected_of (take 3 example_hunks)) \<and>
       mem_files s' = fst (hunks_files mem_fs (lit ''w'') (take 3 example_hunks) (mem_files example_state))"
proof -
  obtain s' d r where r: "apply_hunks_to_files mem_fs (lit ''w'') (take 3 example_hunks) example_state empty_delta = (s', d, r)"
    by (metis prod_cases3)
  obtain v c where v: "hunks_files mem_fs (lit ''w'') (take 3 example_hunks) (mem_files example_state) = (v, c)" by fastforce
  have "snd (hunks_files mem_fs (lit ''w'') (take 3 example_hunks) (mem_files example_state))" by code_simp
  then have c unfolding v by simp
  moreover have "take 3 example_hunks \<noteq> []" by code_simp
  ultimately show ?thesis using apply_hunks_refines [OF mem_regular_files _ r v] unfolding r v prod.case fst_conv by metis
qed

end
