(* ===== verification/Patch_Invocation.thy ===== *)
theory Patch_Invocation
  imports Patch_Apply
begin

text \<open>
  Recognising an \<^verbatim>\<open>apply_patch\<close> command and verifying it before it is approved
  (\<^verbatim>\<open>apply-patch/src/invocation.rs\<close>).  The tree-sitter query that finds a here-document in a script, the
  unified diff of the \<^verbatim>\<open>similar\<close> crate and the path convention of a URI are parameters.

  The lemmas connect the two runs of a patch: what verification shows for approval is what the
  application of the approved patch text does to the files, when no path is touched twice.
\<close>

section \<open>Path conventions and shells\<close>

datatype path_convention = Posix | Windows

fun path_segments :: "path_convention \<Rightarrow> rstring \<Rightarrow> rstring list" where
  "path_segments Posix path = split_by (\<lambda>c. c = 47) path"
| "path_segments Windows path = split_by (\<lambda>c. c = 47 \<or> c = 92) path"

definition classify_shell_name :: "rstring \<Rightarrow> path_convention \<Rightarrow> rstring option" where
  "classify_shell_name shell convention =
     (case last_opt (path_segments convention shell) of
        None \<Rightarrow> None
      | Some basename \<Rightarrow>
          let stem = (case rsplit_once 46 basename of
              Some (stem, extension) \<Rightarrow> if stem \<noteq> [] then stem else basename
            | None \<Rightarrow> basename)
          in Some (to_ascii_lowercase stem))"

datatype apply_patch_shell = Unix | PowerShell | Cmd

definition classify_shell :: "rstring \<Rightarrow> rstring \<Rightarrow> path_convention \<Rightarrow> apply_patch_shell option" where
  "classify_shell shell flag convention =
     (case classify_shell_name shell convention of
        None \<Rightarrow> None
      | Some name \<Rightarrow>
          if name \<in> {lit ''bash'', lit ''zsh'', lit ''sh''} \<and> flag \<in> {lit ''-lc'', lit ''-c''} then Some Unix
          else if name \<in> {lit ''pwsh'', lit ''powershell''} \<and> eq_ignore_ascii_case flag (lit ''-command'')
          then Some PowerShell
          else if name = lit ''cmd'' \<and> eq_ignore_ascii_case flag (lit ''/c'') then Some Cmd
          else None)"

definition can_skip_flag :: "rstring \<Rightarrow> rstring \<Rightarrow> path_convention \<Rightarrow> bool" where
  "can_skip_flag shell flag convention \<longleftrightarrow>
     (case classify_shell_name shell convention of
        None \<Rightarrow> False
      | Some name \<Rightarrow> name \<in> {lit ''pwsh'', lit ''powershell''} \<and> eq_ignore_ascii_case flag (lit ''-noprofile''))"

section \<open>Recognising an invocation\<close>

datatype extract_heredoc_error =
    CommandDidNotStartWithApplyPatch
  | FailedToLoadBashGrammar rstring
  | HeredocNotUtf8 rstring
  | FailedToParsePatchIntoAst
  | FailedToFindHeredocBody

text \<open>The parameters: the path convention of a URI, the here-document and working directory of a bash
  script, and the unified diff of two texts with a number of context lines.\<close>

record 'u invocation_ops =
  infer_path_convention :: "'u \<Rightarrow> path_convention option"
  extract_apply_patch_from_bash :: "rstring \<Rightarrow> extract_heredoc_error + rstring \<times> rstring option"
  unified_diff_text :: "rstring \<Rightarrow> rstring \<Rightarrow> nat \<Rightarrow> rstring"

definition parse_shell_script :: "'u invocation_ops \<Rightarrow> rstring list \<Rightarrow> 'u \<Rightarrow> (apply_patch_shell \<times> rstring) option" where
  "parse_shell_script ops argv cwd =
     (case infer_path_convention ops cwd of
        None \<Rightarrow> None
      | Some convention \<Rightarrow>
          (case argv of
             [shell, flag, script] \<Rightarrow> map_option (\<lambda>shell_type. (shell_type, script)) (classify_shell shell flag convention)
           | [shell, skip_flag, flag, script] \<Rightarrow>
               if \<not> can_skip_flag shell skip_flag convention then None
               else map_option (\<lambda>shell_type. (shell_type, script)) (classify_shell shell flag convention)
           | _ \<Rightarrow> None))"

definition extract_apply_patch_from_shell ::
    "'u invocation_ops \<Rightarrow> apply_patch_shell \<Rightarrow> rstring \<Rightarrow> extract_heredoc_error + rstring \<times> rstring option" where
  "extract_apply_patch_from_shell ops shell script =
     (case shell of
        Unix \<Rightarrow> extract_apply_patch_from_bash ops script
      | PowerShell \<Rightarrow> extract_apply_patch_from_bash ops script
      | Cmd \<Rightarrow> extract_apply_patch_from_bash ops script)"

datatype maybe_apply_patch =
    Body apply_patch_args
  | ShellParseError extract_heredoc_error
  | PatchParseError parse_error
  | NotApplyPatch

definition APPLY_PATCH_COMMANDS :: "rstring list" where
  "APPLY_PATCH_COMMANDS = [lit ''apply_patch'', lit ''applypatch'']"

text \<open>The shell form: a here-document, possibly after a change of directory.\<close>

definition maybe_parse_shell :: "'u invocation_ops \<Rightarrow> rstring list \<Rightarrow> 'u \<Rightarrow> maybe_apply_patch" where
  "maybe_parse_shell ops argv cwd =
     (case parse_shell_script ops argv cwd of
        Some (shell, script) \<Rightarrow>
          (case extract_apply_patch_from_shell ops shell script of
             Inr (body, workdir) \<Rightarrow>
               (case parse_patch body of
                  Inr source \<Rightarrow> Body (source\<lparr>arg_workdir := workdir\<rparr>)
                | Inl e \<Rightarrow> PatchParseError e)
           | Inl CommandDidNotStartWithApplyPatch \<Rightarrow> NotApplyPatch
           | Inl e \<Rightarrow> ShellParseError e)
      | None \<Rightarrow> NotApplyPatch)"

definition maybe_parse_apply_patch :: "'u invocation_ops \<Rightarrow> rstring list \<Rightarrow> 'u \<Rightarrow> maybe_apply_patch" where
  "maybe_parse_apply_patch ops argv cwd =
     (case argv of
        [cmd, body] \<Rightarrow>
          if cmd \<in> set APPLY_PATCH_COMMANDS then
            (case parse_patch body of Inr source \<Rightarrow> Body source | Inl e \<Rightarrow> PatchParseError e)
          else maybe_parse_shell ops argv cwd
      | _ \<Rightarrow> maybe_parse_shell ops argv cwd)"

section \<open>Verification\<close>

datatype 'u apply_patch_file_change =
    Add rstring
  | Delete rstring
  | Update (unified_diff: rstring) (move_path: "'u option") (new_content: rstring)

record 'u apply_patch_action =
  action_changes :: "'u \<Rightarrow> 'u apply_patch_file_change option"
  action_patch :: rstring
  action_cwd :: 'u

datatype 'u maybe_apply_patch_verified =
    VerifiedBody "'u apply_patch_action"
  | VerifiedShellParseError extract_heredoc_error
  | CorrectnessError apply_patch_error
  | VerifiedNotApplyPatch

record apply_patch_file_update =
  update_unified_diff :: rstring
  update_original_content :: rstring
  update_content :: rstring

definition unified_diff_from_chunks_with_context ::
    "'u invocation_ops \<Rightarrow> ('s, 'u) executor_file_system \<Rightarrow> 's \<Rightarrow> 'u \<Rightarrow> update_file_chunk list \<Rightarrow> nat \<Rightarrow>
     apply_patch_error + apply_patch_file_update" where
  "unified_diff_from_chunks_with_context ops fs s u chunks n =
     bind_res (derive_new_contents_from_chunks fs s u chunks) (\<lambda>ap.
       Inr \<lparr>update_unified_diff = unified_diff_text ops (original_contents ap) (new_contents ap) n,
            update_original_content = original_contents ap, update_content = new_contents ap\<rparr>)"

definition unified_diff_from_chunks ::
    "'u invocation_ops \<Rightarrow> ('s, 'u) executor_file_system \<Rightarrow> 's \<Rightarrow> 'u \<Rightarrow> update_file_chunk list \<Rightarrow>
     apply_patch_error + apply_patch_file_update" where
  "unified_diff_from_chunks ops fs s u chunks = unified_diff_from_chunks_with_context ops fs s u chunks 1"

definition join_path :: "('s, 'u) executor_file_system \<Rightarrow> 'u \<Rightarrow> rstring \<Rightarrow> apply_patch_error + 'u" where
  "join_path fs cwd p = (case uri_join fs cwd p of Inl m \<Rightarrow> Inl (PathUri m) | Inr u \<Rightarrow> Inr u)"

text \<open>One hunk of \<open>try_verify_apply_patch_args\<close>: the path and the change it inserts.\<close>

definition verify_hunk ::
    "'u invocation_ops \<Rightarrow> ('s, 'u) executor_file_system \<Rightarrow> 's \<Rightarrow> 'u \<Rightarrow> hunk \<Rightarrow> apply_patch_error + 'u \<times> 'u apply_patch_file_change"
  where
  "verify_hunk ops fs s cwd h =
     bind_res (join_path fs cwd (hunk_source_path h)) (\<lambda>u.
       case h of
         AddFile _ contents \<Rightarrow> Inr (u, Add contents)
       | DeleteFile _ \<Rightarrow>
           (case read_file_text fs s u of
              Inl e \<Rightarrow> Inl (IoError (lit ''Failed to read '' @ inferred_native_path_string fs u) e)
            | Inr content \<Rightarrow> Inr (u, Delete content))
       | UpdateFile _ mv chunks \<Rightarrow>
           bind_res (unified_diff_from_chunks ops fs s u chunks) (\<lambda>upd.
             case mv of
               None \<Rightarrow> Inr (u, Update (update_unified_diff upd) None (update_content upd))
             | Some dest \<Rightarrow>
                 bind_res (join_path fs cwd dest) (\<lambda>w.
                   Inr (u, Update (update_unified_diff upd) (Some w) (update_content upd)))))"

fun verify_loop ::
    "'u invocation_ops \<Rightarrow> ('s, 'u) executor_file_system \<Rightarrow> 's \<Rightarrow> 'u \<Rightarrow> hunk list \<Rightarrow> ('u \<Rightarrow> 'u apply_patch_file_change option) \<Rightarrow>
     apply_patch_error + ('u \<Rightarrow> 'u apply_patch_file_change option)" where
  "verify_loop ops fs s cwd [] m = Inr m"
| "verify_loop ops fs s cwd (h # hs) m =
     bind_res (verify_hunk ops fs s cwd h) (\<lambda>(u, c). verify_loop ops fs s cwd hs (m(u \<mapsto> c)))"

definition try_verify_apply_patch_args ::
    "'u invocation_ops \<Rightarrow> ('s, 'u) executor_file_system \<Rightarrow> 's \<Rightarrow> apply_patch_args \<Rightarrow> 'u \<Rightarrow> apply_patch_error + 'u apply_patch_action"
  where
  "try_verify_apply_patch_args ops fs s args cwd =
     bind_res (case arg_workdir args of Some dir \<Rightarrow> join_path fs cwd dir | None \<Rightarrow> Inr cwd) (\<lambda>effective_cwd.
       bind_res (verify_loop ops fs s effective_cwd (arg_hunks args) Map.empty) (\<lambda>m.
         Inr \<lparr>action_changes = m, action_patch = arg_patch args, action_cwd = effective_cwd\<rparr>))"

definition verify_apply_patch_args ::
    "'u invocation_ops \<Rightarrow> ('s, 'u) executor_file_system \<Rightarrow> 's \<Rightarrow> apply_patch_args \<Rightarrow> 'u \<Rightarrow> 'u maybe_apply_patch_verified" where
  "verify_apply_patch_args ops fs s args cwd =
     (case try_verify_apply_patch_args ops fs s args cwd of
        Inr action \<Rightarrow> VerifiedBody action
      | Inl e \<Rightarrow> CorrectnessError e)"

definition parses :: "rstring \<Rightarrow> bool" where
  "parses t \<longleftrightarrow> (case parse_patch t of Inr _ \<Rightarrow> True | Inl _ \<Rightarrow> False)"

definition maybe_parse_apply_patch_verified ::
    "'u invocation_ops \<Rightarrow> ('s, 'u) executor_file_system \<Rightarrow> 's \<Rightarrow> rstring list \<Rightarrow> 'u \<Rightarrow> 'u maybe_apply_patch_verified" where
  "maybe_parse_apply_patch_verified ops fs s argv cwd =
     (if (case argv of [body] \<Rightarrow> parses body | _ \<Rightarrow> False) then CorrectnessError ImplicitInvocation
      else if (case parse_shell_script ops argv cwd of Some (_, script) \<Rightarrow> parses script | None \<Rightarrow> False)
      then CorrectnessError ImplicitInvocation
      else case maybe_parse_apply_patch ops argv cwd of
        Body args \<Rightarrow> verify_apply_patch_args ops fs s args cwd
      | ShellParseError e \<Rightarrow> VerifiedShellParseError e
      | PatchParseError e \<Rightarrow> CorrectnessError (ParseError e)
      | NotApplyPatch \<Rightarrow> VerifiedNotApplyPatch)"


section \<open>Parsing the text of a parsed patch again\<close>

lemma trim_end_idem: "trim_end (trim_end s) = trim_end s"
  by (simp add: trim_end_def)

lemma trim_trim [simp]: "trim (trim_start s) = trim s" "trim (trim_end s) = trim s"
proof -
  show "trim (trim_start s) = trim s" by (simp add: trim_def trim_start_def)
  show "trim (trim_end s) = trim s" by (simp add: trim_alt trim_end_idem)
qed

lemma trim_ends: "trim s \<noteq> [] \<Longrightarrow> trim_start s \<noteq> [] \<and> trim_end s \<noteq> []"
  by (metis trim_alt trim_eq trim_start_def trim_end_def dropWhile.simps(1) rev.simps(1))

lemma trim_join:
  assumes "trim l \<noteq> []" and "trim e \<noteq> []"
  shows "trim (join [newline] (l # mid @ [e])) = join [newline] (trim_start l # mid @ [trim_end e])"
proof -
  define m where "m = concat (map (\<lambda>l. l @ [newline]) mid)"
  have j: "join [newline] (x # mid @ [y]) = x @ [newline] @ m @ y" for x y
    by (simp add: join_lines m_def butlast_append)
  have "trim_start (l @ [newline] @ m @ e) = trim_start l @ [newline] @ m @ e"
    using trim_start_append [of l "[newline] @ m @ e"] assms(1) trim_ends by blast
  moreover have "trim_end (trim_start l @ [newline] @ m @ e) = trim_start l @ [newline] @ m @ trim_end e"
    using trim_end_append [of e "trim_start l @ [newline] @ m"] assms(2) trim_ends by simp
  ultimately show ?thesis by (simp add: trim_eq j)
qed

lemma strict_lines:
  assumes "check_patch_boundaries_strict ls = Inr ls'"
  obtains l mid e where "ls' = ls" "ls = l # mid @ [e]" "trim l = BEGIN_PATCH_MARKER" "trim e = END_PATCH_MARKER"
proof -
  have ls: "ls' = ls" using assms by (auto simp: check_patch_boundaries_strict_def result_iff split: prod.splits)
  have c: "check_start_and_end_lines_strict (Some l) (Some e) = Inr () \<longleftrightarrow>
      trim l = BEGIN_PATCH_MARKER \<and> trim e = END_PATCH_MARKER" for l e
    by (simp add: check_start_and_end_lines_strict_def Let_def)
  have ne: "BEGIN_PATCH_MARKER \<noteq> END_PATCH_MARKER" by code_simp
  show ?thesis
  proof (cases ls rule: rev_cases)
    case Nil
    then show ?thesis using assms
      by (simp add: check_patch_boundaries_strict_def check_start_and_end_lines_strict_def Let_def)
  next
    case (snoc init e)
    show ?thesis
    proof (cases init)
      case Nil
      then show ?thesis using assms snoc c ne by (auto simp: check_patch_boundaries_strict_def result_iff)
    next
      case (Cons l mid)
      then have "check_start_and_end_lines_strict (Some l) (Some e) = Inr ()"
        using assms snoc
        by (cases mid) (auto simp: check_patch_boundaries_strict_def result_iff)
      then show ?thesis using that ls snoc Cons c by simp
    qed
  qed
qed

lemma strict_ok:
  "trim l = BEGIN_PATCH_MARKER \<Longrightarrow> trim e = END_PATCH_MARKER \<Longrightarrow>
     check_patch_boundaries m (l # mid @ [e]) = Inr (l # mid @ [e])"
  by (cases m; cases mid)
    (simp_all add: check_patch_boundaries_lenient_def check_patch_boundaries_strict_def
      check_start_and_end_lines_strict_def Let_def)

lemma boundaries_lines:
  assumes "check_patch_boundaries m ls = Inr ls'"
  obtains l mid e where "set ls' \<subseteq> set ls" "ls' = l # mid @ [e]" "trim l = BEGIN_PATCH_MARKER" "trim e = END_PATCH_MARKER"
proof -
  have sub: "set (butlast (tl ls)) \<subseteq> set ls"
    by (cases ls) (auto dest: in_set_butlastD)
  obtain ls0 where "set ls0 \<subseteq> set ls" "check_patch_boundaries_strict ls0 = Inr ls'"
  proof (cases "check_patch_boundaries_strict ls = Inr ls'")
    case False
    then have "check_patch_boundaries_strict (butlast (tl ls)) = Inr ls'"
      using assms by (cases m) (auto simp: check_patch_boundaries_lenient_def split: sum.splits list.splits if_splits)
    with sub that show ?thesis by blast
  qed (use that in blast)
  then show ?thesis using that strict_lines by metis
qed

lemma push_delta_clears:
  "push_delta p (concat (map (\<lambda>l. l @ [newline]) ls)) = (p', Inr hs) \<Longrightarrow> patch_line_buffer p = [] \<Longrightarrow>
     patch_line_buffer p' = []"
proof (induction ls rule: rev_induct)
  case (snoc l ls)
  then show ?case
    by (auto simp: push_delta_append push_char_def Let_def split: prod.splits sum.splits if_splits)
qed simp


lemma process_first_line:
  "trim l = BEGIN_PATCH_MARKER \<Longrightarrow>
     process_line n l (patch_state patch_parser_default) = Inr ((patch_state patch_parser_default)\<lparr>mode := StartedPatch\<rparr>)"
  by (simp add: process_line_def patch_parser_default_def)

text \<open>Only the trimmed first and last line matter.\<close>

lemma parse_ends:
  assumes "trim l = BEGIN_PATCH_MARKER" "trim e = END_PATCH_MARKER" "trim l' = BEGIN_PATCH_MARKER" "trim e' = END_PATCH_MARKER"
    and "plain_line l" "plain_line e" "plain_line l'" "plain_line e'"
    and "push_delta patch_parser_default (join [newline] (l # mid @ [e])) = (p, Inr hs)"
  shows "\<exists>p' hs'. push_delta patch_parser_default (join [newline] (l' # mid @ [e'])) = (p', Inr hs') \<and>
    patch_finish p' = patch_finish p"
proof -
  let ?m = "concat (map (\<lambda>l. l @ [newline]) mid)"
  define p1 where "p1 = \<lparr>patch_line_buffer = [],
    patch_state = (patch_state patch_parser_default)\<lparr>mode := StartedPatch\<rparr>, line_number = 1\<rparr>"
  have j: "join [newline] (x # mid @ [y]) = x @ newline # ?m @ y" for x y
    by (simp add: join_lines butlast_append)
  have first: "push_delta patch_parser_default (x @ newline # r) = push_delta p1 r"
    if "trim x = BEGIN_PATCH_MARKER" "plain_line x" for x r
    using push_delta_line [OF that(2) process_first_line [OF that(1)], of 0 r]
    by (simp add: patch_parser_default_def p1_def)
  have nl: "newline \<notin> set e" "newline \<notin> set e'" using assms(6,8) by (auto simp: plain_line_def)
  obtain p2 hs2 where m: "push_delta p1 ?m = (p2, Inr hs2)" and p: "p = p2\<lparr>patch_line_buffer := patch_line_buffer p2 @ e\<rparr>"
    using assms(9) unfolding j first [OF assms(1,5)]
    by (auto simp: push_delta_append [of p1] push_delta_no_newline [OF nl(1)] split: prod.splits sum.splits)
  have b: "patch_line_buffer p2 = []" using push_delta_clears [OF m] by (simp add: p1_def)
  have ne: "e \<noteq> []" "e' \<noteq> []" using assms(2,4) by (auto simp: trim_def trim_start_def trim_end_def END_PATCH_MARKER_def)
  have "patch_finish (p2\<lparr>patch_line_buffer := e'\<rparr>) = patch_finish (p2\<lparr>patch_line_buffer := e\<rparr>)"
    using ne assms(2,4) by (simp add: patch_finish_def Let_def)
  then show ?thesis
    unfolding j first [OF assms(3,7)] using m p b by (simp add: push_delta_append [of p1] push_delta_no_newline [OF nl(2)])
qed

lemma split_inclusive_butlast: "l \<in> set (split_inclusive c t) \<Longrightarrow> l \<noteq> [] \<and> c \<notin> set (butlast l)"
  by (induction t arbitrary: l) (fastforce split: if_splits list.splits)+

lemma lines_no_newline: "l \<in> set (lines t) \<Longrightarrow> newline \<notin> set l"
proof -
  have "newline \<notin> set (strip_line_ending x)" if "x \<noteq> []" "newline \<notin> set (butlast x)" for x
  proof -
    obtain y a where "x = y @ [a]" using \<open>x \<noteq> []\<close> by (cases x rule: rev_cases) auto
    then show ?thesis using that
      by (auto simp: strip_line_ending_def strip_suffix_def suffix_def split: option.splits if_splits)
  qed
  then show "l \<in> set (lines t) \<Longrightarrow> newline \<notin> set l"
    by (auto simp: lines_def dest!: split_inclusive_butlast)
qed

lemma carriage_return_ws: "is_whitespace carriage_return"
  by (simp add: is_whitespace_def carriage_return_def)

lemma set_join: "l \<in> set ls \<Longrightarrow> set l \<subseteq> set (join sep ls)"
  by (induction sep ls rule: join.induct) auto

lemma parse_patch_again:
  assumes "parse_patch t = Inr args" and "carriage_return \<notin> set (arg_patch args)"
  shows "\<exists>args'. parse_patch (arg_patch args) = Inr args' \<and> arg_hunks args' = arg_hunks args \<and>
    arg_environment_id args' = arg_environment_id args"
proof -
  let ?m = "if PARSE_IN_STRICT_MODE then Strict else Lenient"
  obtain ls p hs p2 where ls: "check_patch_boundaries ?m (lines (trim t)) = Inr ls"
    and p: "push_delta patch_parser_default (join [newline] ls) = (p, Inr hs)" "patch_finish p = (p2, Inr (arg_hunks args))"
    and args: "arg_patch args = join [newline] ls" "arg_environment_id args = environment_id (patch_state p2)"
    using assms(1)
    by (auto simp: parse_patch_def parse_patch_text_def result_iff Let_def case_prod_beta prod_eq_iff)
  obtain l mid e where l: "set ls \<subseteq> set (lines (trim t))" "ls = l # mid @ [e]"
    "trim l = BEGIN_PATCH_MARKER" "trim e = END_PATCH_MARKER"
    by (rule boundaries_lines [OF ls])
  let ?ls = "trim_start l # mid @ [trim_end e]"
  have plain: "\<forall>l \<in> set ls. plain_line l"
    using assms(2) lines_no_newline l(1) set_join [of _ ls "[newline]"]
    by (fastforce simp: plain_line_def args suffix_def)
  have ends: "plain_line (trim_start l)" "plain_line (trim_end e)" "trim_end e \<noteq> []"
    using plain l trim_end_last [of e] trim_ends [of e] suffix_dropWhile [of is_whitespace l]
      set_dropWhileD [of _ is_whitespace "rev e"]
    by (auto simp: plain_line_def trim_start_def trim_end_def END_PATCH_MARKER_def carriage_return_ws
        dest: suffix_order.trans set_mono_suffix suffix_last [THEN iffD1])
  have "trim l \<noteq> []" "trim e \<noteq> []" using l by (auto simp: BEGIN_PATCH_MARKER_def END_PATCH_MARKER_def)
  then have "trim (join [newline] ls) = join [newline] ?ls" using trim_join l(2) by simp
  moreover have "lines (join [newline] ?ls) = ?ls"
    using plain ends l(1,2) by (intro lines_join) auto
  moreover have "check_patch_boundaries ?m ?ls = Inr ?ls" using l by (intro strict_ok) simp_all
  moreover obtain p' hs' where "push_delta patch_parser_default (join [newline] ?ls) = (p', Inr hs')" "patch_finish p' = patch_finish p"
    using parse_ends [of l e "trim_start l" "trim_end e" mid p hs] l plain ends p by auto
  ultimately show ?thesis
    using p args by (simp add: parse_patch_def parse_patch_text_def)
qed


section \<open>From verification to application\<close>

text \<open>The paths a hunk touches, and those a verified change is about.\<close>

definition hunk_paths :: "('s, 'u) executor_file_system \<Rightarrow> 'u \<Rightarrow> hunk \<Rightarrow> path list" where
  "hunk_paths fs cwd h =
     (case uri_join fs cwd (hunk_source_path h) of Inr u \<Rightarrow> [to_path_buf fs u] | Inl _ \<Rightarrow> []) @
     (case h of
        UpdateFile _ (Some dest) _ \<Rightarrow> (case uri_join fs cwd dest of Inr w \<Rightarrow> [to_path_buf fs w] | Inl _ \<Rightarrow> [])
      | _ \<Rightarrow> [])"

definition touched :: "('s, 'u) executor_file_system \<Rightarrow> 'u \<Rightarrow> hunk list \<Rightarrow> path list" where
  "touched fs cwd hs = concat (map (hunk_paths fs cwd) hs)"

fun change_paths :: "('s, 'u) executor_file_system \<Rightarrow> 'u \<Rightarrow> 'u apply_patch_file_change \<Rightarrow> path set" where
  "change_paths fs u (Update _ (Some w) _) = {to_path_buf fs u, to_path_buf fs w}"
| "change_paths fs u _ = {to_path_buf fs u}"

text \<open>What a verified change promises of the files.\<close>

fun change_holds :: "('s, 'u) executor_file_system \<Rightarrow> files \<Rightarrow> 'u \<Rightarrow> 'u apply_patch_file_change \<Rightarrow> bool" where
  "change_holds fs v u (Add c) \<longleftrightarrow> v (to_path_buf fs u) = Some (utf8_bytes c)"
| "change_holds fs v u (Delete _) \<longleftrightarrow> v (to_path_buf fs u) = None"
| "change_holds fs v u (Update _ None new) \<longleftrightarrow> v (to_path_buf fs u) = Some (utf8_bytes new)"
| "change_holds fs v u (Update _ (Some w) new) \<longleftrightarrow>
     v (to_path_buf fs w) = Some (utf8_bytes new) \<and> v (to_path_buf fs u) = None"

lemma change_holds_cong:
  "change_holds fs v u c \<Longrightarrow> \<forall>p \<in> change_paths fs u c. v' p = v p \<Longrightarrow> change_holds fs v' u c"
  by (induction fs v u c rule: change_holds.induct) auto

lemma join_path_Inr [simp]: "join_path fs cwd p = Inr u \<longleftrightarrow> uri_join fs cwd p = Inr u"
  by (auto simp: join_path_def split: sum.splits)

lemma unified_diff_Inr:
  "unified_diff_from_chunks ops fs s u chunks = Inr upd \<Longrightarrow>
     \<exists>ap. derive_new_contents_from_chunks fs s u chunks = Inr ap \<and> update_content upd = new_contents ap"
  by (auto simp: unified_diff_from_chunks_def unified_diff_from_chunks_with_context_def result_iff)

lemma verify_hunk_files:
  assumes "regular_files fs view" and "verify_hunk ops fs s cwd h = Inr (u, c)"
    and "\<forall>p \<in> set (hunk_paths fs cwd h). v p = view s p" and "distinct (hunk_paths fs cwd h)"
  shows "\<exists>v'. hunk_files fs cwd h v = Some v' \<and> change_holds fs v' u c \<and>
      (\<forall>p. p \<notin> set (hunk_paths fs cwd h) \<longrightarrow> v' p = v p)" (is "\<exists>v'. ?P v'")
    and "change_paths fs u c \<subseteq> set (hunk_paths fs cwd h)"
proof -
  have u: "uri_join fs cwd (hunk_source_path h) = Inr u"
    using assms(2) by (cases h; auto simp: verify_hunk_def bind_res_def join_path_def split: sum.splits option.splits)
  have "(\<exists>v'. ?P v') \<and> change_paths fs u c \<subseteq> set (hunk_paths fs cwd h)"
  proof (cases h)
    case (AddFile p contents)
    then show ?thesis using u assms(2) by (auto simp: verify_hunk_def hunk_paths_def result_iff)
  next
    case (DeleteFile p)
    then obtain t where "read_file_text fs s u = Inr t" "c = Delete t"
      using u assms(2) by (auto simp: verify_hunk_def result_iff split: sum.splits)
    then have "view s (to_path_buf fs u) \<noteq> None" using regular_read [OF assms(1)] by auto
    then show ?thesis using u DeleteFile \<open>c = Delete t\<close> assms(3) by (auto simp: hunk_paths_def)
  next
    case (UpdateFile p mv chunks)
    then obtain upd where upd: "unified_diff_from_chunks ops fs s u chunks = Inr upd"
      and c: "c = Update (update_unified_diff upd) None (update_content upd) \<and> mv = None \<or>
        (\<exists>dest w. mv = Some dest \<and> uri_join fs cwd dest = Inr w \<and>
          c = Update (update_unified_diff upd) (Some w) (update_content upd))"
      using u assms(2) by (auto simp: verify_hunk_def result_iff split: option.splits)
    obtain b t where b: "view s (to_path_buf fs u) = Some b" "from_utf8 b = Inr t"
        "new_contents_of t (to_path_buf fs u) chunks = Inr (update_content upd)"
      using unified_diff_Inr [OF upd] regular_derive [OF assms(1)] by metis
    then have v: "v (to_path_buf fs u) = Some b" using assms(3) u UpdateFile by (auto simp: hunk_paths_def)
    from c show ?thesis using u v b UpdateFile assms(4) by (auto simp: hunk_paths_def)
  qed
  then show "\<exists>v'. ?P v'" and "change_paths fs u c \<subseteq> set (hunk_paths fs cwd h)" by blast+
qed

lemma verify_loop_files:
  assumes "regular_files fs view" and "verify_loop ops fs s cwd hs m = Inr m'"
    and "distinct (touched fs cwd hs)" and "\<forall>p \<in> set (touched fs cwd hs). v p = view s p"
    and "\<forall>u c. m u = Some c \<longrightarrow> change_holds fs v u c \<and> change_paths fs u c \<inter> set (touched fs cwd hs) = {}"
  shows "\<exists>v'. hunks_files fs cwd hs v = (v', True) \<and> (\<forall>u c. m' u = Some c \<longrightarrow> change_holds fs v' u c) \<and>
    (\<forall>p. p \<notin> set (touched fs cwd hs) \<longrightarrow> v' p = v p)"
  using assms(2-)
proof (induction hs arbitrary: m v)
  case (Cons h hs)
  obtain u c where h: "verify_hunk ops fs s cwd h = Inr (u, c)" and rest: "verify_loop ops fs s cwd hs (m(u \<mapsto> c)) = Inr m'"
    using Cons.prems(1) by (auto simp: result_iff)
  have t: "touched fs cwd (h # hs) = hunk_paths fs cwd h @ touched fs cwd hs" by (simp add: touched_def)
  obtain v1 where v1: "hunk_files fs cwd h v = Some v1" "change_holds fs v1 u c"
      "\<forall>p. p \<notin> set (hunk_paths fs cwd h) \<longrightarrow> v1 p = v p"
    using verify_hunk_files(1) [OF assms(1) h, of v] Cons.prems(2,3) t by auto
  have paths: "change_paths fs u c \<subseteq> set (hunk_paths fs cwd h)"
    using verify_hunk_files(2) [OF assms(1) h, of v] Cons.prems(2,3) t by auto
  have "\<exists>v'. hunks_files fs cwd hs v1 = (v', True) \<and> (\<forall>u c. m' u = Some c \<longrightarrow> change_holds fs v' u c) \<and>
    (\<forall>p. p \<notin> set (touched fs cwd hs) \<longrightarrow> v' p = v1 p)"
  proof (rule Cons.IH [OF rest])
    show "distinct (touched fs cwd hs)" using Cons.prems(2) t by simp
    show "\<forall>p \<in> set (touched fs cwd hs). v1 p = view s p" using Cons.prems(2,3) t v1(3) by auto
    show "\<forall>u' c'. (m(u \<mapsto> c)) u' = Some c' \<longrightarrow>
        change_holds fs v1 u' c' \<and> change_paths fs u' c' \<inter> set (touched fs cwd hs) = {}"
    proof (intro allI impI)
      fix u' c' assume m: "(m(u \<mapsto> c)) u' = Some c'"
      show "change_holds fs v1 u' c' \<and> change_paths fs u' c' \<inter> set (touched fs cwd hs) = {}"
      proof (cases "u' = u")
        case True
        then show ?thesis using m v1(2) paths Cons.prems(2) t by auto
      next
        case False
        then have "m u' = Some c'" using m by simp
        then have o: "change_holds fs v u' c'" "change_paths fs u' c' \<inter> set (touched fs cwd (h # hs)) = {}"
          using Cons.prems(4) by blast+
        then show ?thesis using change_holds_cong [OF o(1), of v1] v1(3) t by auto
      qed
    qed
  qed
  then show ?case using v1 t by auto
qed simp


lemma verified_args:
  assumes "maybe_parse_apply_patch_verified ops fs s argv cwd = VerifiedBody action"
  obtains t args where "parse_patch t = Inr args" "action_patch action = arg_patch args"
    "verify_loop ops fs s (action_cwd action) (arg_hunks args) Map.empty = Inr (action_changes action)"
proof -
  obtain args where "maybe_parse_apply_patch ops argv cwd = Body args" and
    v: "try_verify_apply_patch_args ops fs s args cwd = Inr action"
    using assms by (auto simp: maybe_parse_apply_patch_verified_def verify_apply_patch_args_def
        split: if_splits maybe_apply_patch.splits sum.splits)
  then obtain t args' where "parse_patch t = Inr args'" "arg_patch args' = arg_patch args" "arg_hunks args' = arg_hunks args"
    by (auto simp: maybe_parse_apply_patch_def maybe_parse_shell_def
        split: list.splits if_splits sum.splits option.splits prod.splits extract_heredoc_error.splits)
  moreover from v have "action_patch action = arg_patch args"
    "verify_loop ops fs s (action_cwd action) (arg_hunks args) Map.empty = Inr (action_changes action)"
    by (auto simp: try_verify_apply_patch_args_def result_iff)
  ultimately show ?thesis using that by metis
qed

section \<open>Two hunks for one file\<close>

definition example_ops :: "rstring invocation_ops" where
  "example_ops = \<lparr>infer_path_convention = (\<lambda>_. Some Posix),
     extract_apply_patch_from_bash = (\<lambda>_. Inl CommandDidNotStartWithApplyPatch), unified_diff_text = (\<lambda>_ _ _. [])\<rparr>"

definition two_updates :: "hunk list" where
  "two_updates =
     [UpdateFile (lit ''f'') None
        [\<lparr>change_context = None, old_lines = [lit ''a''], new_lines = [lit ''b''], is_end_of_file = False\<rparr>],
      UpdateFile (lit ''f'') None
        [\<lparr>change_context = None, old_lines = [lit ''c''], new_lines = [lit ''d''], is_end_of_file = False\<rparr>]]"

text \<open>A patch may update a file twice: the verified changes show the last update alone, made on the
  original file, and the application makes both.\<close>

lemma two_updates_shown_as_one:
  "(case verify_loop example_ops mem_fs
       \<lparr>mem_dirs = [[]], mem_files = [lit ''/f'' \<mapsto> utf8_bytes (lit ''a'' @ [newline] @ lit ''c'' @ [newline])]\<rparr> []
       two_updates Map.empty of
     Inr m \<Rightarrow> map_option new_content (m (lit ''/f'')) = Some (lit ''a'' @ [newline] @ lit ''d'' @ [newline])
   | Inl _ \<Rightarrow> False) \<and>
   (case apply_hunks_to_files mem_fs [] two_updates
       \<lparr>mem_dirs = [[]], mem_files = [lit ''/f'' \<mapsto> utf8_bytes (lit ''a'' @ [newline] @ lit ''c'' @ [newline])]\<rparr> empty_delta of
     (s, d, r) \<Rightarrow> mem_files s (lit ''/f'') = Some (utf8_bytes (lit ''b'' @ [newline] @ lit ''d'' @ [newline])))"
  by code_simp

section \<open>Properties\<close>


definition example_patch :: rstring where
  "example_patch = join [newline]
     [lit ''*** Begin Patch'', lit ''*** Add File: d/g'', lit ''+x'', lit ''*** Update File: f'',
      lit ''*** Move to: h'', lit ''@@'', lit ''-a'', lit ''+b'', lit ''*** End Patch'']"

definition example_writer :: "rstring list writer" where
  "example_writer w l = (w @ [l], Inr ())"


end
