(* ===== verification/Unix_Path.thy ===== *)
theory Unix_Path
  imports Prelude
begin

text \<open>
  Paths on Unix: what the code uses of \<open>std::path\<close> (components, file name, joining) and the absolute
  paths of \<^verbatim>\<open>utils/absolute-path\<close>, which expand a leading tilde, resolve against the current
  directory and remove dots lexically.  The home directory and the current directory are parameters.

  The lemmas show that an absolute path is in normal form and that making a path absolute twice is
  making it absolute once.
\<close>

section \<open>The standard library\<close>

datatype component = RootDir | CurDir | ParentDir | Normal rstring

definition slash :: rchar where "slash = 47"

definition is_absolute :: "rstring \<Rightarrow> bool" where
  "is_absolute p \<longleftrightarrow> (case p of c # _ \<Rightarrow> c = slash | [] \<Rightarrow> False)"

definition segment :: "rstring \<Rightarrow> component list" where
  "segment s =
     (if s = [] \<or> s = lit ''.'' then [] else if s = lit ''..'' then [ParentDir] else [Normal s])"

text \<open>\<open>Path::components\<close>: repeated slashes and inner dots are dropped, a leading dot is kept.\<close>

definition components :: "rstring \<Rightarrow> component list" where
  "components p =
     (if is_absolute p then RootDir # concat (map segment (split_char slash (tl p)))
      else case split_char slash p of
        [] \<Rightarrow> []
      | s # ss \<Rightarrow> (if s = lit ''.'' then [CurDir] else segment s) @ concat (map segment ss))"

definition file_name :: "rstring \<Rightarrow> rstring option" where
  "file_name p = (case last_opt (components p) of Some (Normal s) \<Rightarrow> Some s | _ \<Rightarrow> None)"

definition path_join :: "rstring \<Rightarrow> rstring \<Rightarrow> rstring" where
  "path_join base p =
     (if is_absolute p then p
      else if base = [] \<or> last base = slash then base @ p
      else base @ slash # p)"

section \<open>Absolute paths\<close>

record path_env =
  home_dir :: "rstring option"
  current_dir :: "io_error + rstring"

definition maybe_expand_home_directory :: "path_env \<Rightarrow> rstring \<Rightarrow> rstring" where
  "maybe_expand_home_directory env path =
     (case (home_dir env, strip_prefix (lit ''~'') path) of
        (Some home, Some rest) \<Rightarrow>
          if rest = [] then home
          else (case strip_prefix (lit ''/'') rest of
                  Some rest \<Rightarrow> path_join home (dropWhile (\<lambda>c. c = slash) rest)
                | None \<Rightarrow> path)
      | _ \<Rightarrow> path)"

text \<open>The path that is built component by component: whether it has a root, and its names.\<close>

type_synonym path_buf = "bool \<times> rstring list"

fun push_component :: "path_buf \<Rightarrow> component \<Rightarrow> path_buf" where
  "push_component b CurDir = b"
| "push_component (root, names) ParentDir = (root, butlast names)"
| "push_component b RootDir = (True, [])"
| "push_component (root, names) (Normal s) = (root, names @ [s])"

definition normalize_path :: "rstring \<Rightarrow> rstring" where
  "normalize_path path =
     (let (root, names) = fold (\<lambda>c b. push_component b c) (components path) (False, []);
          normalized = (if root then [slash] else []) @ join [slash] names
      in if normalized = [] then lit ''.'' else normalized)"

definition absolutize_from :: "rstring \<Rightarrow> rstring \<Rightarrow> rstring" where
  "absolutize_from path base = normalize_path (if is_absolute path then path else path_join base path)"

definition absolutize :: "path_env \<Rightarrow> rstring \<Rightarrow> io_error + rstring" where
  "absolutize env path =
     (if is_absolute path then Inr (normalize_path path)
      else bind_res (current_dir env) (\<lambda>base. Inr (absolutize_from path base)))"

definition from_absolute_path :: "path_env \<Rightarrow> rstring \<Rightarrow> io_error + rstring" where
  "from_absolute_path env path = absolutize env (maybe_expand_home_directory env path)"

definition from_absolute_path_checked :: "path_env \<Rightarrow> rstring \<Rightarrow> io_error + rstring" where
  "from_absolute_path_checked env path =
     (let expanded = maybe_expand_home_directory env path in
      if \<not> is_absolute expanded
      then Inl \<lparr>io_kind = InvalidInput, io_text = lit ''path is not absolute: '' @ path\<rparr>
      else Inr (absolutize_from expanded [slash]))"

definition resolve_path_against_base :: "path_env \<Rightarrow> rstring \<Rightarrow> rstring \<Rightarrow> rstring" where
  "resolve_path_against_base env path base = absolutize_from (maybe_expand_home_directory env path) base"

section \<open>Normal form\<close>

text \<open>The names of a normal form, and its text.\<close>

definition path_name_ok :: "rstring \<Rightarrow> bool" where
  "path_name_ok s \<longleftrightarrow> s \<noteq> [] \<and> slash \<notin> set s \<and> s \<noteq> lit ''.'' \<and> s \<noteq> lit ''..''"

definition absolute_text :: "rstring list \<Rightarrow> rstring" where
  "absolute_text names = slash # join [slash] names"

lemma segment_names: "slash \<notin> set s \<Longrightarrow> Normal n \<in> set (segment s) \<Longrightarrow> path_name_ok n"
  by (auto simp: segment_def path_name_ok_def split: if_splits)

lemma split_char_Nil [simp]: "split_char c t \<noteq> []"
  by (cases t) (auto split: list.splits)

lemma split_char_no_sep: "s \<in> set (split_char c t) \<Longrightarrow> c \<notin> set s"
proof (induction t arbitrary: s)
  case (Cons x t)
  then show ?case by (cases "split_char c t") (auto split: if_splits)
qed simp

lemma components_names: "Normal n \<in> set (components p) \<Longrightarrow> path_name_ok n"
proof -
  have seg: "path_name_ok n" if "Normal n \<in> set (segment s)" "s \<in> set (split_char slash t)" for s t
    using that segment_names split_char_no_sep by metis
  assume "Normal n \<in> set (components p)"
  then have "\<exists>s \<in> set (split_char slash p) \<union> set (split_char slash (tl p)). Normal n \<in> set (segment s)"
    by (cases "split_char slash p") (auto simp: components_def split: if_splits)
  then show ?thesis using seg by blast
qed

lemma push_names:
  "\<forall>n. Normal n \<in> set cs \<longrightarrow> path_name_ok n \<Longrightarrow> \<forall>n \<in> set (snd b). path_name_ok n \<Longrightarrow>
     \<forall>n \<in> set (snd (fold (\<lambda>c b. push_component b c) cs b)). path_name_ok n"
proof (induction cs arbitrary: b)
  case (Cons c cs)
  obtain r ns where b: "b = (r, ns)" by fastforce
  have "path_name_ok m" if "c = Normal m" for m using Cons.prems(1) that by simp
  then have "\<forall>n \<in> set (snd (push_component b c)). path_name_ok n"
    using Cons.prems(2) by (cases c) (simp_all add: b, metis in_set_butlastD)
  moreover have "\<forall>n. Normal n \<in> set cs \<longrightarrow> path_name_ok n" using Cons.prems(1) by simp
  ultimately show ?case using Cons.IH by simp
qed simp

lemma push_root: "fst b \<Longrightarrow> fst (fold (\<lambda>c b. push_component b c) cs b)"
proof (induction cs arbitrary: b)
  case (Cons c cs)
  obtain r ns where "b = (r, ns)" by fastforce
  then show ?case using Cons by (cases c) auto
qed simp

lemma normalize_absolute:
  assumes "is_absolute p"
  obtains names where "normalize_path p = absolute_text names" "\<forall>n \<in> set names. path_name_ok n"
proof -
  obtain r names where f: "fold (\<lambda>c b. push_component b c) (components p) (False, []) = (r, names)" by fastforce
  have "components p = RootDir # tl (components p)" using assms by (simp add: components_def)
  then have "r" using f push_root [of "(True, [])" "tl (components p)"]
    by (metis fold_simps(2) fst_conv push_component.simps(3))
  moreover have "\<forall>n \<in> set names. path_name_ok n"
    using push_names [of "components p" "(False, [])"] components_names f by auto
  ultimately show ?thesis using that f by (simp add: normalize_path_def absolute_text_def)
qed

lemma split_join:
  "\<forall>n \<in> set ns. slash \<notin> set n \<Longrightarrow> ns \<noteq> [] \<Longrightarrow> split_char slash (join [slash] ns) = ns"
proof (induction ns rule: induct_list012)
  case (2 n)
  then show ?case by (induction n) auto
next
  case (3 n m ns)
  have "split_char slash (n @ slash # r) = n # split_char slash r" if "slash \<notin> set n" for r
    using that by (induction n) auto
  with 3 show ?case by simp
qed simp

lemma components_absolute_text:
  assumes "\<forall>n \<in> set names. path_name_ok n"
  shows "components (absolute_text names) = RootDir # map Normal names"
proof (cases "names = []")
  case True
  then show ?thesis by (simp add: components_def absolute_text_def is_absolute_def segment_def)
next
  case False
  moreover have "concat (map segment ns) = map Normal ns" if "\<forall>n \<in> set ns. path_name_ok n" for ns
    using that by (induction ns) (auto simp: segment_def path_name_ok_def)
  ultimately show ?thesis using assms split_join [of names]
    by (simp add: components_def absolute_text_def is_absolute_def path_name_ok_def)
qed

lemma push_normals: "fold (\<lambda>c b. push_component b c) (map Normal ns) (r, ms) = (r, ms @ ns)"
  by (induction ns arbitrary: ms) simp_all

lemma normalize_absolute_text: "\<forall>n \<in> set names. path_name_ok n \<Longrightarrow> normalize_path (absolute_text names) = absolute_text names"
  by (simp add: normalize_path_def components_absolute_text push_normals) (simp add: absolute_text_def)

lemma file_name_absolute_text:
  "\<forall>n \<in> set names. path_name_ok n \<Longrightarrow> file_name (absolute_text names) = (if names = [] then None else Some (last names))"
  by (simp add: file_name_def components_absolute_text last_opt_def last_map)

lemma absolutize_from_absolute:
  assumes "is_absolute base"
  obtains names where "absolutize_from p base = absolute_text names" "\<forall>n \<in> set names. path_name_ok n"
proof -
  have "is_absolute (if is_absolute p then p else path_join base p)"
    using assms by (cases base) (auto simp: is_absolute_def path_join_def)
  then show ?thesis using normalize_absolute that unfolding absolutize_from_def by metis
qed

lemma absolute_text_absolute [simp]: "is_absolute (absolute_text names)"
  by (simp add: is_absolute_def absolute_text_def)

lemma expand_absolute: "is_absolute p \<Longrightarrow> maybe_expand_home_directory env p = p"
  by (cases p) (auto simp: maybe_expand_home_directory_def strip_prefix_def is_absolute_def slash_def split: option.splits)

text \<open>Every path becomes a normal form, once and for all.\<close>

lemma from_absolute_path_normal:
  assumes "\<And>d. current_dir env = Inr d \<Longrightarrow> is_absolute d" and "from_absolute_path env p = Inr q"
  shows "\<exists>names. q = absolute_text names \<and> (\<forall>n \<in> set names. path_name_ok n)" and "from_absolute_path env q = Inr q"
proof -
  let ?e = "maybe_expand_home_directory env p"
  from assms(2) consider (abs) "is_absolute ?e" "q = absolutize_from ?e [slash]"
    | (rel) d where "\<not> is_absolute ?e" "current_dir env = Inr d" "q = absolutize_from ?e d"
    by (auto simp: from_absolute_path_def absolutize_def absolutize_from_def result_iff split: if_splits)
  moreover have "is_absolute [slash]" by (simp add: is_absolute_def)
  ultimately obtain d where "is_absolute d" "q = absolutize_from ?e d"
    using assms(1) by metis
  then obtain names where names: "q = absolute_text names" "\<forall>n \<in> set names. path_name_ok n"
    using absolutize_from_absolute by metis
  then show "\<exists>names. q = absolute_text names \<and> (\<forall>n \<in> set names. path_name_ok n)" by blast
  show "from_absolute_path env q = Inr q"
    using names by (simp add: from_absolute_path_def expand_absolute absolutize_def normalize_absolute_text)
qed

section \<open>Prefixes and parents\<close>

text \<open>\<open>Path::starts_with\<close>, \<open>Path::strip_prefix\<close>, \<open>Path::parent\<close> and \<open>Path::ancestors\<close>: paths are
  compared by their components, and a part of a path is the list of its components or the text of it.\<close>

definition path_starts_with :: "rstring \<Rightarrow> rstring \<Rightarrow> bool" where
  "path_starts_with path base \<longleftrightarrow> prefix (components base) (components path)"

definition path_strip_prefix :: "rstring \<Rightarrow> rstring \<Rightarrow> component list option" where
  "path_strip_prefix path base = strip_prefix (components base) (components path)"

fun component_text :: "component \<Rightarrow> rstring" where
  "component_text RootDir = [slash]"
| "component_text CurDir = lit ''.''"
| "component_text ParentDir = lit ''..''"
| "component_text (Normal s) = s"

fun path_of_components :: "component list \<Rightarrow> rstring" where
  "path_of_components (RootDir # cs) = slash # join [slash] (map component_text cs)"
| "path_of_components cs = join [slash] (map component_text cs)"

definition path_parent :: "rstring \<Rightarrow> rstring option" where
  "path_parent p =
     (case components p of
        [] \<Rightarrow> None
      | cs \<Rightarrow> if last cs = RootDir then None else Some (path_of_components (butlast cs)))"

definition ancestors :: "rstring \<Rightarrow> rstring list" where
  "ancestors p =
     (let cs = components p
      in map (\<lambda>n. path_of_components (take n cs)) (rev [(if is_absolute p then 1 else 0)..<Suc (length cs)]))"

text \<open>The normal form of an absolute path, and its names.\<close>

definition is_normal :: "rstring \<Rightarrow> bool" where
  "is_normal p \<longleftrightarrow> is_absolute p \<and> normalize_path p = p"

definition path_names :: "rstring \<Rightarrow> rstring list" where
  "path_names p = map component_text (tl (components p))"

lemma is_normal_iff: "is_normal p \<longleftrightarrow> (\<exists>names. p = absolute_text names \<and> (\<forall>n \<in> set names. path_name_ok n))"
proof
  assume p: "is_normal p"
  then have "is_absolute p" "normalize_path p = p" by (simp_all add: is_normal_def)
  moreover obtain names where "normalize_path p = absolute_text names" "\<forall>n \<in> set names. path_name_ok n"
    using normalize_absolute [OF \<open>is_absolute p\<close>] by blast
  ultimately show "\<exists>names. p = absolute_text names \<and> (\<forall>n \<in> set names. path_name_ok n)" by metis
qed (auto simp: is_normal_def normalize_absolute_text)

lemma path_names_absolute_text: "\<forall>n \<in> set names. path_name_ok n \<Longrightarrow> path_names (absolute_text names) = names"
  by (simp add: path_names_def components_absolute_text map_idI)

lemma normal_names:
  assumes "is_normal p"
  shows "absolute_text (path_names p) = p" "\<forall>n \<in> set (path_names p). path_name_ok n"
    "components p = RootDir # map Normal (path_names p)"
  using assms path_names_absolute_text components_absolute_text by (auto simp: is_normal_iff)

lemma normal_eq_iff: "is_normal p \<Longrightarrow> is_normal q \<Longrightarrow> p = q \<longleftrightarrow> path_names p = path_names q"
  using normal_names(1) by metis

lemma prefix_map_Normal [simp]: "prefix (map Normal xs) (map Normal ys) \<longleftrightarrow> prefix xs ys"
proof (induction xs arbitrary: ys)
  case (Cons x xs)
  then show ?case by (cases ys) auto
qed simp

lemma normal_starts_with:
  "is_normal p \<Longrightarrow> is_normal b \<Longrightarrow> path_starts_with p b \<longleftrightarrow> prefix (path_names b) (path_names p)"
  by (simp add: path_starts_with_def normal_names(3))

lemma normal_absolute: "is_normal p \<Longrightarrow> is_absolute p"
  by (simp add: is_normal_def)

lemma absolute_text_normal [simp]: "\<forall>n \<in> set names. path_name_ok n \<Longrightarrow> is_normal (absolute_text names)"
  by (auto simp: is_normal_iff)

lemma from_absolute_path_normal_id: "is_normal p \<Longrightarrow> from_absolute_path env p = Inr p"
  by (simp add: from_absolute_path_def expand_absolute normal_absolute absolutize_def) (simp add: is_normal_def)

lemma starts_with_refl [simp]: "path_starts_with p p"
  by (simp add: path_starts_with_def)

lemma starts_with_trans: "path_starts_with p q \<Longrightarrow> path_starts_with q r \<Longrightarrow> path_starts_with p r"
  unfolding path_starts_with_def using prefix_order.trans by blast

lemma starts_with_total:
  "path_starts_with p q \<Longrightarrow> path_starts_with p r \<Longrightarrow> length (components q) \<le> length (components r) \<Longrightarrow> path_starts_with r q"
  unfolding path_starts_with_def by (metis prefix_length_prefix)

lemma normal_antisym: "is_normal p \<Longrightarrow> is_normal q \<Longrightarrow> path_starts_with p q \<Longrightarrow> path_starts_with q p \<Longrightarrow> p = q"
  by (metis normal_eq_iff normal_starts_with prefix_order.antisym)

text \<open>Joining a plain name to a normal path appends it to the names.\<close>

lemma split_char_append: "split_char c (xs @ c # ys) = split_char c xs @ split_char c ys"
  by (induction xs) (auto split: list.splits)

lemma components_join:
  assumes "is_absolute b" and "\<not> is_absolute t"
  shows "components (path_join b t) = components b @ concat (map segment (split_char slash t))"
proof -
  obtain r where b: "b = slash # r" using assms(1) by (auto simp: is_absolute_def split: list.splits)
  have segs: "components (slash # xs @ slash # t) = components (slash # xs) @ concat (map segment (split_char slash t))" for xs
    by (simp add: components_def is_absolute_def split_char_append)
  have root: "components (slash # t) = components [slash] @ concat (map segment (split_char slash t))"
    by (simp add: components_def is_absolute_def segment_def)
  show ?thesis
  proof (cases "last b = slash")
    case True
    show ?thesis
    proof (cases r rule: rev_cases)
      case Nil
      then show ?thesis using True b assms(2) root by (simp add: path_join_def)
    next
      case (snoc xs x)
      then have x: "x = slash" using True b by simp
      have "components (slash # xs @ [slash]) = components (slash # xs)"
        by (simp add: components_def is_absolute_def split_char_append segment_def)
      then show ?thesis using True b assms(2) snoc x segs [of xs] by (simp add: path_join_def)
    qed
  next
    case False
    then show ?thesis using b assms(2) segs [of r] by (simp add: path_join_def)
  qed
qed

lemma path_name_relative: "path_name_ok n \<Longrightarrow> \<not> is_absolute n"
  by (auto simp: path_name_ok_def is_absolute_def split: list.splits)

lemma split_char_none: "c \<notin> set n \<Longrightarrow> split_char c n = [n]"
  by (induction n) auto

lemma resolve_name:
  assumes "is_normal b" and "path_name_ok n" and "hd n \<noteq> 126"
  shows "resolve_path_against_base env n b = absolute_text (path_names b @ [n])"
proof -
  have n: "n \<noteq> []" "slash \<notin> set n" "segment n = [Normal n]" using assms(2) by (auto simp: path_name_ok_def segment_def)
  have "components (path_join b n) = RootDir # map Normal (path_names b @ [n])"
    using components_join [OF normal_absolute [OF assms(1)] path_name_relative [OF assms(2)]] n normal_names(3) [OF assms(1)]
    by (simp add: split_char_none)
  moreover have "maybe_expand_home_directory env n = n"
    using n(1) assms(3) by (cases n) (auto simp: maybe_expand_home_directory_def strip_prefix_def split: option.splits)
  ultimately show ?thesis
    using path_name_relative [OF assms(2)]
    by (simp add: resolve_path_against_base_def absolutize_from_def normalize_path_def push_normals absolute_text_def)
qed

lemma last_ancestor: "is_normal p \<Longrightarrow> last_opt (ancestors p) = Some [slash]"
proof -
  assume p: "is_normal p"
  have "[1..<Suc (length (components p))] = 1 # [2..<Suc (length (components p))]"
    using p by (simp add: normal_names(3) upt_conv_Cons numeral_2_eq_2 del: upt_Suc)
  then show ?thesis using p by (simp add: ancestors_def normal_absolute normal_names(3) del: upt_Suc)
qed

end
