(* ===== verification/Sandbox_Policy.thy ===== *)
theory Sandbox_Policy
  imports Unix_Path "HOL-Library.List_Lexorder" "HOL-Library.Product_Lexorder"
begin

text \<open>
  The file system permissions of a session (\<^verbatim>\<open>protocol/src/permissions.rs\<close>, on Unix): entries give paths an access mode, the entry
  closest to a path decides, and the metadata directories of a writable root stay protected.  The
  variable \<^verbatim>\<open>TMPDIR\<close>, what the code asks of the disk and the glob matcher are the fields of
  \<open>sandbox_env\<close>.

  The lemmas show which entry decides, whatever the order of the entries, and what a denied or a
  protected path means for reading and writing.
\<close>

section \<open>The environment\<close>

text \<open>\<open>symlink_metadata\<close> answers whether the path is a symbolic link, or None on an error.\<close>

record sandbox_env =
  sandbox_paths :: path_env
  tmpdir_var :: "rstring option"
  path_is_dir :: "rstring \<Rightarrow> bool"
  path_is_file :: "rstring \<Rightarrow> bool"
  path_exists :: "rstring \<Rightarrow> bool"
  read_to_string :: "rstring \<Rightarrow> io_error + rstring"
  symlink_metadata :: "rstring \<Rightarrow> bool option"
  std_canonicalize :: "rstring \<Rightarrow> rstring option"
  dunce_canonicalize :: "rstring \<Rightarrow> rstring option"
  glob_matcher :: "rstring \<Rightarrow> rstring + (rstring \<Rightarrow> bool)"

definition abs_path :: "sandbox_env \<Rightarrow> rstring \<Rightarrow> rstring option" where
  "abs_path env p = (case from_absolute_path (sandbox_paths env) p of Inr q \<Rightarrow> Some q | Inl _ \<Rightarrow> None)"

text \<open>\<open>AbsolutePathBuf::join\<close>.\<close>

abbreviation abs_join :: "sandbox_env \<Rightarrow> rstring \<Rightarrow> rstring \<Rightarrow> rstring" where
  "abs_join env base p \<equiv> resolve_path_against_base (sandbox_paths env) p base"

section \<open>Policies\<close>

datatype network_sandbox_policy = NetworkRestricted | NetworkEnabled

definition network_is_enabled :: "network_sandbox_policy \<Rightarrow> bool" where
  "network_is_enabled n \<longleftrightarrow> n = NetworkEnabled"

datatype file_system_access_mode = Read | Write | Deny

fun access_rank :: "file_system_access_mode \<Rightarrow> nat" where
  "access_rank Read = 0"
| "access_rank Write = 1"
| "access_rank Deny = 2"

instantiation file_system_access_mode :: linorder
begin

definition less_eq_file_system_access_mode :: "file_system_access_mode \<Rightarrow> file_system_access_mode \<Rightarrow> bool" where
  "a \<le> b \<longleftrightarrow> access_rank a \<le> access_rank b"

definition less_file_system_access_mode :: "file_system_access_mode \<Rightarrow> file_system_access_mode \<Rightarrow> bool" where
  "a < b \<longleftrightarrow> access_rank a < access_rank b"

instance
proof
  fix x y :: file_system_access_mode
  show "x \<le> y \<Longrightarrow> y \<le> x \<Longrightarrow> x = y"
    by (cases x; cases y) (simp_all add: less_eq_file_system_access_mode_def)
qed (auto simp: less_eq_file_system_access_mode_def less_file_system_access_mode_def)

end

definition can_read :: "file_system_access_mode \<Rightarrow> bool" where
  "can_read a \<longleftrightarrow> a \<noteq> Deny"

definition can_write :: "file_system_access_mode \<Rightarrow> bool" where
  "can_write a \<longleftrightarrow> a = Write"

datatype file_system_special_path =
    Root
  | Minimal
  | ProjectRoots "rstring option"
  | Tmpdir
  | SlashTmp
  | Unknown rstring "rstring option"

datatype file_system_path = Path rstring | GlobPattern rstring | Special file_system_special_path

record file_system_sandbox_entry =
  entry_path :: file_system_path
  entry_access :: file_system_access_mode

datatype file_system_sandbox_kind = Restricted | Unrestricted | ExternalSandbox

record file_system_sandbox_policy =
  policy_kind :: file_system_sandbox_kind
  glob_scan_max_depth :: "nat option"
  policy_entries :: "file_system_sandbox_entry list"

record resolved_file_system_entry =
  resolved_path :: rstring
  resolved_access :: file_system_access_mode

abbreviation entry :: "file_system_path \<Rightarrow> file_system_access_mode \<Rightarrow> file_system_sandbox_entry" where
  "entry p a \<equiv> \<lparr>entry_path = p, entry_access = a\<rparr>"

definition read_only_file_system_entries :: "file_system_sandbox_entry list" where
  "read_only_file_system_entries = [entry (Special Root) Read]"

definition restricted :: "file_system_sandbox_entry list \<Rightarrow> file_system_sandbox_policy" where
  "restricted es = \<lparr>policy_kind = Restricted, glob_scan_max_depth = None, policy_entries = es\<rparr>"

definition read_only :: file_system_sandbox_policy where
  "read_only = restricted read_only_file_system_entries"

definition unrestricted :: file_system_sandbox_policy where
  "unrestricted = \<lparr>policy_kind = Unrestricted, glob_scan_max_depth = None, policy_entries = []\<rparr>"

definition external_sandbox :: file_system_sandbox_policy where
  "external_sandbox = \<lparr>policy_kind = ExternalSandbox, glob_scan_max_depth = None, policy_entries = []\<rparr>"

section \<open>Entries that share a target\<close>

fun special_paths_share_target :: "file_system_special_path \<Rightarrow> file_system_special_path \<Rightarrow> bool" where
  "special_paths_share_target Root Root \<longleftrightarrow> True"
| "special_paths_share_target Minimal Minimal \<longleftrightarrow> True"
| "special_paths_share_target Tmpdir Tmpdir \<longleftrightarrow> True"
| "special_paths_share_target SlashTmp SlashTmp \<longleftrightarrow> True"
| "special_paths_share_target (ProjectRoots l) (ProjectRoots r) \<longleftrightarrow> l = r"
| "special_paths_share_target (Unknown l ls) (Unknown r rs) \<longleftrightarrow> l = r \<and> ls = rs"
| "special_paths_share_target _ _ \<longleftrightarrow> False"

definition special_path_matches_absolute_path :: "file_system_special_path \<Rightarrow> rstring \<Rightarrow> bool" where
  "special_path_matches_absolute_path value path \<longleftrightarrow>
     (case value of
        Root \<Rightarrow> path_parent path = None
      | SlashTmp \<Rightarrow> components path = components (lit ''/tmp'')
      | _ \<Rightarrow> False)"

fun file_system_paths_share_target :: "file_system_path \<Rightarrow> file_system_path \<Rightarrow> bool" where
  "file_system_paths_share_target (Path l) (Path r) \<longleftrightarrow> l = r"
| "file_system_paths_share_target (Special l) (Special r) \<longleftrightarrow> special_paths_share_target l r"
| "file_system_paths_share_target (Path p) (Special v) \<longleftrightarrow> special_path_matches_absolute_path v p"
| "file_system_paths_share_target (Special v) (Path p) \<longleftrightarrow> special_path_matches_absolute_path v p"
| "file_system_paths_share_target (GlobPattern l) (GlobPattern r) \<longleftrightarrow> l = r"
| "file_system_paths_share_target _ _ \<longleftrightarrow> False"

section \<open>Access to the whole disk\<close>

definition has_root_access :: "file_system_sandbox_policy \<Rightarrow> (file_system_access_mode \<Rightarrow> bool) \<Rightarrow> bool" where
  "has_root_access pol predicate \<longleftrightarrow>
     policy_kind pol = Restricted \<and>
     (\<exists>e \<in> set (policy_entries pol). entry_path e = Special Root \<and> predicate (entry_access e))"

definition has_denied_read_restrictions :: "file_system_sandbox_policy \<Rightarrow> bool" where
  "has_denied_read_restrictions pol \<longleftrightarrow>
     policy_kind pol = Restricted \<and> (\<exists>e \<in> set (policy_entries pol). entry_access e = Deny)"

definition has_same_target_write_override :: "file_system_sandbox_policy \<Rightarrow> file_system_sandbox_entry \<Rightarrow> bool" where
  "has_same_target_write_override pol e \<longleftrightarrow>
     (\<exists>candidate \<in> set (policy_entries pol).
        can_write (entry_access candidate) \<and> entry_access candidate > entry_access e \<and>
        file_system_paths_share_target (entry_path candidate) (entry_path e))"

definition has_write_narrowing_entries :: "file_system_sandbox_policy \<Rightarrow> bool" where
  "has_write_narrowing_entries pol \<longleftrightarrow>
     policy_kind pol = Restricted \<and>
     (\<exists>e \<in> set (policy_entries pol).
        \<not> can_write (entry_access e) \<and>
        (case entry_path e of
           Path _ \<Rightarrow> \<not> has_same_target_write_override pol e
         | GlobPattern _ \<Rightarrow> True
         | Special value \<Rightarrow>
             (case value of
                Root \<Rightarrow> entry_access e = Deny
              | Minimal \<Rightarrow> False
              | Unknown _ _ \<Rightarrow> False
              | _ \<Rightarrow> \<not> has_same_target_write_override pol e)))"

definition has_full_disk_read_access :: "file_system_sandbox_policy \<Rightarrow> bool" where
  "has_full_disk_read_access pol \<longleftrightarrow>
     (case policy_kind pol of
        Restricted \<Rightarrow> has_root_access pol can_read \<and> \<not> has_denied_read_restrictions pol
      | _ \<Rightarrow> True)"

definition has_full_disk_write_access :: "file_system_sandbox_policy \<Rightarrow> bool" where
  "has_full_disk_write_access pol \<longleftrightarrow>
     (case policy_kind pol of
        Restricted \<Rightarrow> has_root_access pol can_write \<and> \<not> has_write_narrowing_entries pol
      | _ \<Rightarrow> True)"

definition include_platform_defaults :: "file_system_sandbox_policy \<Rightarrow> bool" where
  "include_platform_defaults pol \<longleftrightarrow>
     \<not> has_full_disk_read_access pol \<and> policy_kind pol = Restricted \<and>
     (\<exists>e \<in> set (policy_entries pol). entry_path e = Special Minimal \<and> can_read (entry_access e))"

section \<open>Resolving entries\<close>

text \<open>The root of a working directory; None is the panic on a root that cannot be made absolute, which
  an absolute directory does not have.\<close>

definition absolute_root_path_for_cwd :: "sandbox_env \<Rightarrow> rstring \<Rightarrow> rstring option" where
  "absolute_root_path_for_cwd env cwd = Option.bind (last_opt (ancestors cwd)) (abs_path env)"

definition resolve_file_system_special_path ::
    "sandbox_env \<Rightarrow> file_system_special_path \<Rightarrow> rstring option \<Rightarrow> rstring option" where
  "resolve_file_system_special_path env value cwd =
     (case value of
        Root \<Rightarrow> None
      | Minimal \<Rightarrow> None
      | Unknown _ _ \<Rightarrow> None
      | ProjectRoots subpath \<Rightarrow>
          Option.bind cwd (\<lambda>cwd. Some (case subpath of Some subpath \<Rightarrow> abs_join env cwd subpath | None \<Rightarrow> cwd))
      | Tmpdir \<Rightarrow>
          Option.bind (tmpdir_var env) (\<lambda>tmpdir. if tmpdir = [] then None else abs_path env tmpdir)
      | SlashTmp \<Rightarrow>
          Option.bind (abs_path env (lit ''/tmp'')) (\<lambda>slash_tmp. if \<not> path_is_dir env slash_tmp then None else Some slash_tmp))"

definition resolve_file_system_path :: "sandbox_env \<Rightarrow> file_system_path \<Rightarrow> rstring option \<Rightarrow> rstring option" where
  "resolve_file_system_path env path cwd =
     (case path of
        Path p \<Rightarrow> Some p
      | GlobPattern _ \<Rightarrow> None
      | Special value \<Rightarrow> resolve_file_system_special_path env value cwd)"

definition resolve_entry_path :: "sandbox_env \<Rightarrow> file_system_path \<Rightarrow> rstring option \<Rightarrow> rstring option" where
  "resolve_entry_path env path cwd =
     (if path = Special Root then Option.bind cwd (absolute_root_path_for_cwd env)
      else resolve_file_system_path env path cwd)"

definition resolved_entries_with_cwd ::
    "sandbox_env \<Rightarrow> file_system_sandbox_policy \<Rightarrow> rstring \<Rightarrow> resolved_file_system_entry list" where
  "resolved_entries_with_cwd env pol cwd =
     List.map_filter
       (\<lambda>e. map_option (\<lambda>p. \<lparr>resolved_path = p, resolved_access = entry_access e\<rparr>)
              (resolve_entry_path env (entry_path e) (abs_path env cwd)))
       (policy_entries pol)"

definition resolve_candidate_path :: "sandbox_env \<Rightarrow> rstring \<Rightarrow> rstring \<Rightarrow> rstring option" where
  "resolve_candidate_path env path cwd =
     (if is_absolute path then abs_path env path
      else map_option (\<lambda>cwd. abs_join env cwd path) (abs_path env cwd))"

section \<open>The access of a path\<close>

text \<open>\<open>Iterator::max_by_key\<close>: the last of the largest elements.\<close>

fun max_by_key :: "('a \<Rightarrow> 'k::linorder) \<Rightarrow> 'a list \<Rightarrow> 'a option" where
  "max_by_key f [] = None"
| "max_by_key f (x # xs) = Some (fold (\<lambda>y m. if f m \<le> f y then y else m) xs x)"

definition resolved_entry_precedence :: "resolved_file_system_entry \<Rightarrow> nat \<times> file_system_access_mode" where
  "resolved_entry_precedence e = (length (components (resolved_path e)), resolved_access e)"

definition resolve_access_with_cwd ::
    "sandbox_env \<Rightarrow> file_system_sandbox_policy \<Rightarrow> rstring \<Rightarrow> rstring \<Rightarrow> file_system_access_mode" where
  "resolve_access_with_cwd env pol path cwd =
     (if policy_kind pol \<noteq> Restricted then Write
      else case resolve_candidate_path env path cwd of
        None \<Rightarrow> Deny
      | Some path \<Rightarrow>
          (case max_by_key resolved_entry_precedence
                  (filter (\<lambda>e. path_starts_with path (resolved_path e)) (resolved_entries_with_cwd env pol cwd)) of
             Some e \<Rightarrow> resolved_access e
           | None \<Rightarrow> Deny))"

definition can_read_path_with_cwd :: "sandbox_env \<Rightarrow> file_system_sandbox_policy \<Rightarrow> rstring \<Rightarrow> rstring \<Rightarrow> bool" where
  "can_read_path_with_cwd env pol path cwd \<longleftrightarrow> can_read (resolve_access_with_cwd env pol path cwd)"

section \<open>Metadata under a writable root\<close>

definition PROTECTED_METADATA_PATH_NAMES :: "rstring list" where
  "PROTECTED_METADATA_PATH_NAMES = [lit ''.git'', lit ''.agents'', lit ''.codex'']"

definition is_protected_metadata_name :: "rstring \<Rightarrow> bool" where
  "is_protected_metadata_name name \<longleftrightarrow> name \<in> set PROTECTED_METADATA_PATH_NAMES"

definition is_protected_metadata_directory_name :: "rstring \<Rightarrow> bool" where
  "is_protected_metadata_directory_name name \<longleftrightarrow> name = lit ''.agents'' \<or> name = lit ''.codex''"

definition metadata_path_name :: "rstring \<Rightarrow> rstring option" where
  "metadata_path_name name = find (\<lambda>metadata_name. name = metadata_name) PROTECTED_METADATA_PATH_NAMES"

definition metadata_child ::
    "sandbox_env \<Rightarrow> rstring \<Rightarrow> resolved_file_system_entry \<Rightarrow> (rstring \<times> rstring) option" where
  "metadata_child env target e =
     (case path_strip_prefix target (resolved_path e) of
        Some (first_component # _) \<Rightarrow>
          map_option (\<lambda>metadata_name. (abs_join env (resolved_path e) metadata_name, metadata_name))
            (metadata_path_name (component_text first_component))
      | _ \<Rightarrow> None)"

definition metadata_child_of_writable_root ::
    "sandbox_env \<Rightarrow> file_system_sandbox_policy \<Rightarrow> rstring \<Rightarrow> rstring \<Rightarrow> (rstring \<times> rstring) option" where
  "metadata_child_of_writable_root env pol target cwd =
     (case List.map_filter (metadata_child env target)
             (filter (\<lambda>e. can_write (resolved_access e)) (resolved_entries_with_cwd env pol cwd)) of
        [] \<Rightarrow> None
      | m # _ \<Rightarrow> Some m)"

definition has_explicit_write_entry_for_metadata_path ::
    "sandbox_env \<Rightarrow> file_system_sandbox_policy \<Rightarrow> rstring \<Rightarrow> rstring \<Rightarrow> rstring \<Rightarrow> bool" where
  "has_explicit_write_entry_for_metadata_path env pol protected_metadata_path target cwd \<longleftrightarrow>
     (\<exists>e \<in> set (resolved_entries_with_cwd env pol cwd).
        can_write (resolved_access e) \<and> path_starts_with target (resolved_path e) \<and>
        path_starts_with (resolved_path e) protected_metadata_path)"

definition is_metadata_write_denied :: "sandbox_env \<Rightarrow> file_system_sandbox_policy \<Rightarrow> rstring \<Rightarrow> rstring \<Rightarrow> bool" where
  "is_metadata_write_denied env pol path cwd \<longleftrightarrow>
     (if policy_kind pol \<noteq> Restricted then False
      else case resolve_candidate_path env path cwd of
        None \<Rightarrow> True
      | Some target \<Rightarrow>
          (case metadata_child_of_writable_root env pol target cwd of
             None \<Rightarrow> False
           | Some (protected_metadata_path, _) \<Rightarrow>
               \<not> has_explicit_write_entry_for_metadata_path env pol protected_metadata_path target cwd))"

definition can_write_path_with_cwd :: "sandbox_env \<Rightarrow> file_system_sandbox_policy \<Rightarrow> rstring \<Rightarrow> rstring \<Rightarrow> bool" where
  "can_write_path_with_cwd env pol path cwd \<longleftrightarrow>
     (if \<not> can_write (resolve_access_with_cwd env pol path cwd) then False
      else if has_full_disk_write_access pol then True
      else \<not> is_metadata_write_denied env pol path cwd)"

definition forbidden_agent_metadata_write ::
    "sandbox_env \<Rightarrow> rstring \<Rightarrow> rstring \<Rightarrow> file_system_sandbox_policy \<Rightarrow> rstring option" where
  "forbidden_agent_metadata_write env path cwd pol =
     (if policy_kind pol \<noteq> Restricted then None
      else Option.bind (resolve_candidate_path env path cwd) (\<lambda>target.
        Option.bind (metadata_child_of_writable_root env pol target cwd) (\<lambda>(protected_metadata_path, metadata_name).
          if has_explicit_write_entry_for_metadata_path env pol protected_metadata_path target cwd then None
          else if \<not> can_write_path_with_cwd env pol target cwd then Some metadata_name
          else None)))"

section \<open>Normal paths\<close>

text \<open>The current directory is absolute, and so are the paths of the entries: they are
  \<open>AbsolutePathBuf\<close> values.\<close>

definition sandbox_env_ok :: "sandbox_env \<Rightarrow> bool" where
  "sandbox_env_ok env \<longleftrightarrow> (case current_dir (sandbox_paths env) of Inr d \<Rightarrow> is_absolute d | Inl _ \<Rightarrow> True)"

definition policy_paths_ok :: "file_system_sandbox_policy \<Rightarrow> bool" where
  "policy_paths_ok pol \<longleftrightarrow> (\<forall>e \<in> set (policy_entries pol). case entry_path e of Path p \<Rightarrow> is_normal p | _ \<Rightarrow> True)"

lemma abs_path_normal:
  assumes "sandbox_env_ok env" and "abs_path env p = Some q"
  shows "is_normal q"
  using from_absolute_path_normal(1) [of "sandbox_paths env" p q] assms
  by (auto simp: abs_path_def sandbox_env_ok_def is_normal_iff split: sum.splits)

lemma abs_path_id [simp]: "is_normal p \<Longrightarrow> abs_path env p = Some p"
  by (simp add: abs_path_def from_absolute_path_normal_id)

lemma abs_join_normal [simp]: "is_normal b \<Longrightarrow> is_normal (abs_join env b p)"
  using absolutize_from_absolute [OF normal_absolute] is_normal_iff unfolding resolve_path_against_base_def by metis

lemma root_normal [simp]: "is_normal [slash]"
  by (auto simp: is_normal_iff absolute_text_def intro: exI [of _ "[]"])

lemma root_for_cwd [simp]: "is_normal cwd \<Longrightarrow> absolute_root_path_for_cwd env cwd = Some [slash]"
  by (simp add: absolute_root_path_for_cwd_def last_ancestor)

lemma special_path_normal:
  assumes "sandbox_env_ok env" and "pred_option is_normal cwd" and "resolve_file_system_special_path env v cwd = Some p"
  shows "is_normal p"
  using assms abs_path_normal [OF assms(1)]
  by (cases v) (auto simp: resolve_file_system_special_path_def bind_eq_Some_conv split: if_splits option.splits)

lemma resolved_normal:
  assumes "sandbox_env_ok env" and "policy_paths_ok pol" and "e \<in> set (resolved_entries_with_cwd env pol cwd)"
  shows "is_normal (resolved_path e)"
proof -
  obtain f where f: "f \<in> set (policy_entries pol)"
      "resolve_entry_path env (entry_path f) (abs_path env cwd) = Some (resolved_path e)"
    using assms(3) by (auto simp: resolved_entries_with_cwd_def)
  have cwd: "pred_option is_normal (abs_path env cwd)"
    using abs_path_normal [OF assms(1)] by (cases "abs_path env cwd") auto
  show ?thesis
  proof (cases "entry_path f")
    case (Path p)
    then show ?thesis using f assms(2) by (auto simp: policy_paths_ok_def resolve_entry_path_def resolve_file_system_path_def)
  next
    case (GlobPattern p)
    then show ?thesis using f by (simp add: resolve_entry_path_def resolve_file_system_path_def)
  next
    case (Special v)
    show ?thesis
    proof (cases "v = Root")
      case True
      then show ?thesis using f(2) cwd Special by (auto simp: resolve_entry_path_def bind_eq_Some_conv dest!: sym [of "[slash]"])
    next
      case False
      then show ?thesis using f(2) special_path_normal [OF assms(1) cwd] Special
        by (simp add: resolve_entry_path_def resolve_file_system_path_def)
    qed
  qed
qed

lemma candidate_normal:
  assumes "sandbox_env_ok env" and "resolve_candidate_path env path cwd = Some q"
  shows "is_normal q"
  using assms abs_path_normal [OF assms(1)] by (auto simp: resolve_candidate_path_def split: if_splits)

lemma candidate_id [simp]: "is_normal q \<Longrightarrow> resolve_candidate_path env q cwd = Some q"
  by (simp add: resolve_candidate_path_def normal_absolute)

section \<open>The deciding entry\<close>

lemma fold_max_key:
  "let m = fold (\<lambda>y m. if f m \<le> f y then y else m) xs x in m \<in> insert x (set xs) \<and> (\<forall>y \<in> insert x (set xs). f y \<le> f m)"
  for f :: "'a \<Rightarrow> 'k::linorder"
proof (induction xs arbitrary: x)
  case (Cons y ys)
  show ?case using Cons [of x] Cons [of y] by (auto simp: Let_def dest: order_trans)
qed simp

lemma max_by_key_None [simp]: "max_by_key f xs = None \<longleftrightarrow> xs = []"
  by (cases xs) auto

lemma max_by_key_Some: "max_by_key f xs = Some m \<Longrightarrow> m \<in> set xs \<and> (\<forall>y \<in> set xs. f y \<le> f m)"
  using fold_max_key [of f _ _] by (cases xs) (auto simp: Let_def)

text \<open>An entry decides on a path if it covers it, lies at or below every other entry that does, and
  no entry for the same path has a mode of higher precedence.\<close>

definition covers :: "resolved_file_system_entry \<Rightarrow> rstring \<Rightarrow> bool" where
  "covers e q \<longleftrightarrow> path_starts_with q (resolved_path e)"

definition decides :: "resolved_file_system_entry list \<Rightarrow> resolved_file_system_entry \<Rightarrow> rstring \<Rightarrow> bool" where
  "decides es e q \<longleftrightarrow> e \<in> set es \<and> covers e q \<and>
     (\<forall>f \<in> set es. covers f q \<longrightarrow> path_starts_with (resolved_path e) (resolved_path f) \<and>
        (resolved_path f = resolved_path e \<longrightarrow> resolved_access f \<le> resolved_access e))"

lemma access_decided:
  assumes "policy_kind pol = Restricted" and "resolve_candidate_path env path cwd = Some q"
  shows "(\<forall>e \<in> set (resolved_entries_with_cwd env pol cwd). \<not> covers e q) \<and> resolve_access_with_cwd env pol path cwd = Deny \<or>
    (\<exists>e. decides (resolved_entries_with_cwd env pol cwd) e q \<and> resolve_access_with_cwd env pol path cwd = resolved_access e)"
proof -
  let ?es = "resolved_entries_with_cwd env pol cwd"
  let ?m = "max_by_key resolved_entry_precedence (filter (\<lambda>e. path_starts_with q (resolved_path e)) ?es)"
  have a: "resolve_access_with_cwd env pol path cwd = (case ?m of Some e \<Rightarrow> resolved_access e | None \<Rightarrow> Deny)"
    using assms by (simp add: resolve_access_with_cwd_def)
  show ?thesis
  proof (cases ?m)
    case None
    then have "\<forall>e \<in> set ?es. \<not> covers e q" by (simp add: covers_def filter_empty_conv)
    then show ?thesis using a None by simp
  next
    case (Some e)
    have e: "e \<in> set ?es" "covers e q"
      and le: "\<And>f. f \<in> set ?es \<Longrightarrow> covers f q \<Longrightarrow> resolved_entry_precedence f \<le> resolved_entry_precedence e"
      using max_by_key_Some [OF Some] by (auto simp: covers_def)
    have "path_starts_with (resolved_path e) (resolved_path f) \<and>
        (resolved_path f = resolved_path e \<longrightarrow> resolved_access f \<le> resolved_access e)"
      if f: "f \<in> set ?es" "covers f q" for f
      using le [OF f] e(2) f(2) starts_with_total [of q "resolved_path f" "resolved_path e"]
      by (auto simp: resolved_entry_precedence_def covers_def less_eq_prod_def)
    then show ?thesis using a Some e by (auto simp: decides_def)
  qed
qed

lemma decides_unique:
  assumes "decides es e q" and "decides es f q" and "\<forall>e \<in> set es. is_normal (resolved_path e)"
  shows "resolved_access e = resolved_access f"
proof -
  have "resolved_path e = resolved_path f"
    using assms by (auto simp: decides_def intro!: normal_antisym)
  then show ?thesis using assms(1,2) by (metis antisym decides_def)
qed

lemma decides_covers: "decides es e q \<Longrightarrow> \<exists>e \<in> set es. covers e q"
  by (auto simp: decides_def)

lemma decides_set: "set es = set fs \<Longrightarrow> decides es = decides fs"
  by (simp add: decides_def fun_eq_iff)

lemma access_iff:
  assumes "sandbox_env_ok env" and "policy_paths_ok pol" and "policy_kind pol = Restricted"
    and "resolve_candidate_path env path cwd = Some q"
  shows "resolve_access_with_cwd env pol path cwd = a \<longleftrightarrow>
    (\<exists>e. decides (resolved_entries_with_cwd env pol cwd) e q \<and> resolved_access e = a) \<or>
    (\<forall>e \<in> set (resolved_entries_with_cwd env pol cwd). \<not> covers e q) \<and> a = Deny"
  using access_decided [OF assms(3,4)] decides_covers decides_unique resolved_normal [OF assms(1,2)] by metis

text \<open>The entries count as a set for the access of a path.\<close>

lemma access_order:
  assumes "sandbox_env_ok env" and "policy_paths_ok pol" and "policy_paths_ok pol'" and "policy_kind pol = policy_kind pol'"
    and "set (policy_entries pol) = set (policy_entries pol')"
  shows "resolve_access_with_cwd env pol path cwd = resolve_access_with_cwd env pol' path cwd"
proof (cases "policy_kind pol = Restricted \<and> resolve_candidate_path env path cwd \<noteq> None")
  case True
  then obtain q where q: "resolve_candidate_path env path cwd = Some q" by blast
  have "set (resolved_entries_with_cwd env pol cwd) = set (resolved_entries_with_cwd env pol' cwd)"
    using assms(5) by (auto simp: resolved_entries_with_cwd_def)
  then show ?thesis
    using access_iff [OF assms(1,2) _ q, of "resolve_access_with_cwd env pol' path cwd"] access_iff [OF assms(1,3) _ q] decides_set
      True assms(4) by metis
next
  case False
  then show ?thesis using assms(4) by (auto simp: resolve_access_with_cwd_def)
qed

section \<open>Examples\<close>

definition example_paths :: path_env where
  "example_paths = \<lparr>home_dir = Some (lit ''/h''), current_dir = Inr (lit ''/w'')\<rparr>"

definition example_sandbox :: sandbox_env where
  "example_sandbox = \<lparr>sandbox_paths = example_paths, tmpdir_var = Some (lit ''/t''), path_is_dir = (\<lambda>p. p = lit ''/tmp''),
     path_is_file = (\<lambda>_. False), path_exists = (\<lambda>_. False),
     read_to_string = (\<lambda>_. Inl \<lparr>io_kind = NotFound, io_text = []\<rparr>), symlink_metadata = (\<lambda>_. None),
     std_canonicalize = (\<lambda>_. None), dunce_canonicalize = (\<lambda>_. None), glob_matcher = (\<lambda>_. Inr (\<lambda>_. False))\<rparr>"

definition example_permissions :: file_system_sandbox_policy where
  "example_permissions = restricted
     [entry (Special Root) Read, entry (Special (ProjectRoots None)) Write, entry (Path (lit ''/w/secret'')) Deny,
      entry (Special (ProjectRoots (Some (lit ''secret/open'')))) Read]"

text \<open>A writable root inside the metadata of another one: the first entry that finds a metadata name
  in the path decides which metadata are looked at, so that the metadata of the inner root are protected
  in one order of the entries and writable in the other.\<close>

lemma nested_metadata_writable:
  "let outer = entry (Path (lit ''/h'')) Write; inner = entry (Path (lit ''/h/.codex/w'')) Write;
       hook = lit ''/h/.codex/w/.git/hooks/pre-commit''
   in can_write_path_with_cwd example_sandbox (restricted [outer, inner]) hook (lit ''/h/.codex/w'') \<and>
      \<not> can_write_path_with_cwd example_sandbox (restricted [inner, outer]) hook (lit ''/h/.codex/w'')"
  by code_simp

section \<open>Properties\<close>

text \<open>C9: the access that a restricted policy gives to a path is that of the deciding entry, the one at
  or below every entry that covers the path, where deny beats write and write beats read among the
  entries of one path; a path that no entry covers is denied, and the order of the entries does not
  matter.\<close>

theorem access_most_specific:
  assumes "sandbox_env_ok env" and "policy_paths_ok pol" and "policy_kind pol = Restricted"
    and "resolve_candidate_path env path cwd = Some q"
  shows "(resolve_access_with_cwd env pol path cwd = a \<longleftrightarrow>
      (\<exists>e. decides (resolved_entries_with_cwd env pol cwd) e q \<and> resolved_access e = a) \<or>
      (\<forall>e \<in> set (resolved_entries_with_cwd env pol cwd). \<not> covers e q) \<and> a = Deny) \<and>
    (set es = set (policy_entries pol) \<longrightarrow>
      resolve_access_with_cwd env (pol\<lparr>policy_entries := es\<rparr>) path cwd = resolve_access_with_cwd env pol path cwd)"
proof (intro conjI impI)
  assume "set es = set (policy_entries pol)"
  then show "resolve_access_with_cwd env (pol\<lparr>policy_entries := es\<rparr>) path cwd = resolve_access_with_cwd env pol path cwd"
    using assms(2) by (intro access_order [OF assms(1)]) (auto simp: policy_paths_ok_def)
qed (rule access_iff [OF assms])

theorem access_most_specific_witness:
  "decides (resolved_entries_with_cwd example_sandbox example_permissions (lit ''/w''))
     \<lparr>resolved_path = lit ''/w/secret/open'', resolved_access = Read\<rparr> (lit ''/w/secret/open/f'') \<and>
   resolve_access_with_cwd example_sandbox example_permissions (lit ''secret/open/f'') (lit ''/w'') = Read \<and>
   resolve_access_with_cwd example_sandbox (example_permissions\<lparr>policy_entries := rev (policy_entries example_permissions)\<rparr>)
     (lit ''secret/open/f'') (lit ''/w'') = Read"
proof -
  have "sandbox_env_ok example_sandbox" "policy_paths_ok example_permissions" "policy_kind example_permissions = Restricted"
      "resolve_candidate_path example_sandbox (lit ''secret/open/f'') (lit ''/w'') = Some (lit ''/w/secret/open/f'')"
    by code_simp+
  note p = access_most_specific [OF this]
  have d: "decides (resolved_entries_with_cwd example_sandbox example_permissions (lit ''/w''))
     \<lparr>resolved_path = lit ''/w/secret/open'', resolved_access = Read\<rparr> (lit ''/w/secret/open/f'')"
    by code_simp
  then have r: "resolve_access_with_cwd example_sandbox example_permissions (lit ''secret/open/f'') (lit ''/w'') = Read"
    unfolding conjunct1 [OF p] by (intro disjI1 exI [of _ "\<lparr>resolved_path = lit ''/w/secret/open'', resolved_access = Read\<rparr>"]) simp
  then show ?thesis using d conjunct2 [OF p, of "rev (policy_entries example_permissions)"] by simp
qed

end
