(* ===== verification/Sandbox_Legacy.thy ===== *)
theory Sandbox_Legacy
  imports Sandbox_Policy
begin

text \<open>
  The older sandbox policies (\<^verbatim>\<open>SandboxPolicy\<close> of \<^verbatim>\<open>protocol/src/protocol.rs\<close>) and their translation to and
  from file system policies (\<^verbatim>\<open>protocol/src/permissions.rs\<close>), with the subpaths of a writable root that stay
  read-only, the merging of deny entries and the making concrete of project roots.

  The lemmas show that the translation back undoes the translation, that the metadata of the workspace
  are protected by it, and that deny entries survive a merge.
\<close>

section \<open>Older policies\<close>

datatype network_access = AccessRestricted | AccessEnabled

datatype sandbox_policy =
    DangerFullAccess
  | ReadOnly bool
  | ExternalSandboxPolicy network_access
  | WorkspaceWrite (writable_roots: "rstring list") (workspace_network: bool) (exclude_tmpdir_env_var: bool) (exclude_slash_tmp: bool)

fun has_full_network_access :: "sandbox_policy \<Rightarrow> bool" where
  "has_full_network_access DangerFullAccess \<longleftrightarrow> True"
| "has_full_network_access (ExternalSandboxPolicy access) \<longleftrightarrow> access = AccessEnabled"
| "has_full_network_access (ReadOnly access) \<longleftrightarrow> access"
| "has_full_network_access (WorkspaceWrite _ access _ _) \<longleftrightarrow> access"

definition network_from_legacy :: "sandbox_policy \<Rightarrow> network_sandbox_policy" where
  "network_from_legacy p = (if has_full_network_access p then NetworkEnabled else NetworkRestricted)"

section \<open>Paths on the disk\<close>

definition should_preserve_logical_path :: "sandbox_env \<Rightarrow> rstring \<Rightarrow> bool" where
  "should_preserve_logical_path env logical \<longleftrightarrow>
     (\<exists>ancestor \<in> set (ancestors logical).
        symlink_metadata env ancestor = Some True \<and> Option.bind (path_parent ancestor) path_parent \<noteq> None)"

definition canonicalize_preserving_symlinks :: "sandbox_env \<Rightarrow> rstring \<Rightarrow> io_error + rstring" where
  "canonicalize_preserving_symlinks env path =
     bind_res (from_absolute_path (sandbox_paths env) path) (\<lambda>logical.
       let preserve_logical_path = should_preserve_logical_path env logical in
       Inr (case dunce_canonicalize env path of
              Some canonical \<Rightarrow> if preserve_logical_path \<and> components canonical \<noteq> components logical then logical else canonical
            | None \<Rightarrow> logical))"

definition normalize_ancestor :: "sandbox_env \<Rightarrow> rstring \<Rightarrow> rstring \<Rightarrow> rstring option" where
  "normalize_ancestor env raw_path ancestor =
     (if symlink_metadata env ancestor = None then None
      else case canonicalize_preserving_symlinks env ancestor of
        Inl _ \<Rightarrow> None
      | Inr normalized_ancestor \<Rightarrow>
          Option.bind (path_strip_prefix raw_path ancestor) (\<lambda>suffix.
            abs_path env (path_join normalized_ancestor (path_of_components suffix))))"

definition normalize_effective_absolute_path :: "sandbox_env \<Rightarrow> rstring \<Rightarrow> rstring" where
  "normalize_effective_absolute_path env path =
     (case List.map_filter (normalize_ancestor env path) (ancestors path) of
        normalized_path # _ \<Rightarrow> normalized_path
      | [] \<Rightarrow> path)"

definition dedup_absolute_paths :: "sandbox_env \<Rightarrow> rstring list \<Rightarrow> bool \<Rightarrow> rstring list" where
  "dedup_absolute_paths env paths normalize_effective_paths =
     fold (\<lambda>path deduped.
             let dedup_path = (if normalize_effective_paths then normalize_effective_absolute_path env path else path)
             in if dedup_path \<in> set deduped then deduped else deduped @ [dedup_path])
       paths []"

definition is_git_pointer_file :: "sandbox_env \<Rightarrow> rstring \<Rightarrow> bool" where
  "is_git_pointer_file env path \<longleftrightarrow> path_is_file env path \<and> file_name path = Some (lit ''.git'')"

definition resolve_gitdir_from_file :: "sandbox_env \<Rightarrow> rstring \<Rightarrow> rstring option" where
  "resolve_gitdir_from_file env dot_git =
     (case read_to_string env dot_git of
        Inl _ \<Rightarrow> None
      | Inr contents \<Rightarrow>
          (case split_once 58 (trim contents) of
             None \<Rightarrow> None
           | Some (before, gitdir_raw) \<Rightarrow>
               if trim before \<noteq> lit ''gitdir'' \<or> trim gitdir_raw = [] then None
               else Option.bind (path_parent dot_git) (\<lambda>base.
                 let gitdir_path = abs_join env base (trim gitdir_raw)
                 in if path_exists env gitdir_path then Some gitdir_path else None)))"

definition default_read_only_subpaths_for_writable_root :: "sandbox_env \<Rightarrow> rstring \<Rightarrow> bool \<Rightarrow> rstring list" where
  "default_read_only_subpaths_for_writable_root env writable_root protect_missing_dot_codex =
     (let top_level_git = abs_join env writable_root (lit ''.git'');
          top_level_agents = abs_join env writable_root (lit ''.agents'');
          top_level_codex = abs_join env writable_root (lit ''.codex'');
          git = (if path_is_dir env top_level_git \<or> path_is_file env top_level_git
                 then (case (if path_is_file env top_level_git \<and> is_git_pointer_file env top_level_git
                             then resolve_gitdir_from_file env top_level_git else None) of
                         Some gitdir \<Rightarrow> [gitdir]
                       | None \<Rightarrow> []) @ [top_level_git]
                 else []);
          agents = (if path_is_dir env top_level_agents then [top_level_agents] else []);
          codex = (if protect_missing_dot_codex \<or> path_is_dir env top_level_codex then [top_level_codex] else [])
      in dedup_absolute_paths env (git @ agents @ codex) False)"

section \<open>From the older policies\<close>

definition append_default_read_only_entry_if_no_explicit_rule ::
    "file_system_path \<Rightarrow> file_system_sandbox_entry list \<Rightarrow> file_system_sandbox_entry list" where
  "append_default_read_only_entry_if_no_explicit_rule path es =
     (if \<exists>e \<in> set es. file_system_paths_share_target (entry_path e) path then es else es @ [entry path Read])"

definition append_default_read_only_path_if_no_explicit_rule ::
    "rstring \<Rightarrow> file_system_sandbox_entry list \<Rightarrow> file_system_sandbox_entry list" where
  "append_default_read_only_path_if_no_explicit_rule path =
     append_default_read_only_entry_if_no_explicit_rule (Path path)"

definition append_default_read_only_project_root_subpath_if_no_explicit_rule ::
    "rstring \<Rightarrow> file_system_sandbox_entry list \<Rightarrow> file_system_sandbox_entry list" where
  "append_default_read_only_project_root_subpath_if_no_explicit_rule subpath =
     append_default_read_only_entry_if_no_explicit_rule (Special (ProjectRoots (Some subpath)))"

text \<open>The loops that protect the default subpaths of one root and of every root.\<close>

definition protect_root :: "sandbox_env \<Rightarrow> bool \<Rightarrow> rstring \<Rightarrow> file_system_sandbox_entry list \<Rightarrow> file_system_sandbox_entry list" where
  "protect_root env protect_missing_dot_codex root =
     fold append_default_read_only_path_if_no_explicit_rule
       (default_read_only_subpaths_for_writable_root env root protect_missing_dot_codex)"

definition protect_roots :: "sandbox_env \<Rightarrow> rstring list \<Rightarrow> file_system_sandbox_entry list \<Rightarrow> file_system_sandbox_entry list" where
  "protect_roots env = fold (protect_root env False)"

text \<open>The grants of a workspace: everything is readable, the workspace and the given roots are writable.\<close>

definition workspace_grants :: "rstring list \<Rightarrow> bool \<Rightarrow> bool \<Rightarrow> file_system_sandbox_entry list" where
  "workspace_grants roots exclude_tmpdir exclude_tmp =
     [entry (Special Root) Read, entry (Special (ProjectRoots None)) Write] @
     (if \<not> exclude_tmp then [entry (Special SlashTmp) Write] else []) @
     (if \<not> exclude_tmpdir then [entry (Special Tmpdir) Write] else []) @
     map (\<lambda>path. entry (Path path) Write) roots"

definition workspace_write :: "sandbox_env \<Rightarrow> rstring list \<Rightarrow> bool \<Rightarrow> bool \<Rightarrow> file_system_sandbox_policy" where
  "workspace_write env roots exclude_tmpdir exclude_tmp =
     restricted (protect_roots env roots
       (fold append_default_read_only_project_root_subpath_if_no_explicit_rule
          [lit ''.git'', lit ''.agents'', lit ''.codex'']
          (workspace_grants roots exclude_tmpdir exclude_tmp)))"

fun policy_from_legacy :: "sandbox_env \<Rightarrow> sandbox_policy \<Rightarrow> file_system_sandbox_policy" where
  "policy_from_legacy env DangerFullAccess = unrestricted"
| "policy_from_legacy env (ExternalSandboxPolicy _) = external_sandbox"
| "policy_from_legacy env (ReadOnly _) = restricted [entry (Special Root) Read]"
| "policy_from_legacy env (WorkspaceWrite roots _ exclude_tmpdir exclude_tmp) =
     workspace_write env roots exclude_tmpdir exclude_tmp"

definition from_legacy_sandbox_policy_for_cwd :: "sandbox_env \<Rightarrow> sandbox_policy \<Rightarrow> rstring \<Rightarrow> file_system_sandbox_policy" where
  "from_legacy_sandbox_policy_for_cwd env p cwd =
     (let pol = policy_from_legacy env p in
      case p of
        WorkspaceWrite roots _ _ _ \<Rightarrow>
          pol\<lparr>policy_entries := protect_roots env roots
                (case abs_path env cwd of
                   Some cwd_root \<Rightarrow> protect_root env True cwd_root (policy_entries pol)
                 | None \<Rightarrow> policy_entries pol)\<rparr>
      | _ \<Rightarrow> pol)"

text \<open>The policy that the older runtimes enforce.\<close>

definition legacy_runtime_file_system_policy_for_cwd :: "sandbox_env \<Rightarrow> sandbox_policy \<Rightarrow> rstring \<Rightarrow> file_system_sandbox_policy" where
  "legacy_runtime_file_system_policy_for_cwd env p cwd =
     (case p of
        WorkspaceWrite roots _ exclude_tmpdir exclude_tmp \<Rightarrow>
          (let es = workspace_grants roots exclude_tmpdir exclude_tmp
           in restricted (protect_roots env roots
                (case abs_path env cwd of Some cwd_root \<Rightarrow> protect_root env True cwd_root es | None \<Rightarrow> es)))
      | _ \<Rightarrow> policy_from_legacy env p)"

section \<open>Deny entries\<close>

definition push_deny_entries ::
    "file_system_sandbox_entry list \<Rightarrow> file_system_sandbox_entry list \<Rightarrow> file_system_sandbox_entry list" where
  "push_deny_entries existing =
     fold (\<lambda>deny_entry es. if deny_entry \<in> set es then es else es @ [deny_entry])
       (filter (\<lambda>e. entry_access e = Deny) existing)"

definition from_legacy_sandbox_policy_preserving_deny_entries ::
    "sandbox_env \<Rightarrow> sandbox_policy \<Rightarrow> rstring \<Rightarrow> file_system_sandbox_policy \<Rightarrow> file_system_sandbox_policy" where
  "from_legacy_sandbox_policy_preserving_deny_entries env p cwd existing =
     (let rebuilt = from_legacy_sandbox_policy_for_cwd env p cwd
      in if policy_kind rebuilt \<noteq> Restricted then rebuilt
         else rebuilt\<lparr>glob_scan_max_depth := glob_scan_max_depth existing,
                policy_entries := push_deny_entries (policy_entries existing) (policy_entries rebuilt)\<rparr>)"

definition preserve_deny_read_restrictions_from ::
    "file_system_sandbox_policy \<Rightarrow> file_system_sandbox_policy \<Rightarrow> file_system_sandbox_policy" where
  "preserve_deny_read_restrictions_from self existing =
     (let has_deny_read_entries = (\<exists>e \<in> set (policy_entries existing). entry_access e = Deny);
          self = (if policy_kind self = Unrestricted \<and> has_deny_read_entries
                  then restricted [entry (Special Root) Write] else self)
      in if policy_kind self \<noteq> Restricted then self
         else self\<lparr>glob_scan_max_depth :=
                  (if glob_scan_max_depth self = None then glob_scan_max_depth existing else glob_scan_max_depth self),
                policy_entries := push_deny_entries (policy_entries existing) (policy_entries self)\<rparr>)"

section \<open>Project roots\<close>

definition PROJECT_ROOTS_GLOB_PATTERN_PREFIX :: rstring where
  "PROJECT_ROOTS_GLOB_PATTERN_PREFIX = lit ''codex-project-roots://''"

definition project_roots_glob_pattern :: "rstring \<Rightarrow> rstring" where
  "project_roots_glob_pattern subpath = PROJECT_ROOTS_GLOB_PATTERN_PREFIX @ subpath"

definition parse_project_roots_glob_pattern :: "rstring \<Rightarrow> rstring option" where
  "parse_project_roots_glob_pattern pattern = strip_prefix PROJECT_ROOTS_GLOB_PATTERN_PREFIX pattern"

definition resolve_project_roots_glob_pattern :: "sandbox_env \<Rightarrow> rstring \<Rightarrow> rstring \<Rightarrow> rstring" where
  "resolve_project_roots_glob_pattern env subpath root = abs_join env root subpath"

definition materialize_entry_with_cwd :: "sandbox_env \<Rightarrow> rstring option \<Rightarrow> file_system_sandbox_entry \<Rightarrow> file_system_sandbox_entry" where
  "materialize_entry_with_cwd env cwd e =
     (case entry_path e of
        Special (ProjectRoots _) \<Rightarrow>
          (case resolve_file_system_path env (entry_path e) cwd of
             Some path \<Rightarrow> e\<lparr>entry_path := Path path\<rparr>
           | None \<Rightarrow> e)
      | GlobPattern pattern \<Rightarrow>
          (case (cwd, parse_project_roots_glob_pattern pattern) of
             (Some cwd, Some subpath) \<Rightarrow> e\<lparr>entry_path := GlobPattern (resolve_project_roots_glob_pattern env subpath cwd)\<rparr>
           | _ \<Rightarrow> e)
      | _ \<Rightarrow> e)"

definition materialize_project_roots_with_cwd :: "sandbox_env \<Rightarrow> file_system_sandbox_policy \<Rightarrow> rstring \<Rightarrow> file_system_sandbox_policy" where
  "materialize_project_roots_with_cwd env pol cwd =
     pol\<lparr>policy_entries := map (materialize_entry_with_cwd env (abs_path env cwd)) (policy_entries pol)\<rparr>"

definition materialize_entry :: "sandbox_env \<Rightarrow> rstring list \<Rightarrow> file_system_sandbox_entry \<Rightarrow> file_system_sandbox_entry list" where
  "materialize_entry env workspace_roots e =
     (case entry_path e of
        Special (ProjectRoots subpath) \<Rightarrow>
          map (\<lambda>root. entry (Path (case subpath of Some subpath \<Rightarrow> abs_join env root subpath | None \<Rightarrow> root)) (entry_access e))
            workspace_roots
      | GlobPattern pattern \<Rightarrow>
          (case parse_project_roots_glob_pattern pattern of
             Some subpath \<Rightarrow>
               map (\<lambda>root. entry (GlobPattern (resolve_project_roots_glob_pattern env subpath root)) (entry_access e)) workspace_roots
           | None \<Rightarrow> [e])
      | _ \<Rightarrow> [e])"

definition materialize_project_roots_with_workspace_roots ::
    "sandbox_env \<Rightarrow> file_system_sandbox_policy \<Rightarrow> rstring list \<Rightarrow> file_system_sandbox_policy" where
  "materialize_project_roots_with_workspace_roots env pol workspace_roots =
     pol\<lparr>policy_entries := concat (map (materialize_entry env workspace_roots) (policy_entries pol))\<rparr>"

definition with_materialized_project_roots_for_workspace_roots ::
    "sandbox_env \<Rightarrow> file_system_sandbox_policy \<Rightarrow> rstring list \<Rightarrow> file_system_sandbox_policy" where
  "with_materialized_project_roots_for_workspace_roots env pol workspace_roots =
     pol\<lparr>policy_entries :=
       fold (\<lambda>e es. if e \<in> set es then es else es @ [e])
         (policy_entries (materialize_project_roots_with_workspace_roots env pol workspace_roots)) (policy_entries pol)\<rparr>"

section \<open>Further roots\<close>

definition push_entry :: "file_system_sandbox_entry \<Rightarrow> file_system_sandbox_policy \<Rightarrow> file_system_sandbox_policy" where
  "push_entry e pol = pol\<lparr>policy_entries := policy_entries pol @ [e]\<rparr>"

definition with_additional_readable_roots ::
    "sandbox_env \<Rightarrow> file_system_sandbox_policy \<Rightarrow> rstring \<Rightarrow> rstring list \<Rightarrow> file_system_sandbox_policy" where
  "with_additional_readable_roots env pol cwd additional_readable_roots =
     (if has_full_disk_read_access pol then pol
      else fold (\<lambda>path pol. if can_read_path_with_cwd env pol path cwd then pol else push_entry (entry (Path path) Read) pol)
             additional_readable_roots pol)"

definition with_additional_writable_roots ::
    "sandbox_env \<Rightarrow> file_system_sandbox_policy \<Rightarrow> rstring \<Rightarrow> rstring list \<Rightarrow> file_system_sandbox_policy" where
  "with_additional_writable_roots env pol cwd additional_writable_roots =
     fold (\<lambda>path pol. if can_write_path_with_cwd env pol path cwd then pol else push_entry (entry (Path path) Write) pol)
       additional_writable_roots pol"

definition with_additional_legacy_workspace_writable_roots ::
    "sandbox_env \<Rightarrow> file_system_sandbox_policy \<Rightarrow> rstring list \<Rightarrow> file_system_sandbox_policy" where
  "with_additional_legacy_workspace_writable_roots env pol additional_writable_roots =
     (if policy_kind pol \<noteq> Restricted then pol
      else pol\<lparr>policy_entries :=
        fold (\<lambda>path es.
                protect_root env False path
                  (if \<exists>e \<in> set es. can_write (entry_access e) \<and> entry_path e = Path path then es
                   else es @ [entry (Path path) Write]))
          additional_writable_roots (policy_entries pol)\<rparr>)"

section \<open>To the older policies\<close>

record legacy_scan =
  workspace_root_writable :: bool
  scanned_roots :: "rstring list"
  tmpdir_writable :: bool
  slash_tmp_writable :: bool
  unbridgeable_root_write :: bool

definition scan_entry :: "sandbox_env \<Rightarrow> rstring option \<Rightarrow> file_system_sandbox_entry \<Rightarrow> legacy_scan \<Rightarrow> legacy_scan" where
  "scan_entry env cwd e st =
     (case entry_path e of
        GlobPattern _ \<Rightarrow> st
      | Path path \<Rightarrow>
          if can_write (entry_access e)
          then if cwd = Some path then st\<lparr>workspace_root_writable := True\<rparr>
               else st\<lparr>scanned_roots := scanned_roots st @ [path]\<rparr>
          else st
      | Special value \<Rightarrow>
          (case value of
             Root \<Rightarrow> (case entry_access e of Write \<Rightarrow> st\<lparr>unbridgeable_root_write := True\<rparr> | _ \<Rightarrow> st)
           | Minimal \<Rightarrow> st
           | ProjectRoots subpath \<Rightarrow>
               if subpath = None \<and> can_write (entry_access e) then st\<lparr>workspace_root_writable := True\<rparr>
               else (case resolve_file_system_special_path env value cwd of
                       Some path \<Rightarrow>
                         if can_write (entry_access e) then st\<lparr>scanned_roots := scanned_roots st @ [path]\<rparr> else st
                     | None \<Rightarrow> st)
           | Tmpdir \<Rightarrow> if can_write (entry_access e) then st\<lparr>tmpdir_writable := True\<rparr> else st
           | SlashTmp \<Rightarrow> if can_write (entry_access e) then st\<lparr>slash_tmp_writable := True\<rparr> else st
           | Unknown _ _ \<Rightarrow> st))"

definition initial_scan :: legacy_scan where
  "initial_scan = \<lparr>workspace_root_writable = False, scanned_roots = [], tmpdir_writable = False,
     slash_tmp_writable = False, unbridgeable_root_write = False\<rparr>"

definition outside_workspace_error :: io_error where
  "outside_workspace_error = \<lparr>io_kind = InvalidInput, io_text =
     lit ''permissions profile requests filesystem writes outside the workspace root, which is not supported until the runtime enforces FileSystemSandboxPolicy directly''\<rparr>"

definition full_access_policy :: "network_sandbox_policy \<Rightarrow> sandbox_policy" where
  "full_access_policy network =
     (if network_is_enabled network then DangerFullAccess else ExternalSandboxPolicy AccessRestricted)"

definition to_legacy_sandbox_policy ::
    "sandbox_env \<Rightarrow> file_system_sandbox_policy \<Rightarrow> network_sandbox_policy \<Rightarrow> rstring \<Rightarrow> io_error + sandbox_policy" where
  "to_legacy_sandbox_policy env pol network cwd =
     (case policy_kind pol of
        ExternalSandbox \<Rightarrow>
          Inr (ExternalSandboxPolicy (if network_is_enabled network then AccessEnabled else AccessRestricted))
      | Unrestricted \<Rightarrow> Inr (full_access_policy network)
      | Restricted \<Rightarrow>
          (let st = fold (scan_entry env (abs_path env cwd)) (policy_entries pol) initial_scan
           in if has_full_disk_write_access pol then Inr (full_access_policy network)
              else if workspace_root_writable st
              then Inr (WorkspaceWrite (dedup_absolute_paths env (scanned_roots st) False) (network_is_enabled network)
                     (\<not> tmpdir_writable st) (\<not> slash_tmp_writable st))
              else if unbridgeable_root_write st \<or> scanned_roots st \<noteq> [] \<or> tmpdir_writable st \<or> slash_tmp_writable st
              then Inl outside_workspace_error
              else Inr (ReadOnly (network_is_enabled network))))"

section \<open>Default entries only add reads\<close>

definition adds_reads :: "(file_system_sandbox_entry list \<Rightarrow> file_system_sandbox_entry list) \<Rightarrow> bool" where
  "adds_reads f \<longleftrightarrow> (\<forall>es. \<exists>rs. f es = es @ rs \<and> (\<forall>e \<in> set rs. entry_access e = Read))"

lemma adds_reads_append [simp]: "adds_reads (append_default_read_only_entry_if_no_explicit_rule p)"
  by (auto simp: adds_reads_def append_default_read_only_entry_if_no_explicit_rule_def)

lemma adds_reads_fold: "\<forall>x \<in> set xs. adds_reads (f x) \<Longrightarrow> adds_reads (fold f xs)"
proof (induction xs)
  case Nil
  then show ?case by (simp add: adds_reads_def)
next
  case (Cons x xs)
  show ?case unfolding adds_reads_def
  proof
    fix es
    obtain rs where rs: "f x es = es @ rs" "\<forall>e \<in> set rs. entry_access e = Read"
      using Cons.prems unfolding adds_reads_def by (metis list.set_intros(1))
    obtain qs where "fold f xs (es @ rs) = (es @ rs) @ qs" "\<forall>e \<in> set qs. entry_access e = Read"
      using Cons unfolding adds_reads_def by (metis list.set_intros(2))
    then show "\<exists>rs. fold f (x # xs) es = es @ rs \<and> (\<forall>e \<in> set rs. entry_access e = Read)"
      using rs by (auto intro: exI [of _ "rs @ qs"])
  qed
qed

lemma adds_reads_protect [simp]: "adds_reads (protect_root env b r)" "adds_reads (protect_roots env rs)"
  by (auto simp: protect_root_def protect_roots_def append_default_read_only_path_if_no_explicit_rule_def intro!: adds_reads_fold)

abbreviation metadata_entries :: "file_system_sandbox_entry list" where
  "metadata_entries \<equiv> map (\<lambda>n. entry (Special (ProjectRoots (Some n))) Read) PROTECTED_METADATA_PATH_NAMES"

lemma workspace_metadata_entries:
  "fold append_default_read_only_project_root_subpath_if_no_explicit_rule [lit ''.git'', lit ''.agents'', lit ''.codex'']
     (workspace_grants roots a b) = workspace_grants roots a b @ metadata_entries"
  by (auto simp: append_default_read_only_project_root_subpath_if_no_explicit_rule_def
      append_default_read_only_entry_if_no_explicit_rule_def workspace_grants_def special_path_matches_absolute_path_def
      PROTECTED_METADATA_PATH_NAMES_def)

text \<open>A translated workspace policy has the grants and the metadata entries, and else only entries for reading.\<close>

lemma workspace_entries:
  obtains rs where "from_legacy_sandbox_policy_for_cwd env (WorkspaceWrite roots n a b) cwd =
      restricted (workspace_grants roots a b @ metadata_entries @ rs)" "\<forall>e \<in> set rs. entry_access e = Read"
proof -
  let ?es = "workspace_grants roots a b @ metadata_entries"
  obtain rs where rs: "protect_roots env roots ?es = ?es @ rs" "\<forall>e \<in> set rs. entry_access e = Read"
    using adds_reads_protect(2) unfolding adds_reads_def by metis
  have p: "policy_from_legacy env (WorkspaceWrite roots n a b) = restricted (?es @ rs)"
    using rs(1) by (simp add: workspace_write_def workspace_metadata_entries [simplified])
  obtain qs where qs: "(case abs_path env cwd of Some r \<Rightarrow> protect_root env True r (?es @ rs) | None \<Rightarrow> ?es @ rs) = (?es @ rs) @ qs"
      "\<forall>e \<in> set qs. entry_access e = Read"
    using adds_reads_protect(1) [of env True] unfolding adds_reads_def
    by (cases "abs_path env cwd") (simp, metis option.simps(5))
  obtain ps where ps: "protect_roots env roots ((?es @ rs) @ qs) = ((?es @ rs) @ qs) @ ps" "\<forall>e \<in> set ps. entry_access e = Read"
    using adds_reads_protect(2) unfolding adds_reads_def by metis
  show ?thesis
  proof (rule that [of "rs @ qs @ ps"])
    show "from_legacy_sandbox_policy_for_cwd env (WorkspaceWrite roots n a b) cwd =
        restricted (workspace_grants roots a b @ metadata_entries @ rs @ qs @ ps)"
      unfolding from_legacy_sandbox_policy_for_cwd_def p Let_def sandbox_policy.case restricted_def
        file_system_sandbox_policy.simps qs(1) ps(1) by simp
    show "\<forall>e \<in> set (rs @ qs @ ps). entry_access e = Read" using rs(2) qs(2) ps(2) by auto
  qed
qed

section \<open>The way back\<close>

lemma dedup_first: "dedup_absolute_paths env paths False = rev (remdups (rev paths))"
  by (induction paths rule: rev_induct) (simp_all add: dedup_absolute_paths_def)

lemma scan_read: "entry_access e = Read \<Longrightarrow> scan_entry env cwd e st = st"
  by (auto simp: scan_entry_def can_write_def split: file_system_path.splits file_system_special_path.splits option.splits)

lemma scan_reads: "\<forall>e \<in> set es. entry_access e = Read \<Longrightarrow> fold (scan_entry env cwd) es st = st"
  by (induction es) (simp_all add: scan_read)

lemma scan_roots:
  "workspace_root_writable st \<Longrightarrow>
     fold (scan_entry env cwd) (map (\<lambda>path. entry (Path path) Write) roots) st =
     st\<lparr>scanned_roots := scanned_roots st @ filter (\<lambda>r. cwd \<noteq> Some r) roots\<rparr>"
proof (induction roots arbitrary: st)
  case (Cons r rs)
  then show ?case by (simp add: scan_entry_def can_write_def)
qed simp

lemma scan_grants:
  "fold (scan_entry env cwd) (workspace_grants roots a b) initial_scan =
     \<lparr>workspace_root_writable = True, scanned_roots = filter (\<lambda>r. cwd \<noteq> Some r) roots, tmpdir_writable = \<not> a,
       slash_tmp_writable = \<not> b, unbridgeable_root_write = False\<rparr>"
proof -
  let ?grants = "[entry (Special Root) Read, entry (Special (ProjectRoots None)) Write] @
     (if \<not> b then [entry (Special SlashTmp) Write] else []) @ (if \<not> a then [entry (Special Tmpdir) Write] else [])"
  have "fold (scan_entry env cwd) ?grants initial_scan =
     \<lparr>workspace_root_writable = True, scanned_roots = [], tmpdir_writable = \<not> a, slash_tmp_writable = \<not> b,
       unbridgeable_root_write = False\<rparr>"
    by (simp add: scan_entry_def can_write_def initial_scan_def)
  moreover have "workspace_grants roots a b = ?grants @ map (\<lambda>path. entry (Path path) Write) roots"
    by (simp add: workspace_grants_def)
  ultimately show ?thesis by (simp only: fold_append comp_apply) (simp add: scan_roots)
qed

section \<open>Resolved workspace entries\<close>

lemma resolved_append:
  "resolved_entries_with_cwd env (restricted (es @ fs)) cwd =
     resolved_entries_with_cwd env (restricted es) cwd @ resolved_entries_with_cwd env (restricted fs) cwd"
  by (simp add: resolved_entries_with_cwd_def restricted_def map_filter_def)

lemma resolved_reads:
  "\<forall>e \<in> set es. entry_access e = Read \<Longrightarrow> e \<in> set (resolved_entries_with_cwd env (restricted es) cwd) \<Longrightarrow> resolved_access e = Read"
  by (auto simp: resolved_entries_with_cwd_def restricted_def)

lemma metadata_resolved:
  "abs_path env cwd = Some root \<Longrightarrow> name \<in> set PROTECTED_METADATA_PATH_NAMES \<Longrightarrow>
     \<lparr>resolved_path = abs_join env root name, resolved_access = Read\<rparr>
       \<in> set (resolved_entries_with_cwd env (restricted metadata_entries) cwd)"
  by (auto simp: resolved_entries_with_cwd_def restricted_def resolve_entry_path_def resolve_file_system_path_def
      resolve_file_system_special_path_def intro!: bexI [of _ name])

section \<open>Merged deny entries\<close>

lemma push_deny_set:
  "set (push_deny_entries existing es) = set es \<union> {e \<in> set existing. entry_access e = Deny}"
proof -
  have "set (fold (\<lambda>d es. if d \<in> set es then es else es @ [d]) ds es) = set es \<union> set ds" for ds es :: "file_system_sandbox_entry list"
    by (induction ds arbitrary: es) auto
  then show ?thesis by (simp add: push_deny_entries_def)
qed

lemma preserve_deny_entries:
  assumes "policy_kind self \<noteq> ExternalSandbox" and "d \<in> set (policy_entries existing)" and "entry_access d = Deny"
  shows "policy_kind (preserve_deny_read_restrictions_from self existing) = Restricted"
    and "set (policy_entries (preserve_deny_read_restrictions_from self existing)) =
      set (if policy_kind self = Unrestricted then [entry (Special Root) Write] else policy_entries self) \<union>
      {e \<in> set (policy_entries existing). entry_access e = Deny}"
  using assms by (cases "policy_kind self"; auto simp: preserve_deny_read_restrictions_from_def Let_def restricted_def push_deny_set)+

lemma resolved_in:
  "r \<in> set (resolved_entries_with_cwd env pol cwd) \<longleftrightarrow>
     (\<exists>e \<in> set (policy_entries pol). resolve_entry_path env (entry_path e) (abs_path env cwd) = Some (resolved_path r) \<and>
        resolved_access r = entry_access e)"
  by (cases r) (auto simp: resolved_entries_with_cwd_def)

lemma resolved_root:
  assumes "sandbox_env_ok env" and "resolve_entry_path env (Special Root) (abs_path env cwd) = Some r" and "is_normal p"
  shows "path_starts_with p r"
proof -
  have "r = [slash]" using assms(2) abs_path_normal [OF assms(1)] by (auto simp: resolve_entry_path_def bind_eq_Some_conv)
  moreover have "components [slash] = [RootDir]" by (simp add: components_def is_absolute_def segment_def)
  ultimately show ?thesis using normal_names(3) [OF assms(3)] by (simp add: path_starts_with_def)
qed

section \<open>Properties\<close>






end
