(* ===== verification/Sandbox_Roots.thy ===== *)
theory Sandbox_Roots
  imports Sandbox_Legacy
begin

text \<open>
  What a file system policy hands to a sandbox (\<^verbatim>\<open>protocol/src/permissions.rs\<close>): the readable, writable and
  unreadable roots, the check whether the older runtimes can enforce the policy, and the matcher that
  direct reads use for deny entries.

  The lemmas show that the closest writable root never allows more than the policy does, and that the
  matcher denies what the deny entries cover.
\<close>

section \<open>Writable roots\<close>

record writable_root =
  wr_root :: rstring
  read_only_subpaths :: "rstring list"
  protected_metadata_names :: "rstring list"

definition path_contains_protected_metadata_name :: "writable_root \<Rightarrow> rstring \<Rightarrow> bool" where
  "path_contains_protected_metadata_name w path \<longleftrightarrow>
     (case path_strip_prefix path (wr_root w) of
        Some (first_component # _) \<Rightarrow> component_text first_component \<in> set (protected_metadata_names w)
      | _ \<Rightarrow> False)"

definition is_path_writable :: "writable_root \<Rightarrow> rstring \<Rightarrow> bool" where
  "is_path_writable w path \<longleftrightarrow>
     (if \<not> path_starts_with path (wr_root w) then False
      else if \<exists>subpath \<in> set (read_only_subpaths w). path_starts_with path subpath then False
      else \<not> path_contains_protected_metadata_name w path)"

definition protected_metadata_names_for_writable_root ::
    "sandbox_env \<Rightarrow> file_system_sandbox_policy \<Rightarrow> rstring \<Rightarrow> rstring list \<Rightarrow> rstring \<Rightarrow> rstring list" where
  "protected_metadata_names_for_writable_root env pol root raw_writable_roots cwd =
     filter (\<lambda>metadata_name.
        \<forall>metadata_path \<in> set (abs_join env root metadata_name # map (\<lambda>raw_root. abs_join env raw_root metadata_name) raw_writable_roots).
          \<not> can_write_path_with_cwd env pol metadata_path cwd)
       PROTECTED_METADATA_PATH_NAMES"

definition has_explicit_resolved_path_entry :: "resolved_file_system_entry list \<Rightarrow> rstring \<Rightarrow> bool" where
  "has_explicit_resolved_path_entry es path \<longleftrightarrow> (\<exists>e \<in> set es. resolved_path e = path)"

text \<open>The path of an entry below one of the raw roots, moved below the root.\<close>

definition moved_carveout :: "sandbox_env \<Rightarrow> rstring \<Rightarrow> rstring \<Rightarrow> rstring \<Rightarrow> rstring option" where
  "moved_carveout env root path raw_root =
     Option.bind (path_strip_prefix path raw_root) (\<lambda>suffix.
       if suffix = [] then None else Some (abs_join env root (path_of_components suffix)))"

definition raw_carveout_path :: "sandbox_env \<Rightarrow> rstring \<Rightarrow> rstring list \<Rightarrow> rstring \<Rightarrow> rstring option" where
  "raw_carveout_path env root raw_writable_roots path =
     (if path_parent root \<noteq> None
      then if path = root then None
           else if path_starts_with path root then Some path
           else (case List.map_filter (moved_carveout env root path) raw_writable_roots of p # _ \<Rightarrow> Some p | [] \<Rightarrow> None)
      else None)"

definition carveout_path :: "sandbox_env \<Rightarrow> rstring \<Rightarrow> rstring list \<Rightarrow> resolved_file_system_entry \<Rightarrow> rstring option" where
  "carveout_path env root raw_writable_roots e =
     (let effective_path = normalize_effective_absolute_path env (resolved_path e) in
      case raw_carveout_path env root raw_writable_roots (resolved_path e) of
        Some path \<Rightarrow> Some path
      | None \<Rightarrow> if effective_path = root \<or> \<not> path_starts_with effective_path root then None else Some effective_path)"

definition writable_entries :: "sandbox_env \<Rightarrow> file_system_sandbox_policy \<Rightarrow> rstring \<Rightarrow> rstring list" where
  "writable_entries env pol cwd =
     map resolved_path
       (filter (\<lambda>e. can_write_path_with_cwd env pol (resolved_path e) cwd)
          (filter (\<lambda>e. can_write (resolved_access e)) (resolved_entries_with_cwd env pol cwd)))"

definition make_writable_root :: "sandbox_env \<Rightarrow> file_system_sandbox_policy \<Rightarrow> rstring \<Rightarrow> rstring \<Rightarrow> writable_root" where
  "make_writable_root env pol cwd root =
     (let resolved_entries = resolved_entries_with_cwd env pol cwd;
          raw_writable_roots = filter (\<lambda>path. normalize_effective_absolute_path env path = root) (writable_entries env pol cwd);
          protect_missing_dot_codex =
            (case abs_path env cwd of Some cwd \<Rightarrow> normalize_effective_absolute_path env cwd = root | None \<Rightarrow> False);
          subpaths =
            filter (\<lambda>path. \<not> has_explicit_resolved_path_entry resolved_entries path)
              (default_read_only_subpaths_for_writable_root env root protect_missing_dot_codex) @
            List.map_filter (carveout_path env root raw_writable_roots)
              (filter (\<lambda>e. \<not> can_write_path_with_cwd env pol (resolved_path e) cwd)
                 (filter (\<lambda>e. \<not> can_write (resolved_access e)) resolved_entries))
      in \<lparr>wr_root = root, read_only_subpaths = dedup_absolute_paths env subpaths False,
          protected_metadata_names = protected_metadata_names_for_writable_root env pol root raw_writable_roots cwd\<rparr>)"

definition get_writable_roots_with_cwd :: "sandbox_env \<Rightarrow> file_system_sandbox_policy \<Rightarrow> rstring \<Rightarrow> writable_root list" where
  "get_writable_roots_with_cwd env pol cwd =
     (if has_full_disk_write_access pol then []
      else map (make_writable_root env pol cwd) (dedup_absolute_paths env (writable_entries env pol cwd) True))"

section \<open>Readable and unreadable roots\<close>

definition get_readable_roots_with_cwd :: "sandbox_env \<Rightarrow> file_system_sandbox_policy \<Rightarrow> rstring \<Rightarrow> rstring list" where
  "get_readable_roots_with_cwd env pol cwd =
     (if has_full_disk_read_access pol then []
      else dedup_absolute_paths env
        (map resolved_path
          (filter (\<lambda>e. can_read_path_with_cwd env pol (resolved_path e) cwd)
             (filter (\<lambda>e. can_read (resolved_access e)) (resolved_entries_with_cwd env pol cwd)))) True)"

definition get_unreadable_roots_with_cwd :: "sandbox_env \<Rightarrow> file_system_sandbox_policy \<Rightarrow> rstring \<Rightarrow> rstring list" where
  "get_unreadable_roots_with_cwd env pol cwd =
     (if policy_kind pol \<noteq> Restricted then []
      else
        let root = Option.bind (abs_path env cwd) (absolute_root_path_for_cwd env)
        in dedup_absolute_paths env
             (map resolved_path
               (filter (\<lambda>e. root \<noteq> Some (resolved_path e))
                 (filter (\<lambda>e. \<not> can_read_path_with_cwd env pol (resolved_path e) cwd)
                   (filter (\<lambda>e. resolved_access e = Deny) (resolved_entries_with_cwd env pol cwd))))) True)"

definition get_unreadable_globs_with_cwd :: "sandbox_env \<Rightarrow> file_system_sandbox_policy \<Rightarrow> rstring \<Rightarrow> rstring list" where
  "get_unreadable_globs_with_cwd env pol cwd =
     (if policy_kind pol \<noteq> Restricted then []
      else remdups_adj (sort
        (List.map_filter (\<lambda>e. case entry_path e of GlobPattern pattern \<Rightarrow> Some (abs_join env cwd pattern) | _ \<Rightarrow> None)
           (filter (\<lambda>e. entry_access e = Deny) (policy_entries pol)))))"

section \<open>What the older runtimes can enforce\<close>

text \<open>\<open>Path::cmp\<close> compares the components, first by kind.\<close>

fun component_key :: "component \<Rightarrow> nat \<times> rstring" where
  "component_key RootDir = (0, [])"
| "component_key CurDir = (1, [])"
| "component_key ParentDir = (2, [])"
| "component_key (Normal s) = (3, s)"

definition path_key :: "rstring \<Rightarrow> (nat \<times> rstring) list" where
  "path_key p = map component_key (components p)"

definition sorted_absolute_paths :: "rstring list \<Rightarrow> rstring list" where
  "sorted_absolute_paths paths = sort_key path_key paths"

definition sorted_writable_roots :: "writable_root list \<Rightarrow> writable_root list" where
  "sorted_writable_roots roots =
     sort_key (\<lambda>w. path_key (wr_root w))
       (map (\<lambda>w. w\<lparr>read_only_subpaths := sorted_absolute_paths (read_only_subpaths w),
                  protected_metadata_names := remdups_adj (sort (protected_metadata_names w))\<rparr>) roots)"

record file_system_semantic_signature =
  full_disk_read :: bool
  full_disk_write :: bool
  platform_defaults :: bool
  readable_roots :: "rstring list"
  signature_writable_roots :: "writable_root list"
  unreadable_roots :: "rstring list"
  unreadable_globs :: "rstring list"

definition semantic_signature :: "sandbox_env \<Rightarrow> file_system_sandbox_policy \<Rightarrow> rstring \<Rightarrow> file_system_semantic_signature" where
  "semantic_signature env pol cwd =
     \<lparr>full_disk_read = has_full_disk_read_access pol,
      full_disk_write = has_full_disk_write_access pol,
      platform_defaults = include_platform_defaults pol,
      readable_roots = sorted_absolute_paths (get_readable_roots_with_cwd env pol cwd),
      signature_writable_roots = sorted_writable_roots (get_writable_roots_with_cwd env pol cwd),
      unreadable_roots = sorted_absolute_paths (get_unreadable_roots_with_cwd env pol cwd),
      unreadable_globs = get_unreadable_globs_with_cwd env pol cwd\<rparr>"

definition is_semantically_equivalent_to ::
    "sandbox_env \<Rightarrow> file_system_sandbox_policy \<Rightarrow> file_system_sandbox_policy \<Rightarrow> rstring \<Rightarrow> bool" where
  "is_semantically_equivalent_to env pol other cwd \<longleftrightarrow> semantic_signature env pol cwd = semantic_signature env other cwd"

definition legacy_root :: "sandbox_env \<Rightarrow> rstring option \<Rightarrow> rstring \<Rightarrow> writable_root" where
  "legacy_root env cwd_root root =
     \<lparr>wr_root = root, read_only_subpaths = default_read_only_subpaths_for_writable_root env root (cwd_root = Some root),
      protected_metadata_names = []\<rparr>"

definition legacy_writable_roots_with_cwd :: "sandbox_env \<Rightarrow> sandbox_policy \<Rightarrow> rstring \<Rightarrow> writable_root list" where
  "legacy_writable_roots_with_cwd env p cwd =
     (case p of
        WorkspaceWrite roots _ exclude_tmpdir exclude_tmp \<Rightarrow>
          map (legacy_root env (abs_path env cwd))
            (roots @
             (case abs_path env cwd of Some cwd \<Rightarrow> [cwd] | None \<Rightarrow> []) @
             (if \<not> exclude_tmp
              then (case abs_path env (lit ''/tmp'') of
                      Some slash_tmp \<Rightarrow> if path_is_dir env slash_tmp then [slash_tmp] else []
                    | None \<Rightarrow> [])
              else []) @
             (case tmpdir_var env of
                Some tmpdir \<Rightarrow>
                  if \<not> exclude_tmpdir \<and> tmpdir \<noteq> []
                  then (case abs_path env tmpdir of Some tmpdir_path \<Rightarrow> [tmpdir_path] | None \<Rightarrow> [])
                  else []
              | None \<Rightarrow> []))
      | _ \<Rightarrow> [])"

definition protected_metadata_names_need_direct_runtime_enforcement ::
    "sandbox_env \<Rightarrow> file_system_sandbox_policy \<Rightarrow> sandbox_policy \<Rightarrow> rstring \<Rightarrow> bool" where
  "protected_metadata_names_need_direct_runtime_enforcement env pol legacy_policy cwd \<longleftrightarrow>
     (\<exists>w \<in> set (get_writable_roots_with_cwd env pol cwd).
        case find (\<lambda>candidate. wr_root candidate = wr_root w) (legacy_writable_roots_with_cwd env legacy_policy cwd) of
          None \<Rightarrow> protected_metadata_names w \<noteq> []
        | Some legacy \<Rightarrow>
            (\<exists>metadata_name \<in> set (protected_metadata_names w).
               abs_join env (wr_root w) metadata_name \<notin> set (read_only_subpaths legacy)))"

definition needs_direct_runtime_enforcement ::
    "sandbox_env \<Rightarrow> file_system_sandbox_policy \<Rightarrow> network_sandbox_policy \<Rightarrow> rstring \<Rightarrow> bool" where
  "needs_direct_runtime_enforcement env pol network cwd \<longleftrightarrow>
     (if policy_kind pol \<noteq> Restricted then False
      else case to_legacy_sandbox_policy env pol network cwd of
        Inl _ \<Rightarrow> True
      | Inr legacy_policy \<Rightarrow>
          protected_metadata_names_need_direct_runtime_enforcement env pol legacy_policy cwd \<or>
          semantic_signature env pol cwd \<noteq>
            semantic_signature env (legacy_runtime_file_system_policy_for_cwd env legacy_policy cwd) cwd)"

section \<open>The matcher for denied reads\<close>

datatype invalid_deny_read_glob_behavior = FailClosed | ReturnError

record read_deny_matcher =
  denied_candidates :: "rstring list list"
  deny_read_matchers :: "(rstring \<Rightarrow> bool) list"
  invalid_pattern :: bool

definition push_unique :: "rstring list \<Rightarrow> rstring \<Rightarrow> rstring list" where
  "push_unique candidates candidate =
     (if \<exists>existing \<in> set candidates. components existing = components candidate then candidates else candidates @ [candidate])"

definition normalized_and_canonical_candidates :: "sandbox_env \<Rightarrow> rstring \<Rightarrow> rstring list" where
  "normalized_and_canonical_candidates env path =
     (let candidates = push_unique [] (case abs_path env path of Some normalized \<Rightarrow> normalized | None \<Rightarrow> path)
      in case Option.bind (std_canonicalize env path) (abs_path env) of
           Some canonical_absolute \<Rightarrow> push_unique candidates canonical_absolute
         | None \<Rightarrow> candidates)"

definition invalid_glob_text :: "rstring \<Rightarrow> rstring \<Rightarrow> rstring" where
  "invalid_glob_text pattern err = lit ''invalid deny-read glob pattern `'' @ pattern @ lit ''`: '' @ err"

fun build_matchers ::
    "sandbox_env \<Rightarrow> invalid_deny_read_glob_behavior \<Rightarrow> rstring list \<Rightarrow> bool \<Rightarrow> (rstring \<Rightarrow> bool) list \<Rightarrow>
     rstring + bool \<times> (rstring \<Rightarrow> bool) list" where
  "build_matchers env behavior [] invalid matchers = Inr (invalid, matchers)"
| "build_matchers env behavior (pattern # patterns) invalid matchers =
     (case glob_matcher env pattern of
        Inr matcher \<Rightarrow> build_matchers env behavior patterns invalid (matchers @ [matcher])
      | Inl err \<Rightarrow>
          (case behavior of
             FailClosed \<Rightarrow> build_matchers env behavior patterns True matchers
           | ReturnError \<Rightarrow> Inl (invalid_glob_text pattern err)))"

definition build_read_deny_matcher ::
    "sandbox_env \<Rightarrow> file_system_sandbox_policy \<Rightarrow> rstring \<Rightarrow> invalid_deny_read_glob_behavior \<Rightarrow> rstring + read_deny_matcher option" where
  "build_read_deny_matcher env pol cwd behavior =
     (if \<not> has_denied_read_restrictions pol then Inr None
      else bind_res (build_matchers env behavior (get_unreadable_globs_with_cwd env pol cwd) False []) (\<lambda>(invalid, matchers).
        Inr (Some \<lparr>denied_candidates = map (normalized_and_canonical_candidates env) (get_unreadable_roots_with_cwd env pol cwd),
                   deny_read_matchers = matchers, invalid_pattern = invalid\<rparr>)))"

text \<open>\<open>ReadDenyMatcher::new\<close>: None is the unreachable error.\<close>

definition new_read_deny_matcher :: "sandbox_env \<Rightarrow> file_system_sandbox_policy \<Rightarrow> rstring \<Rightarrow> read_deny_matcher option option" where
  "new_read_deny_matcher env pol cwd =
     (case build_read_deny_matcher env pol cwd FailClosed of Inr matcher \<Rightarrow> Some matcher | Inl _ \<Rightarrow> None)"

definition try_new_read_deny_matcher :: "sandbox_env \<Rightarrow> file_system_sandbox_policy \<Rightarrow> rstring \<Rightarrow> rstring + read_deny_matcher option" where
  "try_new_read_deny_matcher env pol cwd = build_read_deny_matcher env pol cwd ReturnError"

definition is_read_denied :: "sandbox_env \<Rightarrow> read_deny_matcher \<Rightarrow> rstring \<Rightarrow> bool" where
  "is_read_denied env m path \<longleftrightarrow>
     (if invalid_pattern m then True
      else
        let path_candidates = normalized_and_canonical_candidates env path
        in if \<exists>denied \<in> set (denied_candidates m). \<exists>candidate \<in> set path_candidates. \<exists>denied_candidate \<in> set denied.
                components candidate = components denied_candidate \<or> path_starts_with candidate denied_candidate
           then True
           else \<exists>matcher \<in> set (deny_read_matchers m). \<exists>candidate \<in> set path_candidates. matcher candidate)"

section \<open>A disk without links\<close>

text \<open>Canonical paths are the paths themselves where no symbolic link is involved.\<close>

definition plain_disk :: "sandbox_env \<Rightarrow> bool" where
  "plain_disk env \<longleftrightarrow> (\<forall>p q. is_normal p \<longrightarrow> dunce_canonicalize env p = Some q \<or> std_canonicalize env p = Some q \<longrightarrow> q = p)"

lemma path_of_names: "path_of_components (RootDir # map Normal ns) = absolute_text ns"
  by (simp add: absolute_text_def comp_def)

lemma path_of_suffix: "path_of_components (map Normal ns) = join [slash] ns"
  by (cases ns) (simp_all add: comp_def)

lemma normal_ancestor:
  assumes "is_normal p" and "a \<in> set (ancestors p)"
  shows "\<exists>ms ns. path_names p = ms @ ns \<and> a = absolute_text ms"
proof -
  obtain n where n: "n \<ge> 1" "a = path_of_components (take n (RootDir # map Normal (path_names p)))"
    using assms by (auto simp: ancestors_def normal_absolute normal_names(3) simp del: upt_Suc)
  then obtain m where "n = Suc m" by (cases n) auto
  then have "a = absolute_text (take m (path_names p))" using n(2) by (simp add: take_map path_of_names del: path_of_components.simps)
  then show ?thesis by (metis append_take_drop_id)
qed

lemma relative_join: "\<forall>n \<in> set ns. path_name_ok n \<Longrightarrow> \<not> is_absolute (join [slash] ns)"
  by (cases ns; cases "hd ns"; cases "tl ns") (simp_all add: path_name_ok_def is_absolute_def)

lemma segments_join:
  assumes "\<forall>n \<in> set ns. path_name_ok n"
  shows "concat (map segment (split_char slash (join [slash] ns))) = map Normal ns"
proof (cases "ns = []")
  case False
  moreover have "concat (map segment ns) = map Normal ns"
    using assms by (induction ns) (simp_all add: path_name_ok_def segment_def)
  moreover have "\<forall>n \<in> set ns. slash \<notin> set n" using assms by (simp add: path_name_ok_def)
  ultimately show ?thesis by (simp add: split_join)
qed (simp add: segment_def)

lemma normal_join:
  assumes "\<forall>n \<in> set (ms @ ns). path_name_ok n"
  shows "from_absolute_path env (path_join (absolute_text ms) (join [slash] ns)) = Inr (absolute_text (ms @ ns))"
proof -
  have "components (path_join (absolute_text ms) (join [slash] ns)) = RootDir # map Normal (ms @ ns)"
    using assms components_join [of "absolute_text ms" "join [slash] ns"] relative_join [of ns] segments_join [of ns]
    by (auto simp: components_absolute_text)
  moreover have "is_absolute (path_join (absolute_text ms) (join [slash] ns))"
    by (auto simp: path_join_def is_absolute_def absolute_text_def split: list.splits)
  ultimately show ?thesis
    by (simp add: from_absolute_path_def expand_absolute absolutize_def normalize_path_def push_normals)
      (simp add: absolute_text_def)
qed

lemma normalize_effective_id:
  assumes "plain_disk env" and "is_normal p"
  shows "normalize_effective_absolute_path env p = p"
proof -
  have "q = p" if a: "a \<in> set (ancestors p)" and q: "normalize_ancestor env p a = Some q" for a q
  proof -
    obtain ms ns where ms: "path_names p = ms @ ns" "a = absolute_text ms" using normal_ancestor [OF assms(2) a] by blast
    have ok: "\<forall>n \<in> set (ms @ ns). path_name_ok n" using normal_names(2) [OF assms(2)] ms(1) by simp
    then have a_normal: "is_normal a" using ms(2) by auto
    have "dunce_canonicalize env a = Some c \<Longrightarrow> c = a" for c using assms(1) a_normal by (auto simp: plain_disk_def)
    then have "canonicalize_preserving_symlinks env a = Inr a"
      by (auto simp: canonicalize_preserving_symlinks_def from_absolute_path_normal_id [OF a_normal] Let_def split: option.splits)
    moreover have "path_strip_prefix p a = Some (map Normal ns)"
      using ms ok by (simp add: path_strip_prefix_def strip_prefix_def normal_names(3) [OF assms(2)] components_absolute_text)
    ultimately have "abs_path env (path_join a (path_of_components (map Normal ns))) = Some q"
      using q by (auto simp: normalize_ancestor_def split: if_splits)
    then have "q = absolute_text (ms @ ns)"
      using normal_join [OF ok] by (simp add: abs_path_def ms(2) path_of_suffix)
    then show ?thesis using ms(1) normal_names(1) [OF assms(2)] by simp
  qed
  then have "\<forall>q \<in> set (List.map_filter (normalize_ancestor env p) (ancestors p)). q = p" by auto
  then show ?thesis
    unfolding normalize_effective_absolute_path_def
    by (cases "List.map_filter (normalize_ancestor env p) (ancestors p)") (simp_all del: in_map_filter)
qed

section \<open>Metadata children\<close>

lemma metadata_name_ok:
  assumes "n \<in> set PROTECTED_METADATA_PATH_NAMES"
  shows "path_name_ok n" "hd n \<noteq> 126"
  using assms by (auto simp: PROTECTED_METADATA_PATH_NAMES_def path_name_ok_def slash_def)

lemma metadata_join:
  "is_normal p \<Longrightarrow> n \<in> set PROTECTED_METADATA_PATH_NAMES \<Longrightarrow> abs_join env p n = absolute_text (path_names p @ [n])"
  by (intro resolve_name metadata_name_ok)

lemma metadata_text_normal: "is_normal p \<Longrightarrow> n \<in> set PROTECTED_METADATA_PATH_NAMES \<Longrightarrow> is_normal (absolute_text (path_names p @ [n]))"
  using normal_names(2) metadata_name_ok(1) by auto

lemma metadata_text_names:
  "is_normal p \<Longrightarrow> n \<in> set PROTECTED_METADATA_PATH_NAMES \<Longrightarrow> path_names (absolute_text (path_names p @ [n])) = path_names p @ [n]"
  using normal_names(2) metadata_name_ok(1) by (auto intro!: path_names_absolute_text)

lemma metadata_path_name_Some: "metadata_path_name x = Some n \<longleftrightarrow> n = x \<and> x \<in> set PROTECTED_METADATA_PATH_NAMES"
  by (auto simp: metadata_path_name_def PROTECTED_METADATA_PATH_NAMES_def simp del: lit_simps split: if_splits)

lemma normal_strip:
  "is_normal t \<Longrightarrow> is_normal p \<Longrightarrow> path_strip_prefix t p =
     (if prefix (path_names p) (path_names t) then Some (map Normal (drop (length (path_names p)) (path_names t))) else None)"
  by (simp add: path_strip_prefix_def strip_prefix_def normal_names(3) drop_map)

lemma prefix_snoc_iff: "prefix (ps @ [n]) ts \<longleftrightarrow> prefix ps ts \<and> (\<exists>r. drop (length ps) ts = n # r)"
  by (auto simp: prefix_def)

lemma metadata_child_iff:
  assumes "is_normal target" and "is_normal (resolved_path e)"
  shows "metadata_child env target e = Some (m, n) \<longleftrightarrow>
    n \<in> set PROTECTED_METADATA_PATH_NAMES \<and> prefix (path_names (resolved_path e) @ [n]) (path_names target) \<and>
    m = absolute_text (path_names (resolved_path e) @ [n])"
  using metadata_join [OF assms(2), of n env]
  by (auto simp: metadata_child_def normal_strip [OF assms] prefix_snoc_iff metadata_path_name_Some split: list.splits)

lemma first_metadata_child:
  assumes "metadata_child_of_writable_root env pol target cwd = Some x"
  obtains es e fs where "filter (\<lambda>e. can_write (resolved_access e)) (resolved_entries_with_cwd env pol cwd) = es @ e # fs"
    "metadata_child env target e = Some x" "\<forall>e \<in> set es. metadata_child env target e = None"
proof -
  let ?ws = "filter (\<lambda>e. can_write (resolved_access e)) (resolved_entries_with_cwd env pol cwd)"
  have "\<exists>ys. List.map_filter (metadata_child env target) ?ws = x # ys"
    using assms unfolding metadata_child_of_writable_root_def
    by (cases "List.map_filter (metadata_child env target) ?ws") simp_all
  then obtain ys where "List.map_filter (metadata_child env target) ?ws = x # ys" ..
  from map_filter_Cons [OF this] obtain us a vs where
    "?ws = us @ a # vs \<and> metadata_child env target a = Some x \<and> (\<forall>u \<in> set us. metadata_child env target u = None)"
    by (elim exE)
  then show ?thesis using that [of us a vs] by simp
qed

lemma split_filter_in: "filter P xs = us @ x # vs \<Longrightarrow> x \<in> set xs \<and> P x"
  using filter_set [of P xs] by (metis filter_is_subset filter_set in_set_conv_decomp mem_Collect_eq set_filter)

lemma first_metadata_child_is:
  assumes "filter (\<lambda>e. can_write (resolved_access e)) (resolved_entries_with_cwd env pol cwd) = es @ e # fs"
    and "metadata_child env target e = Some x" and "\<forall>e \<in> set es. metadata_child env target e = None"
  shows "metadata_child_of_writable_root env pol target cwd = Some x"
proof -
  have "List.map_filter (metadata_child env target) es = []" by (rule map_filter_Nil [OF assms(3)])
  then show ?thesis using assms(1,2) by (simp add: metadata_child_of_writable_root_def map_filter_def)
qed

section \<open>Roots and the entries they come from\<close>

lemma dedup_plain:
  "plain_disk env \<Longrightarrow> \<forall>p \<in> set paths. is_normal p \<Longrightarrow> dedup_absolute_paths env paths True = rev (remdups (rev paths))"
  by (induction paths rule: rev_induct) (simp_all add: dedup_absolute_paths_def normalize_effective_id)

lemma decides_self: "decides es e q \<Longrightarrow> decides es e (resolved_path e)"
  unfolding decides_def covers_def using starts_with_trans by blast

lemma access_at_entry:
  assumes "sandbox_env_ok env" and "policy_paths_ok pol" and "policy_kind pol = Restricted"
    and "e \<in> set (resolved_entries_with_cwd env pol cwd)"
  obtains d where "decides (resolved_entries_with_cwd env pol cwd) d (resolved_path e)" "resolved_path d = resolved_path e"
    "resolve_access_with_cwd env pol (resolved_path e) cwd = resolved_access d"
proof -
  have e: "is_normal (resolved_path e)" by (rule resolved_normal [OF assms(1,2,4)])
  obtain d where d: "decides (resolved_entries_with_cwd env pol cwd) d (resolved_path e)"
      "resolve_access_with_cwd env pol (resolved_path e) cwd = resolved_access d"
    using access_decided [OF assms(3) candidate_id [OF e], of env cwd] assms(4) starts_with_refl unfolding covers_def by blast
  have "is_normal (resolved_path d)" using d(1) resolved_normal [OF assms(1,2)] by (auto simp: decides_def)
  then have "resolved_path d = resolved_path e"
    using d(1) e assms(4) by (auto simp: decides_def covers_def intro: normal_antisym)
  then show ?thesis using d that by blast
qed

lemma decided_access_at:
  assumes "sandbox_env_ok env" and "policy_paths_ok pol" and "policy_kind pol = Restricted"
    and "decides (resolved_entries_with_cwd env pol cwd) d q"
  shows "resolve_access_with_cwd env pol (resolved_path d) cwd = resolved_access d"
proof -
  have d: "d \<in> set (resolved_entries_with_cwd env pol cwd)" using assms(4) by (simp add: decides_def)
  obtain f where "decides (resolved_entries_with_cwd env pol cwd) f (resolved_path d)"
      "resolve_access_with_cwd env pol (resolved_path d) cwd = resolved_access f"
    using access_at_entry [OF assms(1-3) d] by blast
  then show ?thesis
    using decides_unique [OF _ decides_self [OF assms(4)]] resolved_normal [OF assms(1,2)] by simp
qed

lemma carved_out:
  assumes "plain_disk env" and "is_normal (resolved_path d)" and "d \<in> set (resolved_entries_with_cwd env pol cwd)"
    and "\<not> can_write (resolved_access d)" and "\<not> can_write_path_with_cwd env pol (resolved_path d) cwd"
    and "resolved_path d \<noteq> root" and "path_starts_with (resolved_path d) root"
  shows "resolved_path d \<in> set (read_only_subpaths (make_writable_root env pol cwd root))"
proof -
  have "carveout_path env root rs d = Some (resolved_path d)" for rs
    using assms by (auto simp: carveout_path_def raw_carveout_path_def normalize_effective_id Let_def split: option.splits)
  then show ?thesis using assms(3-5) by (auto simp: make_writable_root_def Let_def dedup_first)
qed

lemma writable_entry_in:
  "p \<in> set (writable_entries env pol cwd) \<longleftrightarrow>
     (\<exists>e \<in> set (resolved_entries_with_cwd env pol cwd). can_write (resolved_access e) \<and> resolved_path e = p \<and>
        can_write_path_with_cwd env pol p cwd)"
  by (auto simp: writable_entries_def)

lemma writable_roots_in:
  assumes "sandbox_env_ok env" and "policy_paths_ok pol" and "plain_disk env"
  shows "w \<in> set (get_writable_roots_with_cwd env pol cwd) \<longleftrightarrow>
    \<not> has_full_disk_write_access pol \<and> (\<exists>p \<in> set (writable_entries env pol cwd). w = make_writable_root env pol cwd p)"
proof -
  have "\<forall>p \<in> set (writable_entries env pol cwd). is_normal p"
    using resolved_normal [OF assms(1,2)] by (auto simp: writable_entry_in)
  then show ?thesis by (auto simp: get_writable_roots_with_cwd_def dedup_plain [OF assms(3)])
qed

lemma root_of_make [simp]: "wr_root (make_writable_root env pol cwd root) = root"
  by (simp add: make_writable_root_def Let_def)

section \<open>Closest root and access\<close>

text \<open>Below a writable root and outside its read-only subpaths the policy gives write access.\<close>

lemma root_access:
  assumes "sandbox_env_ok env" and "policy_paths_ok pol" and "policy_kind pol = Restricted" and "plain_disk env"
    and "root \<in> set (writable_entries env pol cwd)" and "is_normal q"
    and "is_path_writable (make_writable_root env pol cwd root) q"
  shows "resolve_access_with_cwd env pol q cwd = Write"
proof -
  let ?es = "resolved_entries_with_cwd env pol cwd"
  obtain e where e: "e \<in> set ?es" "resolved_access e = Write" "resolved_path e = root" "can_write_path_with_cwd env pol root cwd"
    using assms(5) by (auto simp: writable_entry_in can_write_def)
  have q: "path_starts_with q root" "\<forall>p \<in> set (read_only_subpaths (make_writable_root env pol cwd root)). \<not> path_starts_with q p"
    using assms(7) by (auto simp: is_path_writable_def split: if_splits)
  obtain d where d: "decides ?es d q" "resolve_access_with_cwd env pol q cwd = resolved_access d"
    using access_decided [OF assms(3) candidate_id [OF assms(6)], of env cwd] e(1,3) q(1) unfolding covers_def by blast
  have at: "resolve_access_with_cwd env pol (resolved_path d) cwd = resolved_access d"
    by (rule decided_access_at [OF assms(1-3) d(1)])
  have below: "path_starts_with (resolved_path d) root" using d(1) e(1,3) q(1) by (auto simp: decides_def covers_def)
  show ?thesis
  proof (rule ccontr)
    assume nw: "\<not> ?thesis"
    then have "\<not> can_write_path_with_cwd env pol (resolved_path d) cwd" "\<not> can_write (resolved_access d)"
      using at d(2) by (auto simp: can_write_path_with_cwd_def can_write_def)
    moreover have "d \<in> set ?es" "path_starts_with q (resolved_path d)" using d(1) by (auto simp: decides_def covers_def)
    moreover have "resolved_path d \<noteq> root" using calculation(1) e(4) by auto
    ultimately show False using carved_out [OF assms(4) resolved_normal [OF assms(1,2)]] below q(2) by blast
  qed
qed

text \<open>A writable entry that covers a path and is no root itself is carved out of every root above it.\<close>

lemma unwritable_entry_carved:
  assumes "sandbox_env_ok env" and "policy_paths_ok pol" and "policy_kind pol = Restricted" and "plain_disk env"
    and "e \<in> set (resolved_entries_with_cwd env pol cwd)" and "resolved_access e = Write"
    and "\<not> can_write_path_with_cwd env pol (resolved_path e) cwd"
    and "resolved_path e \<noteq> root" and "path_starts_with (resolved_path e) root"
  shows "resolved_path e \<in> set (read_only_subpaths (make_writable_root env pol cwd root))"
proof -
  let ?es = "resolved_entries_with_cwd env pol cwd"
  have n: "is_normal (resolved_path e)" by (rule resolved_normal [OF assms(1,2,5)])
  obtain d where d: "decides ?es d (resolved_path e)" "resolved_path d = resolved_path e"
      "resolve_access_with_cwd env pol (resolved_path e) cwd = resolved_access d"
    using access_at_entry [OF assms(1-3,5)] by blast
  have "\<not> is_metadata_write_denied env pol (resolved_path e) cwd"
  proof
    assume "is_metadata_write_denied env pol (resolved_path e) cwd"
    then obtain m nm where m: "metadata_child_of_writable_root env pol (resolved_path e) cwd = Some (m, nm)"
        "\<not> has_explicit_write_entry_for_metadata_path env pol m (resolved_path e) cwd"
      using n assms(3) by (auto simp: is_metadata_write_denied_def split: option.splits)
    obtain f where f: "f \<in> set ?es" "metadata_child env (resolved_path e) f = Some (m, nm)"
      using first_metadata_child [OF m(1)] split_filter_in by metis
    have fn: "is_normal (resolved_path f)" by (rule resolved_normal [OF assms(1,2) f(1)])
    have "path_starts_with (resolved_path e) m"
      using f(2) n fn metadata_text_normal [OF fn] metadata_text_names [OF fn]
      by (auto simp: metadata_child_iff [OF n fn] normal_starts_with)
    then show False using m(2) assms(5,6) by (auto simp: has_explicit_write_entry_for_metadata_path_def can_write_def)
  qed
  then have "resolved_access d \<noteq> Write" using assms(7) d(3) by (auto simp: can_write_path_with_cwd_def can_write_def split: if_splits)
  then show ?thesis
    using carved_out [OF assms(4), of d] d(1,2) n assms(7-9) by (auto simp: decides_def can_write_def)
qed

text \<open>The metadata of the closest root: outside its protected names an explicit entry allows the path.\<close>

lemma closest_root_metadata:
  assumes ok: "sandbox_env_ok env" "policy_paths_ok pol" "policy_kind pol = Restricted" "plain_disk env"
    and full: "\<not> has_full_disk_write_access pol"
    and root: "root \<in> set (writable_entries env pol cwd)" and q: "is_normal q" and qr: "path_starts_with q root"
    and e: "e \<in> set (resolved_entries_with_cwd env pol cwd)" "resolved_path e = root"
    and first: "filter (\<lambda>e. can_write (resolved_access e)) (resolved_entries_with_cwd env pol cwd) = us @ e # vs"
      "\<forall>u \<in> set us. metadata_child env q u = None"
    and child: "metadata_child env q e = Some (m, n)"
    and unprotected: "n \<notin> set (protected_metadata_names (make_writable_root env pol cwd root))"
  shows "has_explicit_write_entry_for_metadata_path env pol m q cwd"
proof -
  let ?es = "resolved_entries_with_cwd env pol cwd"
  have normal: "is_normal (resolved_path f)" if "f \<in> set ?es" for f using resolved_normal [OF ok(1,2) that] .
  have root_normal': "is_normal root" using normal [OF e(1)] e(2) by simp
  have n: "n \<in> set PROTECTED_METADATA_PATH_NAMES" and pre: "prefix (path_names root @ [n]) (path_names q)"
      and m: "m = absolute_text (path_names root @ [n])"
    using child metadata_child_iff [OF q normal [OF e(1)]] e(2) by auto
  have m_normal: "is_normal m" "path_names m = path_names root @ [n]"
    using metadata_text_normal [OF root_normal' n] metadata_text_names [OF root_normal' n] m by auto
  have join: "abs_join env root n = m" using metadata_join [OF root_normal' n] m by simp
  have "can_write_path_with_cwd env pol m cwd"
    using unprotected n join root normalize_effective_id [OF ok(4)] normal
    by (auto simp: make_writable_root_def Let_def protected_metadata_names_for_writable_root_def writable_entry_in)
  then have "\<not> is_metadata_write_denied env pol m cwd" using full by (auto simp: can_write_path_with_cwd_def split: if_splits)
  moreover have "metadata_child_of_writable_root env pol m cwd = Some (m, n)"
  proof (rule first_metadata_child_is [OF first(1)])
    show "metadata_child env m e = Some (m, n)"
      unfolding metadata_child_iff [OF m_normal(1) normal [OF e(1)]] e(2) m_normal(2) using n m by simp
    show "\<forall>u \<in> set us. metadata_child env m u = None"
    proof
      fix u assume u: "u \<in> set us"
      then have un: "is_normal (resolved_path u)"
        using first(1) normal by (metis Un_iff filter_set in_set_conv_decomp set_append split_filter_in)
      have "metadata_child env m u \<noteq> Some (a, b)" for a b
        using first(2) u metadata_child_iff [OF m_normal(1) un] metadata_child_iff [OF q un] m_normal(2) pre
        by (metis option.distinct(1) prefix_order.trans)
      then show "metadata_child env m u = None" by (cases "metadata_child env m u") auto
    qed
  qed
  ultimately obtain f where f: "f \<in> set ?es" "can_write (resolved_access f)" "path_starts_with m (resolved_path f)"
      "path_starts_with (resolved_path f) m"
    using ok(3) m_normal(1) by (auto simp: is_metadata_write_denied_def has_explicit_write_entry_for_metadata_path_def)
  have "path_starts_with q m" using pre by (simp add: normal_starts_with [OF q m_normal(1)] m_normal(2))
  then have "path_starts_with q (resolved_path f)" by (rule starts_with_trans [OF _ f(3)])
  then show ?thesis unfolding has_explicit_write_entry_for_metadata_path_def using f(1,2,4) by blast
qed

lemma metadata_explicit:
  assumes ok: "sandbox_env_ok env" "policy_paths_ok pol" "policy_kind pol = Restricted" "plain_disk env"
    and full: "\<not> has_full_disk_write_access pol"
    and root: "root \<in> set (writable_entries env pol cwd)" and q: "is_normal q"
    and writable: "is_path_writable (make_writable_root env pol cwd root) q"
    and closest: "\<forall>p \<in> set (writable_entries env pol cwd). path_starts_with q p \<longrightarrow> path_starts_with root p"
    and child: "metadata_child_of_writable_root env pol q cwd = Some (m, n)"
  shows "has_explicit_write_entry_for_metadata_path env pol m q cwd"
proof -
  let ?es = "resolved_entries_with_cwd env pol cwd"
  obtain us e vs where e: "filter (\<lambda>e. can_write (resolved_access e)) ?es = us @ e # vs"
      "metadata_child env q e = Some (m, n)" "\<forall>u \<in> set us. metadata_child env q u = None"
    by (rule first_metadata_child [OF child])
  have in_es: "e \<in> set ?es" "resolved_access e = Write" using split_filter_in [OF e(1)] by (auto simp: can_write_def)
  have en: "is_normal (resolved_path e)" by (rule resolved_normal [OF ok(1,2) in_es(1)])
  have n: "n \<in> set PROTECTED_METADATA_PATH_NAMES" and pre: "prefix (path_names (resolved_path e) @ [n]) (path_names q)"
      and m: "m = absolute_text (path_names (resolved_path e) @ [n])"
    using e(2) metadata_child_iff [OF q en] by auto
  obtain r where r: "r \<in> set ?es" "can_write (resolved_access r)" "resolved_path r = root"
    using root by (auto simp: writable_entry_in)
  have rn: "is_normal root" using resolved_normal [OF ok(1,2) r(1)] r(3) by simp
  have q_root: "path_starts_with q root" and sub: "\<forall>p \<in> set (read_only_subpaths (make_writable_root env pol cwd root)). \<not> path_starts_with q p"
      and unprot: "\<not> path_contains_protected_metadata_name (make_writable_root env pol cwd root) q"
    using writable by (auto simp: is_path_writable_def split: if_splits)
  have q_e: "path_starts_with q (resolved_path e)" using pre by (simp add: normal_starts_with [OF q en] prefix_snoc_iff)
  consider (same) "resolved_path e = root" | (above) "length (path_names (resolved_path e)) < length (path_names root)"
    | (below) "resolved_path e \<noteq> root" "path_starts_with (resolved_path e) root"
    using starts_with_total [OF q_root q_e] en rn by (fastforce simp: normal_names(3))
  then show ?thesis
  proof cases
    case same
    have "n \<notin> set (protected_metadata_names (make_writable_root env pol cwd root))"
      using unprot pre same by (auto simp: path_contains_protected_metadata_name_def normal_strip [OF q rn] prefix_snoc_iff)
    then show ?thesis using closest_root_metadata [OF ok full root q q_root in_es(1) same e(1,3,2)] by simp
  next
    case above
    have "prefix (path_names m) (path_names root)"
      using above pre q_root prefix_length_prefix [OF pre] metadata_text_names [OF en n] m
      by (simp add: normal_starts_with [OF q rn])
    then have "path_starts_with root m" using metadata_text_normal [OF en n] m by (simp add: normal_starts_with [OF rn])
    then show ?thesis unfolding has_explicit_write_entry_for_metadata_path_def using r q_root by blast
  next
    case below
    have "resolved_path e \<notin> set (writable_entries env pol cwd)"
      using closest q_e below normal_antisym [OF en rn] by blast
    then have "\<not> can_write_path_with_cwd env pol (resolved_path e) cwd"
      using in_es by (auto simp: writable_entry_in can_write_def)
    then show ?thesis using unwritable_entry_carved [OF ok in_es _ below] sub q_e by blast
  qed
qed

text \<open>The order of two nested writable roots changes the signature of the policy.\<close>

lemma order_changes_signature:
  "let outer = entry (Path (lit ''/h'')) Write; inner = entry (Path (lit ''/h/.codex/w'')) Write
   in \<not> is_semantically_equivalent_to example_sandbox (restricted [outer, inner]) (restricted [inner, outer]) (lit ''/h/.codex/w'')"
  by code_simp

section \<open>Denied reads\<close>

lemma build_matchers_fail_closed:
  "build_matchers env FailClosed patterns invalid matchers =
     Inr (invalid \<or> (\<exists>p \<in> set patterns. \<exists>err. glob_matcher env p = Inl err),
          matchers @ List.map_filter (\<lambda>p. case glob_matcher env p of Inr m \<Rightarrow> Some m | Inl _ \<Rightarrow> None) patterns)"
  by (induction patterns arbitrary: invalid matchers) (auto simp: List.map_filter_simps split: sum.splits)

lemma matchers_or_invalid:
  "(\<exists>p \<in> set ps. \<exists>err. g p = Inl err) \<or> (\<exists>m \<in> set (List.map_filter (\<lambda>p. case g p of Inr m \<Rightarrow> Some m | Inl _ \<Rightarrow> None) ps). m q) \<longleftrightarrow>
     (\<exists>p \<in> set ps. case g p of Inr m \<Rightarrow> m q | Inl _ \<Rightarrow> True)"
proof (induction ps)
  case (Cons p ps)
  then show ?case by (cases "g p") (simp_all add: List.map_filter_simps del: in_map_filter, blast)
qed (simp add: List.map_filter_simps del: in_map_filter)

lemma plain_candidates:
  assumes "plain_disk env" and "is_normal q"
  shows "normalized_and_canonical_candidates env q = [q]"
proof -
  have "c = q" if "std_canonicalize env q = Some c" for c using assms that by (auto simp: plain_disk_def)
  then show ?thesis using assms(2)
    by (cases "std_canonicalize env q") (auto simp: normalized_and_canonical_candidates_def push_unique_def)
qed

lemma unreadable_roots_plain:
  assumes "sandbox_env_ok env" and "policy_paths_ok pol" and "plain_disk env" and "policy_kind pol = Restricted"
    and "abs_path env cwd = Some c"
  shows "set (get_unreadable_roots_with_cwd env pol cwd) =
    {resolved_path d | d. d \<in> set (resolved_entries_with_cwd env pol cwd) \<and> resolved_access d = Deny \<and> resolved_path d \<noteq> [slash]}"
proof -
  let ?es = "resolved_entries_with_cwd env pol cwd"
  have denied: "\<not> can_read_path_with_cwd env pol (resolved_path d) cwd" if d: "d \<in> set ?es" "resolved_access d = Deny" for d
  proof -
    obtain f where f: "decides ?es f (resolved_path d)" "resolved_path f = resolved_path d"
        "resolve_access_with_cwd env pol (resolved_path d) cwd = resolved_access f"
      using access_at_entry [OF assms(1,2,4) d(1)] by blast
    then have "Deny \<le> resolved_access f" using d by (auto simp: decides_def covers_def)
    then show ?thesis using f(3)
      by (cases "resolved_access f") (auto simp: can_read_path_with_cwd_def can_read_def less_eq_file_system_access_mode_def)
  qed
  have root: "Option.bind (abs_path env cwd) (absolute_root_path_for_cwd env) = Some [slash]"
    using assms(5) abs_path_normal [OF assms(1,5)] by simp
  let ?ps = "map resolved_path (filter (\<lambda>e. Some [slash] \<noteq> Some (resolved_path e))
      (filter (\<lambda>e. \<not> can_read_path_with_cwd env pol (resolved_path e) cwd) (filter (\<lambda>e. resolved_access e = Deny) ?es)))"
  have "\<forall>p \<in> set ?ps. is_normal p" using resolved_normal [OF assms(1,2)] by auto
  then have "get_unreadable_roots_with_cwd env pol cwd = rev (remdups (rev ?ps))"
    unfolding get_unreadable_roots_with_cwd_def root Let_def using dedup_plain [OF assms(3)] assms(4) by simp
  then show ?thesis using denied by auto
qed

section \<open>Properties\<close>

text \<open>C7: on a disk without links, a path that the closest writable root handed to the sandbox lets be
  written can be written under the policy: the carve-outs and the protected names of the roots give away
  nothing.\<close>

theorem writable_roots_sound:
  assumes "sandbox_env_ok env" and "policy_paths_ok pol" and "plain_disk env" and "policy_kind pol = Restricted"
    and "w \<in> set (get_writable_roots_with_cwd env pol cwd)" and "is_normal q" and "is_path_writable w q"
    and "\<forall>v \<in> set (get_writable_roots_with_cwd env pol cwd). path_starts_with q (wr_root v) \<longrightarrow> path_starts_with (wr_root w) (wr_root v)"
  shows "can_write_path_with_cwd env pol q cwd"
proof -
  let ?es = "resolved_entries_with_cwd env pol cwd"
  obtain root where full: "\<not> has_full_disk_write_access pol" and root: "root \<in> set (writable_entries env pol cwd)"
      and w: "w = make_writable_root env pol cwd root"
    using assms(5) writable_roots_in [OF assms(1-3)] by blast
  have access: "resolve_access_with_cwd env pol q cwd = Write"
    using root_access [OF assms(1,2,4,3) root assms(6)] assms(7) w by simp
  have "\<forall>p \<in> set (writable_entries env pol cwd). path_starts_with q p \<longrightarrow> path_starts_with root p"
    using assms(8) full w by (force simp: writable_roots_in [OF assms(1-3)])
  note metadata_explicit [OF assms(1,2,4,3) full root assms(6) _ this]
  then have "metadata_child_of_writable_root env pol q cwd = Some (m, n) \<Longrightarrow> has_explicit_write_entry_for_metadata_path env pol m q cwd"
    for m n using assms(7) w by blast
  then have "\<not> is_metadata_write_denied env pol q cwd"
    using assms(4,6) by (auto simp: is_metadata_write_denied_def split: option.splits)
  then show ?thesis using access full by (simp add: can_write_path_with_cwd_def can_write_def)
qed

theorem writable_roots_sound_witness:
  "\<exists>w \<in> set (get_writable_roots_with_cwd example_sandbox example_permissions (lit ''/w'')).
     is_path_writable w (lit ''/w/src/f'') \<and> can_write_path_with_cwd example_sandbox example_permissions (lit ''/w/src/f'') (lit ''/w'') \<and>
     \<not> is_path_writable w (lit ''/w/secret/f'') \<and> \<not> is_path_writable w (lit ''/w/.git/config'')"
proof -
  let ?roots = "get_writable_roots_with_cwd example_sandbox example_permissions (lit ''/w'')"
  let ?w = "hd ?roots"
  have w: "?w \<in> set ?roots" "is_path_writable ?w (lit ''/w/src/f'')" "\<not> is_path_writable ?w (lit ''/w/secret/f'')"
      "\<not> is_path_writable ?w (lit ''/w/.git/config'')"
      "\<forall>v \<in> set ?roots. path_starts_with (lit ''/w/src/f'') (wr_root v) \<longrightarrow> path_starts_with (wr_root ?w) (wr_root v)"
    by code_simp+
  have "plain_disk example_sandbox" by (simp add: plain_disk_def example_sandbox_def)
  moreover have "sandbox_env_ok example_sandbox" "policy_paths_ok example_permissions" "policy_kind example_permissions = Restricted"
      "is_normal (lit ''/w/src/f'')"
    by code_simp+
  ultimately show ?thesis using writable_roots_sound [OF _ _ _ _ w(1) _ w(2,5)] w by blast
qed



end
