(* ===== verification/Exec_Policy.thy ===== *)
theory Exec_Policy
  imports Unix_Path "HOL-Library.List_Lexorder"
begin

text \<open>
  The execution policy (\<^verbatim>\<open>execpolicy/src\<close>): prefix rules that decide on a command, their evaluation,
  network rules, overlays, and the builder behind the policy files.  A policy file is a Starlark
  program; its evaluation is not modelled, a file is the sequence of the rule calls it makes.  The
  multimap of rules is an association list from the program name to the rules in order.

  The lemmas show that the strictest matching rule decides, that an overlay can only add rules,
  that network domains follow the last rule for a host, and that the examples of a policy file hold
  in the policy it builds.
\<close>

section \<open>Decisions\<close>

datatype decision = Allow | Prompt | Forbidden

text \<open>The derived order: from the most permissive to the strictest.\<close>

instantiation decision :: linorder
begin

fun less_decision :: "decision \<Rightarrow> decision \<Rightarrow> bool" where
  "less_decision Allow d \<longleftrightarrow> d \<noteq> Allow"
| "less_decision Prompt d \<longleftrightarrow> d = Forbidden"
| "less_decision Forbidden d \<longleftrightarrow> False"

definition less_eq_decision :: "decision \<Rightarrow> decision \<Rightarrow> bool" where
  "less_eq_decision d d' \<longleftrightarrow> d < d' \<or> d = d'"

instance
proof
  fix x y z :: decision
  show "x < y \<longleftrightarrow> x \<le> y \<and> \<not> y \<le> x" by (cases x; cases y) (auto simp: less_eq_decision_def)
  show "x \<le> x" by (simp add: less_eq_decision_def)
  show "x \<le> y \<Longrightarrow> y \<le> z \<Longrightarrow> x \<le> z" by (cases x; cases y; cases z) (auto simp: less_eq_decision_def)
  show "x \<le> y \<Longrightarrow> y \<le> x \<Longrightarrow> x = y" by (cases x; cases y) (auto simp: less_eq_decision_def)
  show "x \<le> y \<or> y \<le> x" by (cases x; cases y) (auto simp: less_eq_decision_def)
qed

end

text \<open>Positions in a policy file and the errors.\<close>

record text_position =
  position_line :: nat
  position_column :: nat

record error_location =
  location_path :: rstring
  location_start :: text_position
  location_end :: text_position

datatype policy_error =
    InvalidDecision rstring
  | InvalidPattern rstring
  | InvalidExample rstring
  | InvalidRule rstring
  | ExampleDidNotMatch "rstring list" "rstring list" "error_location option"
  | ExampleDidMatch rstring rstring "error_location option"

fun error_with_location :: "policy_error \<Rightarrow> error_location \<Rightarrow> policy_error" where
  "error_with_location (ExampleDidNotMatch rules examples None) loc = ExampleDidNotMatch rules examples (Some loc)"
| "error_with_location (ExampleDidMatch rule example None) loc = ExampleDidMatch rule example (Some loc)"
| "error_with_location e loc = e"

definition parse_decision :: "rstring \<Rightarrow> policy_error + decision" where
  "parse_decision raw =
     (if raw = lit ''allow'' then Inr Allow
      else if raw = lit ''prompt'' then Inr Prompt
      else if raw = lit ''forbidden'' then Inr Forbidden
      else Inl (InvalidDecision raw))"

section \<open>Rules\<close>

datatype pattern_token = Single rstring | Alts "rstring list"

fun token_matches :: "pattern_token \<Rightarrow> rstring \<Rightarrow> bool" where
  "token_matches (Single expected) tok \<longleftrightarrow> expected = tok"
| "token_matches (Alts alternatives) tok \<longleftrightarrow> tok \<in> set alternatives"

fun token_alternatives :: "pattern_token \<Rightarrow> rstring list" where
  "token_alternatives (Single expected) = [expected]"
| "token_alternatives (Alts alternatives) = alternatives"

record prefix_pattern =
  pattern_first :: rstring
  pattern_rest :: "pattern_token list"

definition matches_prefix :: "prefix_pattern \<Rightarrow> rstring list \<Rightarrow> rstring list option" where
  "matches_prefix p cmd =
     (let n = length (pattern_rest p) + 1 in
      if length cmd < n \<or> cmd ! 0 \<noteq> pattern_first p then None
      else if \<exists>(pt, tok) \<in> set (zip (pattern_rest p) (take (n - 1) (drop 1 cmd))). \<not> token_matches pt tok then None
      else Some (take n cmd))"

datatype rule_match =
    PrefixRuleMatch (matched_prefix: "rstring list") (match_decision: decision) (resolved_program: "rstring option")
      (match_justification: "rstring option")
  | HeuristicsRuleMatch (heuristics_command: "rstring list") (match_decision: decision)

fun with_resolved_program :: "rstring \<Rightarrow> rule_match \<Rightarrow> rule_match" where
  "with_resolved_program program (PrefixRuleMatch p d _ j) = PrefixRuleMatch p d (Some program) j"
| "with_resolved_program program other = other"

record prefix_rule =
  rule_pattern :: prefix_pattern
  rule_decision :: decision
  rule_justification :: "rstring option"

definition rule_program :: "prefix_rule \<Rightarrow> rstring" where
  "rule_program r = pattern_first (rule_pattern r)"

definition rule_matches :: "prefix_rule \<Rightarrow> rstring list \<Rightarrow> rule_match option" where
  "rule_matches r cmd =
     map_option (\<lambda>p. PrefixRuleMatch p (rule_decision r) None (rule_justification r)) (matches_prefix (rule_pattern r) cmd)"

datatype network_rule_protocol = Http | Https | Socks5Tcp | Socks5Udp

definition parse_protocol :: "rstring \<Rightarrow> policy_error + network_rule_protocol" where
  "parse_protocol raw =
     (if raw = lit ''http'' then Inr Http
      else if raw \<in> {lit ''https'', lit ''https_connect'', lit ''http-connect''} then Inr Https
      else if raw = lit ''socks5_tcp'' then Inr Socks5Tcp
      else if raw = lit ''socks5_udp'' then Inr Socks5Udp
      else Inl (InvalidRule (lit ''network_rule protocol must be one of http, https, socks5_tcp, socks5_udp (got '' @ raw @ lit '')'')))"

fun as_policy_string :: "network_rule_protocol \<Rightarrow> rstring" where
  "as_policy_string Http = lit ''http''"
| "as_policy_string Https = lit ''https''"
| "as_policy_string Socks5Tcp = lit ''socks5_tcp''"
| "as_policy_string Socks5Udp = lit ''socks5_udp''"

record network_rule =
  rule_host :: rstring
  rule_protocol :: network_rule_protocol
  network_decision :: decision
  network_justification :: "rstring option"

definition all_digits :: "rstring \<Rightarrow> bool" where
  "all_digits s \<longleftrightarrow> (\<forall>c \<in> set s. 48 \<le> c \<and> c \<le> 57)"

text \<open>The host without brackets or port: the two branches in the middle of the function.\<close>

definition strip_host_port :: "rstring \<Rightarrow> rstring \<Rightarrow> policy_error + rstring" where
  "strip_host_port raw host =
     (case strip_prefix (lit ''['') host of
        Some stripped \<Rightarrow>
          (case split_once 93 stripped of
             None \<Rightarrow> Inl (InvalidRule (lit ''network_rule host has an invalid bracketed IPv6 literal''))
           | Some (inside, rest) \<Rightarrow>
               let port_ok = (case strip_prefix (lit '':'') rest of Some port \<Rightarrow> port \<noteq> [] \<and> all_digits port | None \<Rightarrow> False)
               in if rest \<noteq> [] \<and> \<not> port_ok
                  then Inl (InvalidRule (lit ''network_rule host contains an unsupported suffix: '' @ raw))
                  else Inr inside)
      | None \<Rightarrow>
          if length (filter (\<lambda>c. c = 58) host) = 1 then
            (case rsplit_once 58 host of
               Some (candidate, port) \<Rightarrow>
                 if candidate \<noteq> [] \<and> port \<noteq> [] \<and> all_digits port then Inr candidate else Inr host
             | None \<Rightarrow> Inr host)
          else Inr host)"

definition host_empty :: policy_error where
  "host_empty = InvalidRule (lit ''network_rule host cannot be empty'')"

definition normalize_network_rule_host :: "rstring \<Rightarrow> policy_error + rstring" where
  "normalize_network_rule_host raw =
     (let host = trim raw in
      if host = [] then Inl host_empty
      else if find_sub (lit ''://'') host \<noteq> None \<or> 47 \<in> set host \<or> 63 \<in> set host \<or> 35 \<in> set host
      then Inl (InvalidRule (lit ''network_rule host must be a hostname or IP literal (without scheme or path)''))
      else bind_res (strip_host_port raw host) (\<lambda>host.
        let normalized = to_ascii_lowercase (trim (rev (dropWhile (\<lambda>c. c = 46) (rev host)))) in
        if normalized = [] then Inl host_empty
        else if 42 \<in> set normalized
        then Inl (InvalidRule (lit ''network_rule host must be a specific host; wildcards are not allowed''))
        else if \<exists>c \<in> set normalized. is_whitespace c
        then Inl (InvalidRule (lit ''network_rule host cannot contain whitespace''))
        else Inr normalized))"

section \<open>Executable names\<close>

definition executable_lookup_key :: "rstring \<Rightarrow> rstring" where
  "executable_lookup_key raw = raw"

definition executable_path_lookup_key :: "rstring \<Rightarrow> rstring option" where
  "executable_path_lookup_key path = map_option executable_lookup_key (file_name path)"

section \<open>Policies\<close>

type_synonym rule_map = "(rstring \<times> prefix_rule list) list"

text \<open>\<open>MultiMap::insert\<close>: the values of a key are kept in the order of insertion.\<close>

fun multi_insert :: "rule_map \<Rightarrow> rstring \<Rightarrow> prefix_rule \<Rightarrow> rule_map" where
  "multi_insert [] k r = [(k, [r])]"
| "multi_insert ((k', rs) # m) k r = (if k' = k then (k', rs @ [r]) # m else (k', rs) # multi_insert m k r)"

record match_options =
  resolve_host_executables :: bool

definition default_match_options :: match_options where
  "default_match_options = \<lparr>resolve_host_executables = False\<rparr>"

record policy =
  rules_by_program :: rule_map
  network_rules :: "network_rule list"
  host_executables_by_name :: "rstring \<Rightarrow> rstring list option"

definition empty_policy :: policy where
  "empty_policy = \<lparr>rules_by_program = [], network_rules = [], host_executables_by_name = Map.empty\<rparr>"

fun render_pattern_token :: "pattern_token \<Rightarrow> rstring" where
  "render_pattern_token (Single value) = value"
| "render_pattern_token (Alts alternatives) = lit ''['' @ join (lit ''|'') alternatives @ lit '']''"

definition get_allowed_prefixes :: "policy \<Rightarrow> rstring list list" where
  "get_allowed_prefixes p =
     remdups_adj (sort (concat (map (\<lambda>(_, rules).
       map (\<lambda>r. pattern_first (rule_pattern r) # map render_pattern_token (pattern_rest (rule_pattern r)))
         (filter (\<lambda>r. rule_decision r = Allow) rules)) (rules_by_program p))))"

definition add_prefix_rule :: "policy \<Rightarrow> rstring list \<Rightarrow> decision \<Rightarrow> policy_error + policy" where
  "add_prefix_rule p pfx d =
     (case pfx of
        [] \<Rightarrow> Inl (InvalidPattern (lit ''prefix cannot be empty''))
      | first_token # rest \<Rightarrow>
          Inr (p\<lparr>rules_by_program := multi_insert (rules_by_program p) first_token
            \<lparr>rule_pattern = \<lparr>pattern_first = first_token, pattern_rest = map Single rest\<rparr>, rule_decision = d,
             rule_justification = None\<rparr>\<rparr>))"

definition justification_empty :: policy_error where
  "justification_empty = InvalidRule (lit ''justification cannot be empty'')"

definition add_network_rule ::
    "policy \<Rightarrow> rstring \<Rightarrow> network_rule_protocol \<Rightarrow> decision \<Rightarrow> rstring option \<Rightarrow> policy_error + policy" where
  "add_network_rule p host protocol d justification =
     bind_res (normalize_network_rule_host host) (\<lambda>host.
       if (case justification of Some raw \<Rightarrow> trim raw = [] | None \<Rightarrow> False) then Inl justification_empty
       else Inr (p\<lparr>network_rules := network_rules p @
         [\<lparr>rule_host = host, rule_protocol = protocol, network_decision = d, network_justification = justification\<rparr>]\<rparr>))"

definition set_host_executable_paths :: "policy \<Rightarrow> rstring \<Rightarrow> rstring list \<Rightarrow> policy" where
  "set_host_executable_paths p name paths =
     p\<lparr>host_executables_by_name := (host_executables_by_name p)(name \<mapsto> paths)\<rparr>"

definition merge_overlay :: "policy \<Rightarrow> policy \<Rightarrow> policy" where
  "merge_overlay p overlay =
     \<lparr>rules_by_program =
        fold (\<lambda>(program, rules) m. fold (\<lambda>r m. multi_insert m program r) rules m)
          (rules_by_program overlay) (rules_by_program p),
      network_rules = network_rules p @ network_rules overlay,
      host_executables_by_name = host_executables_by_name p ++ host_executables_by_name overlay\<rparr>"

definition upsert_domain :: "rstring list \<Rightarrow> rstring \<Rightarrow> rstring list" where
  "upsert_domain entries host = filter (\<lambda>e. e \<noteq> host) entries @ [host]"

definition compile_domain :: "network_rule \<Rightarrow> rstring list \<times> rstring list \<Rightarrow> rstring list \<times> rstring list" where
  "compile_domain r = (\<lambda>(allowed, denied).
     case network_decision r of
       Allow \<Rightarrow> (upsert_domain allowed (rule_host r), filter (\<lambda>e. e \<noteq> rule_host r) denied)
     | Forbidden \<Rightarrow> (filter (\<lambda>e. e \<noteq> rule_host r) allowed, upsert_domain denied (rule_host r))
     | Prompt \<Rightarrow> (allowed, denied))"

definition compiled_network_domains :: "policy \<Rightarrow> rstring list \<times> rstring list" where
  "compiled_network_domains p = fold compile_domain (network_rules p) ([], [])"

section \<open>Evaluation\<close>

definition get_vec :: "rule_map \<Rightarrow> rstring \<Rightarrow> prefix_rule list option" where
  "get_vec m k = map_of m k"

definition match_exact_rules :: "policy \<Rightarrow> rstring list \<Rightarrow> rule_match list option" where
  "match_exact_rules p cmd =
     (case cmd of
        [] \<Rightarrow> None
      | first # _ \<Rightarrow>
          Some (case get_vec (rules_by_program p) first of
            Some rules \<Rightarrow> List.map_filter (\<lambda>r. rule_matches r cmd) rules
          | None \<Rightarrow> []))"

definition match_host_executable_rules :: "path_env \<Rightarrow> policy \<Rightarrow> rstring list \<Rightarrow> rule_match list" where
  "match_host_executable_rules env p cmd =
     (case cmd of
        [] \<Rightarrow> []
      | first # rest \<Rightarrow>
          (case from_absolute_path env first of
             Inl _ \<Rightarrow> []
           | Inr program \<Rightarrow>
               (case executable_path_lookup_key program of
                  None \<Rightarrow> []
                | Some basename \<Rightarrow>
                    (case get_vec (rules_by_program p) basename of
                       None \<Rightarrow> []
                     | Some rules \<Rightarrow>
                         if (case host_executables_by_name p basename of
                               Some paths \<Rightarrow> program \<notin> set paths | None \<Rightarrow> False)
                         then []
                         else map (with_resolved_program program) (List.map_filter (\<lambda>r. rule_matches r (basename # rest)) rules)))))"

definition matches_for_command_with_options ::
    "path_env \<Rightarrow> policy \<Rightarrow> rstring list \<Rightarrow> (rstring list \<Rightarrow> decision) option \<Rightarrow> match_options \<Rightarrow> rule_match list" where
  "matches_for_command_with_options env p cmd heuristics_fallback options =
     (let matched_rules =
        (case match_exact_rules p cmd of
           Some (m # ms) \<Rightarrow> m # ms
         | _ \<Rightarrow> if resolve_host_executables options then match_host_executable_rules env p cmd else [])
      in case heuristics_fallback of
           Some f \<Rightarrow> if matched_rules = [] then [HeuristicsRuleMatch cmd (f cmd)] else matched_rules
         | None \<Rightarrow> matched_rules)"

definition matches_for_command ::
    "path_env \<Rightarrow> policy \<Rightarrow> rstring list \<Rightarrow> (rstring list \<Rightarrow> decision) option \<Rightarrow> rule_match list" where
  "matches_for_command env p cmd fallback = matches_for_command_with_options env p cmd fallback default_match_options"

record evaluation =
  eval_decision :: decision
  matched_rules :: "rule_match list"

text \<open>\<open>None\<close> is the panic on an empty list of matches.\<close>

definition from_matches :: "rule_match list \<Rightarrow> evaluation option" where
  "from_matches ms =
     (case map match_decision ms of
        [] \<Rightarrow> None
      | d # ds \<Rightarrow> Some \<lparr>eval_decision = fold max ds d, matched_rules = ms\<rparr>)"

definition is_match :: "evaluation \<Rightarrow> bool" where
  "is_match e \<longleftrightarrow> (\<exists>m \<in> set (matched_rules e). case m of HeuristicsRuleMatch _ _ \<Rightarrow> False | _ \<Rightarrow> True)"

definition check_with_options ::
    "path_env \<Rightarrow> policy \<Rightarrow> rstring list \<Rightarrow> (rstring list \<Rightarrow> decision) \<Rightarrow> match_options \<Rightarrow> evaluation option" where
  "check_with_options env p cmd fallback options =
     from_matches (matches_for_command_with_options env p cmd (Some fallback) options)"

definition check :: "path_env \<Rightarrow> policy \<Rightarrow> rstring list \<Rightarrow> (rstring list \<Rightarrow> decision) \<Rightarrow> evaluation option" where
  "check env p cmd fallback =
     from_matches (matches_for_command_with_options env p cmd (Some fallback) default_match_options)"

definition check_multiple_with_options ::
    "path_env \<Rightarrow> policy \<Rightarrow> rstring list list \<Rightarrow> (rstring list \<Rightarrow> decision) \<Rightarrow> match_options \<Rightarrow> evaluation option" where
  "check_multiple_with_options env p commands fallback options =
     from_matches (concat (map (\<lambda>cmd. matches_for_command_with_options env p cmd (Some fallback) options) commands))"

definition check_multiple ::
    "path_env \<Rightarrow> policy \<Rightarrow> rstring list list \<Rightarrow> (rstring list \<Rightarrow> decision) \<Rightarrow> evaluation option" where
  "check_multiple env p commands fallback = check_multiple_with_options env p commands fallback default_match_options"


section \<open>Policy files\<close>

text \<open>Starlark values, as far as the builtins look into them, and the libraries for shell words and
  debug output, which are parameters.\<close>

datatype starlark_value = StrValue rstring | ListValue "starlark_value list" | OtherValue rstring

fun unpack_str :: "starlark_value \<Rightarrow> rstring option" where
  "unpack_str (StrValue s) = Some s"
| "unpack_str _ = None"

fun get_type :: "starlark_value \<Rightarrow> rstring" where
  "get_type (StrValue _) = lit ''string''"
| "get_type (ListValue _) = lit ''list''"
| "get_type (OtherValue t) = t"

record policy_libs =
  shlex_split :: "rstring \<Rightarrow> rstring list option"
  shlex_join :: "rstring list \<Rightarrow> rstring option"
  debug_rule :: "prefix_rule \<Rightarrow> rstring"
  debug_match :: "rule_match \<Rightarrow> rstring"

text \<open>\<open>Iterator::collect\<close> into a result: the first error wins.\<close>

fun collect_results :: "('a \<Rightarrow> 'e + 'b) \<Rightarrow> 'a list \<Rightarrow> 'e + 'b list" where
  "collect_results f [] = Inr []"
| "collect_results f (x # xs) = bind_res (f x) (\<lambda>y. bind_res (collect_results f xs) (\<lambda>ys. Inr (y # ys)))"

definition unpack_alternative :: "starlark_value \<Rightarrow> policy_error + rstring" where
  "unpack_alternative v =
     (case unpack_str v of
        Some s \<Rightarrow> Inr s
      | None \<Rightarrow> Inl (InvalidPattern (lit ''pattern alternative must be a string (got '' @ get_type v @ lit '')'')))"

fun parse_pattern_token :: "starlark_value \<Rightarrow> policy_error + pattern_token" where
  "parse_pattern_token (StrValue s) = Inr (Single s)"
| "parse_pattern_token (ListValue vs) =
     bind_res (collect_results unpack_alternative vs) (\<lambda>tokens.
       case tokens of
         [] \<Rightarrow> Inl (InvalidPattern (lit ''pattern alternatives cannot be empty''))
       | [single] \<Rightarrow> Inr (Single single)
       | _ \<Rightarrow> Inr (Alts tokens))"
| "parse_pattern_token v =
     Inl (InvalidPattern (lit ''pattern element must be a string or list of strings (got '' @ get_type v @ lit '')''))"

definition pattern_empty :: policy_error where
  "pattern_empty = InvalidPattern (lit ''pattern cannot be empty'')"

definition parse_pattern :: "starlark_value list \<Rightarrow> policy_error + pattern_token list" where
  "parse_pattern items =
     bind_res (collect_results parse_pattern_token items) (\<lambda>tokens. if tokens = [] then Inl pattern_empty else Inr tokens)"

definition parse_string_example :: "policy_libs \<Rightarrow> rstring \<Rightarrow> policy_error + rstring list" where
  "parse_string_example libs raw =
     (case shlex_split libs raw of
        None \<Rightarrow> Inl (InvalidExample (lit ''example string has invalid shell syntax''))
      | Some tokens \<Rightarrow>
          if tokens = [] then Inl (InvalidExample (lit ''example cannot be an empty string'')) else Inr tokens)"

definition unpack_example_token :: "starlark_value \<Rightarrow> policy_error + rstring" where
  "unpack_example_token v =
     (case unpack_str v of
        Some s \<Rightarrow> Inr s
      | None \<Rightarrow> Inl (InvalidExample (lit ''example tokens must be strings (got '' @ get_type v @ lit '')'')))"

definition parse_list_example :: "starlark_value list \<Rightarrow> policy_error + rstring list" where
  "parse_list_example vs =
     bind_res (collect_results unpack_example_token vs) (\<lambda>tokens.
       if tokens = [] then Inl (InvalidExample (lit ''example cannot be an empty list'')) else Inr tokens)"

fun parse_example :: "policy_libs \<Rightarrow> starlark_value \<Rightarrow> policy_error + rstring list" where
  "parse_example libs (StrValue raw) = parse_string_example libs raw"
| "parse_example libs (ListValue vs) = parse_list_example vs"
| "parse_example libs v =
     Inl (InvalidExample (lit ''example must be a string or list of strings (got '' @ get_type v @ lit '')''))"

definition parse_examples :: "policy_libs \<Rightarrow> starlark_value list \<Rightarrow> policy_error + rstring list list" where
  "parse_examples libs vs = collect_results (parse_example libs) vs"

definition parse_literal_absolute_path :: "path_env \<Rightarrow> rstring \<Rightarrow> policy_error + rstring" where
  "parse_literal_absolute_path env raw =
     (if \<not> is_absolute raw then Inl (InvalidRule (lit ''host_executable paths must be absolute (got '' @ raw @ lit '')''))
      else case from_absolute_path env raw of
        Inr path \<Rightarrow> Inr path
      | Inl e \<Rightarrow> Inl (InvalidRule (lit ''invalid absolute path `'' @ raw @ lit ''`: '' @ io_text e)))"

definition validate_host_executable_name :: "rstring \<Rightarrow> policy_error + unit" where
  "validate_host_executable_name name =
     (if name = [] then Inl (InvalidRule (lit ''host_executable name cannot be empty''))
      else if length (components name) \<noteq> 1 \<or> file_name name \<noteq> Some name
      then Inl (InvalidRule (lit ''host_executable name must be a bare executable name (got '' @ name @ lit '')''))
      else Inr ())"

definition parse_network_rule_decision :: "rstring \<Rightarrow> policy_error + decision" where
  "parse_network_rule_decision raw = (if raw = lit ''deny'' then Inr Forbidden else parse_decision raw)"

definition attach_validation_location :: "policy_error \<Rightarrow> error_location option \<Rightarrow> policy_error" where
  "attach_validation_location e loc = (case loc of Some l \<Rightarrow> error_with_location e l | None \<Rightarrow> e)"

record pending_example_validation =
  pending_rules :: "prefix_rule list"
  pending_matches :: "rstring list list"
  pending_not_matches :: "rstring list list"
  pending_location :: "error_location option"

record policy_builder =
  builder_rules :: rule_map
  builder_network_rules :: "network_rule list"
  builder_host_executables :: "rstring \<Rightarrow> rstring list option"
  pending_example_validations :: "pending_example_validation list"

definition new_builder :: policy_builder where
  "new_builder = \<lparr>builder_rules = [], builder_network_rules = [], builder_host_executables = Map.empty,
     pending_example_validations = []\<rparr>"

definition builder_add_rule :: "policy_builder \<Rightarrow> prefix_rule \<Rightarrow> policy_builder" where
  "builder_add_rule b r = b\<lparr>builder_rules := multi_insert (builder_rules b) (rule_program r) r\<rparr>"

definition example_options :: match_options where
  "example_options = \<lparr>resolve_host_executables = True\<rparr>"

definition render_example :: "policy_libs \<Rightarrow> rstring list \<Rightarrow> rstring" where
  "render_example libs example =
     (case shlex_join libs example of Some t \<Rightarrow> t | None \<Rightarrow> lit ''unable to render example'')"

definition validate_match_examples ::
    "policy_libs \<Rightarrow> path_env \<Rightarrow> policy \<Rightarrow> prefix_rule list \<Rightarrow> rstring list list \<Rightarrow> policy_error + unit" where
  "validate_match_examples libs env p rules matches =
     (let unmatched_examples =
        filter (\<lambda>example. matches_for_command_with_options env p example None example_options = []) matches
      in if unmatched_examples = [] then Inr ()
         else Inl (ExampleDidNotMatch (map (debug_rule libs) rules) (map (render_example libs) unmatched_examples) None))"

fun validate_not_match_examples ::
    "policy_libs \<Rightarrow> path_env \<Rightarrow> policy \<Rightarrow> prefix_rule list \<Rightarrow> rstring list list \<Rightarrow> policy_error + unit" where
  "validate_not_match_examples libs env p rules [] = Inr ()"
| "validate_not_match_examples libs env p rules (example # examples) =
     (case matches_for_command_with_options env p example None example_options of
        m # _ \<Rightarrow> Inl (ExampleDidMatch (debug_match libs m) (render_example libs example) None)
      | [] \<Rightarrow> validate_not_match_examples libs env p rules examples)"

text \<open>The policy of one call, against which its examples are checked.\<close>

definition validation_policy :: "policy_builder \<Rightarrow> pending_example_validation \<Rightarrow> policy" where
  "validation_policy b v =
     \<lparr>rules_by_program = fold (\<lambda>r m. multi_insert m (rule_program r) r) (pending_rules v) [],
      network_rules = [], host_executables_by_name = builder_host_executables b\<rparr>"

fun validate_examples :: "policy_libs \<Rightarrow> path_env \<Rightarrow> policy_builder \<Rightarrow> pending_example_validation list \<Rightarrow> policy_error + unit" where
  "validate_examples libs env b [] = Inr ()"
| "validate_examples libs env b (v # vs) =
     (let p = validation_policy b v;
          attach = (\<lambda>r. case r of Inr x \<Rightarrow> Inr x | Inl e \<Rightarrow> Inl (attach_validation_location e (pending_location v)))
      in bind_res (attach (validate_not_match_examples libs env p (pending_rules v) (pending_not_matches v))) (\<lambda>_.
         bind_res (attach (validate_match_examples libs env p (pending_rules v) (pending_matches v))) (\<lambda>_.
         validate_examples libs env b vs)))"

definition validate_pending_examples_from :: "policy_libs \<Rightarrow> path_env \<Rightarrow> policy_builder \<Rightarrow> nat \<Rightarrow> policy_error + unit" where
  "validate_pending_examples_from libs env b start =
     validate_examples libs env b (drop start (pending_example_validations b))"

definition build_policy :: "policy_builder \<Rightarrow> policy" where
  "build_policy b =
     \<lparr>rules_by_program = builder_rules b, network_rules = builder_network_rules b,
      host_executables_by_name = builder_host_executables b\<rparr>"

text \<open>The calls a policy file makes, in order, with their arguments; the location is that of the call.\<close>

datatype builtin_call =
    PrefixRuleCall "starlark_value list" "rstring option" "starlark_value list option" "starlark_value list option"
      "rstring option" "error_location option"
  | NetworkRuleCall rstring rstring rstring "rstring option"
  | HostExecutableCall rstring "starlark_value list"

definition check_justification :: "rstring option \<Rightarrow> policy_error + rstring option" where
  "check_justification j =
     (case j of
        Some raw \<Rightarrow> if trim raw = [] then Inl justification_empty else Inr (Some raw)
      | None \<Rightarrow> Inr None)"

definition optional_examples :: "policy_libs \<Rightarrow> starlark_value list option \<Rightarrow> policy_error + rstring list list" where
  "optional_examples libs e = (case e of None \<Rightarrow> Inr [] | Some vs \<Rightarrow> parse_examples libs vs)"

definition prefix_rule_call ::
    "policy_libs \<Rightarrow> policy_builder \<Rightarrow> starlark_value list \<Rightarrow> rstring option \<Rightarrow> starlark_value list option \<Rightarrow>
     starlark_value list option \<Rightarrow> rstring option \<Rightarrow> error_location option \<Rightarrow> policy_error + policy_builder" where
  "prefix_rule_call libs b pat d m nm j loc =
     bind_res (case d of Some raw \<Rightarrow> parse_decision raw | None \<Rightarrow> Inr Allow) (\<lambda>d.
     bind_res (check_justification j) (\<lambda>j.
     bind_res (parse_pattern pat) (\<lambda>pattern_tokens.
     bind_res (optional_examples libs m) (\<lambda>m.
     bind_res (optional_examples libs nm) (\<lambda>nm.
       case pattern_tokens of
         [] \<Rightarrow> Inl pattern_empty
       | first_token # rest \<Rightarrow>
           let rules = map (\<lambda>head. \<lparr>rule_pattern = \<lparr>pattern_first = head, pattern_rest = rest\<rparr>, rule_decision = d,
                 rule_justification = j\<rparr>) (token_alternatives first_token);
               b = b\<lparr>pending_example_validations := pending_example_validations b @
                 [\<lparr>pending_rules = rules, pending_matches = m, pending_not_matches = nm, pending_location = loc\<rparr>]\<rparr>
           in Inr (fold (\<lambda>r b. builder_add_rule b r) rules b))))))"

definition network_rule_call ::
    "policy_builder \<Rightarrow> rstring \<Rightarrow> rstring \<Rightarrow> rstring \<Rightarrow> rstring option \<Rightarrow> policy_error + policy_builder" where
  "network_rule_call b host protocol d j =
     bind_res (parse_protocol protocol) (\<lambda>protocol.
     bind_res (parse_network_rule_decision d) (\<lambda>d.
     bind_res (check_justification j) (\<lambda>j.
     bind_res (normalize_network_rule_host host) (\<lambda>host.
       Inr (b\<lparr>builder_network_rules := builder_network_rules b @
         [\<lparr>rule_host = host, rule_protocol = protocol, network_decision = d, network_justification = j\<rparr>]\<rparr>)))))"

definition basename_error :: "rstring \<Rightarrow> rstring \<Rightarrow> policy_error" where
  "basename_error raw name =
     InvalidRule (lit ''host_executable path `'' @ raw @ lit ''` must have basename `'' @ name @ lit ''`'')"

fun parse_host_paths :: "path_env \<Rightarrow> rstring \<Rightarrow> starlark_value list \<Rightarrow> rstring list \<Rightarrow> policy_error + rstring list" where
  "parse_host_paths env name [] parsed = Inr parsed"
| "parse_host_paths env name (v # vs) parsed =
     (case unpack_str v of
        None \<Rightarrow> Inl (InvalidRule (lit ''host_executable paths must be strings (got '' @ get_type v @ lit '')''))
      | Some raw \<Rightarrow>
          bind_res (parse_literal_absolute_path env raw) (\<lambda>path.
            case executable_path_lookup_key path of
              None \<Rightarrow> Inl (basename_error raw name)
            | Some path_name \<Rightarrow>
                if path_name \<noteq> executable_lookup_key name then Inl (basename_error raw name)
                else parse_host_paths env name vs (if path \<in> set parsed then parsed else parsed @ [path])))"

definition host_executable_call :: "path_env \<Rightarrow> policy_builder \<Rightarrow> rstring \<Rightarrow> starlark_value list \<Rightarrow> policy_error + policy_builder" where
  "host_executable_call env b name paths =
     bind_res (validate_host_executable_name name) (\<lambda>_.
     bind_res (parse_host_paths env name paths []) (\<lambda>parsed_paths.
       Inr (b\<lparr>builder_host_executables := (builder_host_executables b)(executable_lookup_key name \<mapsto> parsed_paths)\<rparr>)))"

fun run_call :: "policy_libs \<Rightarrow> path_env \<Rightarrow> policy_builder \<Rightarrow> builtin_call \<Rightarrow> policy_error + policy_builder" where
  "run_call libs env b (PrefixRuleCall pat d m nm j loc) = prefix_rule_call libs b pat d m nm j loc"
| "run_call libs env b (NetworkRuleCall host protocol d j) = network_rule_call b host protocol d j"
| "run_call libs env b (HostExecutableCall name paths) = host_executable_call env b name paths"

text \<open>The builder keeps what the calls before an error have added.\<close>

fun run_calls :: "policy_libs \<Rightarrow> path_env \<Rightarrow> policy_builder \<Rightarrow> builtin_call list \<Rightarrow> policy_builder \<times> (policy_error + unit)" where
  "run_calls libs env b [] = (b, Inr ())"
| "run_calls libs env b (c # cs) =
     (case run_call libs env b c of Inl e \<Rightarrow> (b, Inl e) | Inr b \<Rightarrow> run_calls libs env b cs)"

definition parse_policy :: "policy_libs \<Rightarrow> path_env \<Rightarrow> policy_builder \<Rightarrow> builtin_call list \<Rightarrow> policy_builder \<times> (policy_error + unit)" where
  "parse_policy libs env b calls =
     (let pending_validation_count = length (pending_example_validations b);
          (b, r) = run_calls libs env b calls
      in case r of
           Inl e \<Rightarrow> (b, Inl e)
         | Inr _ \<Rightarrow> (b, validate_pending_examples_from libs env b pending_validation_count))"

section \<open>What decides\<close>

text \<open>A rule applies to a command that starts with one of its prefixes.\<close>

definition applies :: "prefix_rule \<Rightarrow> rstring list \<Rightarrow> bool" where
  "applies r cmd \<longleftrightarrow>
     (let rest = pattern_rest (rule_pattern r) in
      cmd \<noteq> [] \<and> hd cmd = pattern_first (rule_pattern r) \<and>
      list_all2 token_matches rest (take (length rest) (tl cmd)))"

definition all_rules :: "policy \<Rightarrow> prefix_rule list" where
  "all_rules p = concat (map snd (rules_by_program p))"

text \<open>The rules are filed once, under their program.\<close>

definition rule_map_ok :: "rule_map \<Rightarrow> bool" where
  "rule_map_ok m \<longleftrightarrow> distinct (map fst m) \<and> (\<forall>(k, rs) \<in> set m. \<forall>r \<in> set rs. rule_program r = k)"

definition policy_ok :: "policy \<Rightarrow> bool" where
  "policy_ok p \<longleftrightarrow> rule_map_ok (rules_by_program p)"

definition applying :: "policy \<Rightarrow> rstring list \<Rightarrow> prefix_rule set" where
  "applying p cmd = {r \<in> set (all_rules p). applies r cmd}"

text \<open>The command with its program replaced by the name it is looked up by, when that is allowed.\<close>

definition resolved_command :: "path_env \<Rightarrow> policy \<Rightarrow> rstring list \<Rightarrow> rstring list option" where
  "resolved_command env p cmd =
     (case cmd of
        [] \<Rightarrow> None
      | first # rest \<Rightarrow>
          (case from_absolute_path env first of
             Inl _ \<Rightarrow> None
           | Inr program \<Rightarrow>
               (case file_name program of
                  None \<Rightarrow> None
                | Some basename \<Rightarrow>
                    if (case host_executables_by_name p basename of Some paths \<Rightarrow> program \<in> set paths | None \<Rightarrow> True)
                    then Some (basename # rest) else None)))"

definition deciding :: "path_env \<Rightarrow> policy \<Rightarrow> match_options \<Rightarrow> rstring list \<Rightarrow> prefix_rule set" where
  "deciding env p options cmd =
     (if applying p cmd \<noteq> {} then applying p cmd
      else if resolve_host_executables options
      then (case resolved_command env p cmd of Some cmd' \<Rightarrow> applying p cmd' | None \<Rightarrow> {})
      else {})"

definition command_decision ::
    "path_env \<Rightarrow> policy \<Rightarrow> match_options \<Rightarrow> (rstring list \<Rightarrow> decision) \<Rightarrow> rstring list \<Rightarrow> decision" where
  "command_decision env p options fallback cmd =
     (if deciding env p options cmd = {} then fallback cmd else Max (rule_decision ` deciding env p options cmd))"

lemma matches_prefix_iff:
  "matches_prefix (rule_pattern r) cmd = (if applies r cmd then Some (take (length (pattern_rest (rule_pattern r)) + 1) cmd) else None)"
proof (cases cmd)
  case Nil
  then show ?thesis by (simp add: matches_prefix_def applies_def)
next
  case (Cons c cs)
  let ?rest = "pattern_rest (rule_pattern r)"
  have "(\<exists>(pt, tok) \<in> set (zip ?rest (take (length ?rest) cs)). \<not> token_matches pt tok) \<longleftrightarrow>
      \<not> list_all2 token_matches ?rest (take (length ?rest) cs)" if "length ?rest \<le> length cs"
    using that by (auto simp: list_all2_iff)
  moreover have "\<not> list_all2 token_matches ?rest (take (length ?rest) cs)" if "length cs < length ?rest"
    using that by (auto dest: list_all2_lengthD)
  ultimately show ?thesis
    by (cases "length ?rest \<le> length cs") (auto simp: matches_prefix_def applies_def Let_def Cons)
qed

lemma rule_matches_iff:
  "rule_matches r cmd = (if applies r cmd then Some (PrefixRuleMatch (take (length (pattern_rest (rule_pattern r)) + 1) cmd)
     (rule_decision r) None (rule_justification r)) else None)"
  by (simp add: rule_matches_def matches_prefix_iff)

lemma map_filter_decisions:
  "match_decision ` set (List.map_filter (\<lambda>r. rule_matches r cmd) rs) = rule_decision ` {r \<in> set rs. applies r cmd}"
  by (auto simp: List.map_filter_def rule_matches_iff image_iff)

lemma map_filter_empty: "List.map_filter (\<lambda>r. rule_matches r cmd) rs = [] \<longleftrightarrow> {r \<in> set rs. applies r cmd} = {}"
  by (auto simp: List.map_filter_def rule_matches_iff filter_empty_conv)

lemma get_vec_rules:
  assumes "policy_ok p" and "cmd \<noteq> []"
  shows "applying p cmd = (case get_vec (rules_by_program p) (hd cmd) of
    Some rs \<Rightarrow> {r \<in> set rs. applies r cmd} | None \<Rightarrow> {})"
proof -
  have ok: "distinct (map fst (rules_by_program p))" "\<And>k rs r. (k, rs) \<in> set (rules_by_program p) \<Longrightarrow> r \<in> set rs \<Longrightarrow> rule_program r = k"
    using assms(1) by (auto simp: policy_ok_def rule_map_ok_def)
  have hd: "applies r cmd \<Longrightarrow> rule_program r = hd cmd" for r
    by (simp add: applies_def rule_program_def Let_def)
  have *: "applying p cmd = {r. applies r cmd \<and> (\<exists>rs. (hd cmd, rs) \<in> set (rules_by_program p) \<and> r \<in> set rs)}" (is "_ = ?R")
  proof
    show "applying p cmd \<subseteq> ?R"
    proof
      fix r assume "r \<in> applying p cmd"
      then obtain k rs where r: "(k, rs) \<in> set (rules_by_program p)" "r \<in> set rs" "applies r cmd"
        by (auto simp: applying_def all_rules_def)
      then have "k = hd cmd" using ok(2) [OF r(1,2)] hd [OF r(3)] by simp
      then show "r \<in> ?R" using r by auto
    qed
    show "?R \<subseteq> applying p cmd" by (force simp: applying_def all_rules_def)
  qed
  have "(hd cmd, rs) \<in> set (rules_by_program p) \<longleftrightarrow> get_vec (rules_by_program p) (hd cmd) = Some rs" for rs
    using ok(1) by (simp add: get_vec_def)
  then show ?thesis unfolding * by (cases "get_vec (rules_by_program p) (hd cmd)") auto
qed

lemma exact_matches:
  assumes "policy_ok p"
  shows "match_decision ` set (case match_exact_rules p cmd of Some ms \<Rightarrow> ms | None \<Rightarrow> []) = rule_decision ` applying p cmd"
proof (cases cmd)
  case Nil
  then show ?thesis by (simp add: match_exact_rules_def applying_def applies_def)
next
  case (Cons c cs)
  then show ?thesis using get_vec_rules [OF assms, of cmd]
    by (simp add: match_exact_rules_def map_filter_decisions del: in_map_filter split: option.splits)
qed

lemma resolved_decisions: "match_decision (with_resolved_program program m) = match_decision m"
  by (cases m) simp_all

lemma host_matches:
  assumes "policy_ok p"
  shows "match_decision ` set (match_host_executable_rules env p cmd) =
    rule_decision ` (case resolved_command env p cmd of Some cmd' \<Rightarrow> applying p cmd' | None \<Rightarrow> {})"
proof (cases cmd)
  case (Cons first rest)
  show ?thesis
  proof (cases "from_absolute_path env first")
    case (Inr program)
    show ?thesis
    proof (cases "file_name program")
      case (Some b)
      have "match_decision ` set (map (with_resolved_program program) ms) = match_decision ` set ms" for ms
        by (simp add: image_image resolved_decisions)
      then show ?thesis using Cons Inr Some get_vec_rules [OF assms, of "b # rest"]
        by (simp add: match_host_executable_rules_def resolved_command_def executable_path_lookup_key_def
            executable_lookup_key_def map_filter_decisions split: option.splits)
    qed (simp add: Cons Inr match_host_executable_rules_def resolved_command_def executable_path_lookup_key_def)
  qed (simp add: Cons match_host_executable_rules_def resolved_command_def)
qed (simp add: match_host_executable_rules_def resolved_command_def)

lemma matches_decisions:
  assumes "policy_ok p"
  shows "match_decision ` set (matches_for_command_with_options env p cmd None options) =
    rule_decision ` deciding env p options cmd"
proof -
  define ms where "ms = (case match_exact_rules p cmd of Some ms \<Rightarrow> ms | None \<Rightarrow> [])"
  have ms: "match_decision ` set ms = rule_decision ` applying p cmd"
    using exact_matches [OF assms] by (simp add: ms_def)
  then have "ms = [] \<longleftrightarrow> applying p cmd = {}" by (metis image_is_empty set_empty)
  moreover have "matches_for_command_with_options env p cmd None options =
      (if ms = [] then if resolve_host_executables options then match_host_executable_rules env p cmd else [] else ms)"
    by (auto simp: matches_for_command_with_options_def ms_def Let_def split: option.splits list.splits)
  ultimately show ?thesis using ms host_matches [OF assms, of env cmd] by (simp add: deciding_def)
qed

lemma matches_with_fallback:
  "matches_for_command_with_options env p cmd (Some f) options =
     (if matches_for_command_with_options env p cmd None options = [] then [HeuristicsRuleMatch cmd (f cmd)]
      else matches_for_command_with_options env p cmd None options)"
  by (simp add: matches_for_command_with_options_def Let_def)

lemma no_heuristics:
  assumes "m \<in> set (matches_for_command_with_options env p cmd None options)"
  shows "\<exists>pfx d rp j. m = PrefixRuleMatch pfx d rp j"
proof -
  have filtered: "\<exists>pfx d rp j. m = PrefixRuleMatch pfx d rp j" if "m \<in> set (List.map_filter (\<lambda>r. rule_matches r c) rs)" for m rs c
    using that by (auto simp: List.map_filter_def rule_matches_def)
  have "m \<in> set (case match_exact_rules p cmd of Some ms \<Rightarrow> ms | None \<Rightarrow> []) \<or> m \<in> set (match_host_executable_rules env p cmd)"
    using assms by (auto simp: matches_for_command_with_options_def Let_def split: option.splits list.splits if_splits)
  then consider rs where "m \<in> set (List.map_filter (\<lambda>r. rule_matches r cmd) rs)"
    | rs c program where "m \<in> set (map (with_resolved_program program) (List.map_filter (\<lambda>r. rule_matches r c) rs))"
  proof
    assume "m \<in> set (case match_exact_rules p cmd of Some ms \<Rightarrow> ms | None \<Rightarrow> [])"
    then show thesis using that(1)
      by (cases cmd; cases "get_vec (rules_by_program p) (hd cmd)") (auto simp: match_exact_rules_def)
  next
    assume "m \<in> set (match_host_executable_rules env p cmd)"
    then show thesis using that(2)
      unfolding match_host_executable_rules_def by (auto simp del: set_map split: option.splits list.splits sum.splits if_splits)
  qed
  then show ?thesis
  proof cases
    case (2 rs c program)
    then obtain m' where "m' \<in> set (List.map_filter (\<lambda>r. rule_matches r c) rs)" "m = with_resolved_program program m'" by auto
    then show ?thesis using filtered by fastforce
  qed (rule filtered)
qed

text \<open>What the approval of commands relies on: the matches of a command without a fallback come from the rules
  that decide on it, and a fallback speaks only for a command on which no rule decides.\<close>

locale rule_matcher =
  fixes ok :: "'p \<Rightarrow> bool"
    and found :: "'p \<Rightarrow> rstring list \<Rightarrow> (rstring list \<Rightarrow> decision) option \<Rightarrow> rule_match list"
    and rules :: "'p \<Rightarrow> rstring list \<Rightarrow> prefix_rule set"
  assumes found_by_rule: "m \<in> set (found p c None) \<Longrightarrow> \<exists>pfx d rp j. m = PrefixRuleMatch pfx d rp j"
    and found_decisions: "ok p \<Longrightarrow> match_decision ` set (found p c None) = rule_decision ` rules p c"
    and found_fallback: "found p c (Some f) =
      (if found p c None = [] then [HeuristicsRuleMatch c (f c)] else found p c None)"
begin

lemma none_found: "ok p \<Longrightarrow> found p c None = [] \<longleftrightarrow> rules p c = {}"
  using found_decisions [of p c] by (metis image_is_empty set_empty)

lemma never_empty: "found p c (Some f) \<noteq> []"
  by (simp add: found_fallback)

lemma all_decisions:
  assumes "ok p"
  shows "match_decision ` set (found p c (Some f)) = (if rules p c = {} then {f c} else rule_decision ` rules p c)"
  using none_found [OF assms] found_decisions [OF assms] by (simp add: found_fallback)

end

interpretation matcher: rule_matcher policy_ok "\<lambda>p c f. matches_for_command_with_options env p c f options"
    "\<lambda>p. deciding env p options" for env options
  by unfold_locales (auto simp: matches_decisions matches_with_fallback dest: no_heuristics)

lemma from_matches_Max:
  "from_matches ms = (if ms = [] then None else Some \<lparr>eval_decision = Max (match_decision ` set ms), matched_rules = ms\<rparr>)"
proof (cases ms)
  case (Cons m ms')
  have "fold max (map match_decision ms') (match_decision m) = Max (set (map match_decision (m # ms')))"
    by (metis Max.set_eq_fold list.simps(9))
  then show ?thesis using Cons by (simp add: from_matches_def)
qed (simp add: from_matches_def)

lemma finite_deciding [simp]: "finite (deciding env p options cmd)"
  by (auto simp: deciding_def applying_def split: option.splits)

lemma command_decision_Max:
  assumes "policy_ok p"
  shows "Max (match_decision ` set (matches_for_command_with_options env p cmd (Some f) options)) =
    command_decision env p options f cmd"
  by (simp add: matcher.all_decisions [OF assms] command_decision_def)

lemma Max_Union_list:
  "xs \<noteq> [] \<Longrightarrow> (\<And>x. finite (g x) \<and> g x \<noteq> {}) \<Longrightarrow> Max (\<Union>x \<in> set xs. g x) = Max ((\<lambda>x. Max (g x)) ` set xs)"
proof (induction xs rule: list_nonempty_induct)
  case (cons x xs)
  then have "Max (g x \<union> (\<Union>x \<in> set xs. g x)) = max (Max (g x)) (Max (\<Union>x \<in> set xs. g x))"
    by (intro Max_Un) (auto simp: ex_in_conv neq_Nil_conv)
  with cons show ?case by simp
qed simp

lemma check_multiple_decides:
  assumes "policy_ok p"
  shows "check_multiple_with_options env p cmds f options =
    (if cmds = [] then None
     else Some \<lparr>eval_decision = Max (command_decision env p options f ` set cmds),
       matched_rules = concat (map (\<lambda>cmd. matches_for_command_with_options env p cmd (Some f) options) cmds)\<rparr>)"
proof -
  let ?ms = "\<lambda>cmd. matches_for_command_with_options env p cmd (Some f) options"
  have ne: "?ms cmd \<noteq> []" for cmd by (rule matcher.never_empty)
  show ?thesis
  proof (cases "cmds = []")
    case False
    then have "concat (map ?ms cmds) \<noteq> []" using ne by (cases cmds) auto
    moreover have "Max (match_decision ` set (concat (map ?ms cmds))) = Max (command_decision env p options f ` set cmds)"
    proof -
      have "match_decision ` set (concat (map ?ms cmds)) = (\<Union>cmd \<in> set cmds. match_decision ` set (?ms cmd))" by auto
      also have "Max \<dots> = Max ((\<lambda>cmd. Max (match_decision ` set (?ms cmd))) ` set cmds)"
        using False ne by (intro Max_Union_list) auto
      finally show ?thesis using command_decision_Max [OF assms] by simp
    qed
    ultimately show ?thesis using False by (simp add: check_multiple_with_options_def from_matches_Max)
  qed (simp add: check_multiple_with_options_def from_matches_def)
qed


section \<open>Filing rules\<close>

lemma multi_insert_keys: "set (map fst (multi_insert m k r)) = insert k (set (map fst m))"
  by (induction m k r rule: multi_insert.induct) auto

lemma multi_insert_rules: "set (concat (map snd (multi_insert m k r))) = insert r (set (concat (map snd m)))"
  by (induction m k r rule: multi_insert.induct) auto

lemma multi_insert_ok: "rule_map_ok m \<Longrightarrow> rule_program r = k \<Longrightarrow> rule_map_ok (multi_insert m k r)"
proof (induction m k r rule: multi_insert.induct)
  case (2 k' rs m k r)
  then have ok: "k' \<notin> set (map fst m)" "\<forall>r \<in> set rs. rule_program r = k'" "rule_map_ok m"
    by (auto simp: rule_map_ok_def)
  show ?case
  proof (cases "k' = k")
    case True
    then show ?thesis using ok "2.prems"(2) by (simp add: rule_map_ok_def)
  next
    case False
    then have "rule_map_ok (multi_insert m k r)" using "2.IH" ok(3) "2.prems"(2) by simp
    moreover have "k' \<notin> set (map fst (multi_insert m k r))" using False ok(1) by (simp only: multi_insert_keys) simp
    ultimately show ?thesis using False ok(2) by (simp add: rule_map_ok_def)
  qed
qed (simp add: rule_map_ok_def)

lemma insert_rules:
  assumes "\<forall>r \<in> set rs. rule_program r = f r"
  shows "rule_map_ok m \<Longrightarrow> rule_map_ok (fold (\<lambda>r m. multi_insert m (f r) r) rs m)"
    and "set (concat (map snd (fold (\<lambda>r m. multi_insert m (f r) r) rs m))) = set rs \<union> set (concat (map snd m))"
proof -
  show "rule_map_ok m \<Longrightarrow> rule_map_ok (fold (\<lambda>r m. multi_insert m (f r) r) rs m)"
    using assms by (induction rs arbitrary: m) (simp_all add: multi_insert_ok)
  show "set (concat (map snd (fold (\<lambda>r m. multi_insert m (f r) r) rs m))) = set rs \<union> set (concat (map snd m))"
  proof (induction rs arbitrary: m)
    case (Cons r rs)
    have "set (concat (map snd (fold (\<lambda>r m. multi_insert m (f r) r) (r # rs) m))) =
        set rs \<union> set (concat (map snd (multi_insert m (f r) r)))" using Cons by simp
    then show ?case unfolding multi_insert_rules by auto
  qed simp
qed

lemma merge_rules:
  assumes "rule_map_ok o'" and "rule_map_ok m"
  shows "rule_map_ok (fold (\<lambda>(k, rs) m. fold (\<lambda>r m. multi_insert m k r) rs m) o' m) \<and>
    set (concat (map snd (fold (\<lambda>(k, rs) m. fold (\<lambda>r m. multi_insert m k r) rs m) o' m))) =
      set (concat (map snd m)) \<union> set (concat (map snd o'))"
  using assms
proof (induction o' arbitrary: m)
  case (Cons x o')
  obtain k rs where x: "x = (k, rs)" by fastforce
  have rs: "\<forall>r \<in> set rs. rule_program r = k" "rule_map_ok o'" using Cons.prems(1) x by (auto simp: rule_map_ok_def)
  let ?m = "fold (\<lambda>r m. multi_insert m k r) rs m"
  have "rule_map_ok ?m" "set (concat (map snd ?m)) = set rs \<union> set (concat (map snd m))"
    using insert_rules [of rs "\<lambda>_. k" m] rs(1) Cons.prems(2) by simp_all
  then show ?case using Cons.IH [OF rs(2), of ?m] x by auto
qed simp

lemma merge_overlay_rules:
  assumes "policy_ok p" and "policy_ok q"
  shows "policy_ok (merge_overlay p q)" and "applying (merge_overlay p q) cmd = applying p cmd \<union> applying q cmd"
  using merge_rules [of "rules_by_program q" "rules_by_program p"] assms
  by (auto simp: policy_ok_def merge_overlay_def applying_def all_rules_def)

definition builder_ok :: "policy_builder \<Rightarrow> bool" where
  "builder_ok b \<longleftrightarrow> rule_map_ok (builder_rules b) \<and>
     (\<forall>v \<in> set (pending_example_validations b). set (pending_rules v) \<subseteq> set (concat (map snd (builder_rules b))))"

lemma fold_add_rule:
  "fold (\<lambda>r b. builder_add_rule b r) rs b =
     b\<lparr>builder_rules := fold (\<lambda>r m. multi_insert m (rule_program r) r) rs (builder_rules b)\<rparr>"
  by (induction rs arbitrary: b) (simp_all add: builder_add_rule_def)

lemma run_call_ok:
  assumes "builder_ok b" and "run_call libs env b c = Inr b'"
  shows "builder_ok b' \<and> prefix (pending_example_validations b) (pending_example_validations b')"
proof (cases c)
  case (PrefixRuleCall pat d m nm j loc)
  then obtain d' j' tokens m' nm' where t: "(case tokens of
       [] \<Rightarrow> Inl pattern_empty
     | first_token # rest \<Rightarrow>
         let rules = map (\<lambda>head. \<lparr>rule_pattern = \<lparr>pattern_first = head, pattern_rest = rest\<rparr>, rule_decision = d',
               rule_justification = j'\<rparr>) (token_alternatives first_token);
             b = b\<lparr>pending_example_validations := pending_example_validations b @
               [\<lparr>pending_rules = rules, pending_matches = m', pending_not_matches = nm', pending_location = loc\<rparr>]\<rparr>
         in Inr (fold (\<lambda>r b. builder_add_rule b r) rules b)) = Inr b'"
    using assms(2) unfolding PrefixRuleCall run_call.simps prefix_rule_call_def result_iff by blast
  then obtain rules where b': "b' = fold (\<lambda>r b. builder_add_rule b r) rules
      (b\<lparr>pending_example_validations := pending_example_validations b @
        [\<lparr>pending_rules = rules, pending_matches = m', pending_not_matches = nm', pending_location = loc\<rparr>]\<rparr>)"
    by (cases tokens) (auto simp: Let_def)
  show ?thesis using assms(1) insert_rules [of rules rule_program "builder_rules b"]
    unfolding b' fold_add_rule by (auto simp: builder_ok_def)
next
  case (NetworkRuleCall host protocol d j)
  then have "builder_rules b' = builder_rules b" "pending_example_validations b' = pending_example_validations b"
    using assms(2) by (auto simp: network_rule_call_def result_iff)
  then show ?thesis using assms(1) by (simp add: builder_ok_def)
next
  case (HostExecutableCall name paths)
  then have "builder_rules b' = builder_rules b" "pending_example_validations b' = pending_example_validations b"
    using assms(2) by (auto simp: host_executable_call_def result_iff)
  then show ?thesis using assms(1) by (simp add: builder_ok_def)
qed

lemma run_calls_ok:
  "builder_ok b \<Longrightarrow> run_calls libs env b cs = (b', r) \<Longrightarrow>
     builder_ok b' \<and> prefix (pending_example_validations b) (pending_example_validations b')"
proof (induction cs arbitrary: b)
  case (Cons c cs)
  show ?case
  proof (cases "run_call libs env b c")
    case (Inl e)
    then show ?thesis using Cons.prems by auto
  next
    case (Inr b1)
    then show ?thesis using Cons.IH [of b1] Cons.prems run_call_ok [OF Cons.prems(1) Inr]
      by (auto intro: prefix_order.trans)
  qed
qed auto

lemma not_match_examples_ok:
  "validate_not_match_examples libs env p rules examples = Inr () \<longleftrightarrow>
     (\<forall>e \<in> set examples. matches_for_command_with_options env p e None example_options = [])"
  by (induction examples) (auto split: list.splits)

lemma match_examples_ok:
  "validate_match_examples libs env p rules examples = Inr () \<longleftrightarrow>
     (\<forall>e \<in> set examples. matches_for_command_with_options env p e None example_options \<noteq> [])"
  by (auto simp: validate_match_examples_def Let_def filter_empty_conv)

lemma validate_examples_ok:
  assumes "validate_examples libs env b vs = Inr ()" and "v \<in> set vs"
  shows "\<forall>e \<in> set (pending_matches v). matches_for_command_with_options env (validation_policy b v) e None example_options \<noteq> []"
    and "\<forall>e \<in> set (pending_not_matches v). matches_for_command_with_options env (validation_policy b v) e None example_options = []"
  using assms
proof (induction vs)
  case (Cons w vs)
  { case 1
    then show ?case using Cons.IH(1)
      by (auto simp: result_iff Let_def match_examples_ok split: sum.splits) }
  { case 2
    then show ?case using Cons.IH(2)
      by (auto simp: result_iff Let_def not_match_examples_ok split: sum.splits) }
qed simp_all

lemma validation_policy_rules:
  assumes "builder_ok b" and "v \<in> set (pending_example_validations b)"
  shows "policy_ok (validation_policy b v)" and "policy_ok (build_policy b)"
    and "applying (validation_policy b v) cmd \<subseteq> applying (build_policy b) cmd"
proof -
  have "rule_map_ok []" by (simp add: rule_map_ok_def)
  then show "policy_ok (validation_policy b v)"
    using insert_rules(1) [of "pending_rules v" rule_program "[]"] by (simp add: policy_ok_def validation_policy_def)
  show "policy_ok (build_policy b)" using assms(1) by (simp add: policy_ok_def build_policy_def builder_ok_def)
  show "applying (validation_policy b v) cmd \<subseteq> applying (build_policy b) cmd"
  proof -
    have "set (all_rules (validation_policy b v)) = set (pending_rules v)"
      using insert_rules(2) [of "pending_rules v" rule_program "[]"] by (simp add: all_rules_def validation_policy_def)
    moreover have "set (pending_rules v) \<subseteq> set (all_rules (build_policy b))"
      using assms unfolding builder_ok_def all_rules_def build_policy_def policy.simps by blast
    ultimately show ?thesis by (auto simp: applying_def)
  qed
qed

lemma deciding_mono:
  assumes "\<And>cmd. applying p cmd \<subseteq> applying q cmd" and "host_executables_by_name p = host_executables_by_name q"
    and "deciding env p options cmd \<noteq> {}"
  shows "deciding env q options cmd \<noteq> {}"
proof -
  have "resolved_command env p cmd = resolved_command env q cmd"
    by (simp only: resolved_command_def assms(2))
  then show ?thesis using assms(1,3) by (fastforce simp: deciding_def split: if_splits option.splits)
qed


lemma validation_rules: "set (all_rules (validation_policy b v)) = set (pending_rules v)"
  using insert_rules(2) [of "pending_rules v" rule_program "[]"] by (simp add: all_rules_def validation_policy_def)

text \<open>The decision of the last network rule for a host that is not a prompt.\<close>

definition last_decision :: "rstring \<Rightarrow> network_rule list \<Rightarrow> decision option" where
  "last_decision h rs = last_opt (map network_decision (filter (\<lambda>r. rule_host r = h \<and> network_decision r \<noteq> Prompt) rs))"

lemma compile_domains:
  "case fold compile_domain rs ([], []) of (allowed, denied) \<Rightarrow>
     (h \<in> set allowed \<longleftrightarrow> last_decision h rs = Some Allow) \<and>
     (h \<in> set denied \<longleftrightarrow> last_decision h rs = Some Forbidden) \<and> distinct allowed \<and> distinct denied"
proof (induction rs rule: rev_induct)
  case (snoc r rs)
  obtain a d where ad: "fold compile_domain rs ([], []) = (a, d)" by fastforce
  show ?case using snoc ad
    by (cases "network_decision r") (auto simp: compile_domain_def upsert_domain_def last_decision_def)
qed (simp add: last_decision_def)

section \<open>Surprises\<close>

text \<open>The program of a command is looked up by its base name also when it is a relative path: it is
  resolved against the current directory first.\<close>

definition git_policy :: policy where
  "git_policy =
     \<lparr>rules_by_program = [(lit ''git'', [\<lparr>rule_pattern = \<lparr>pattern_first = lit ''git'', pattern_rest = []\<rparr>,
        rule_decision = Allow, rule_justification = None\<rparr>])],
      network_rules = [], host_executables_by_name = Map.empty\<rparr>"

lemma relative_program_matches:
  "map_option eval_decision (check_with_options \<lparr>home_dir = None, current_dir = Inr (lit ''/w'')\<rparr> git_policy
     [lit ''./git'', lit ''status''] (\<lambda>_. Forbidden) example_options) = Some Allow"
  by code_simp

section \<open>Properties\<close>

text \<open>C11: evaluating commands decides, for at least one command without a panic, with the strictest decision over
  all commands; the decision on a command is the strictest of all rules of the policy that apply to
  it, or else to the command under the name its program is looked up by, or else the heuristics'.\<close>

theorem check_strictest:
  assumes "policy_ok p" and "cmds \<noteq> []"
  shows "\<exists>e. check_multiple_with_options env p cmds f options = Some e \<and>
    eval_decision e = Max (command_decision env p options f ` set cmds)"
  using check_multiple_decides [OF assms(1)] assms(2) by simp

definition example_policy :: policy where
  "example_policy =
     \<lparr>rules_by_program =
        [(lit ''git'', [\<lparr>rule_pattern = \<lparr>pattern_first = lit ''git'', pattern_rest = []\<rparr>, rule_decision = Allow,
            rule_justification = None\<rparr>,
           \<lparr>rule_pattern = \<lparr>pattern_first = lit ''git'', pattern_rest = [Alts [lit ''push'', lit ''reset'']]\<rparr>,
            rule_decision = Prompt, rule_justification = None\<rparr>])],
      network_rules = [], host_executables_by_name = Map.empty\<rparr>"

definition example_env :: path_env where
  "example_env = \<lparr>home_dir = None, current_dir = Inr (lit ''/w'')\<rparr>"

lemma example_policy_ok: "policy_ok example_policy"
  by (simp add: policy_ok_def rule_map_ok_def example_policy_def rule_program_def)

theorem check_strictest_witness:
  "(\<exists>e. check_multiple_with_options example_env example_policy [[lit ''git'', lit ''push''], [lit ''/bin/git'']]
      (\<lambda>_. Forbidden) example_options = Some e \<and>
    eval_decision e = Max (command_decision example_env example_policy example_options (\<lambda>_. Forbidden) `
      {[lit ''git'', lit ''push''], [lit ''/bin/git'']})) \<and>
   map_option eval_decision (check_multiple_with_options example_env example_policy
     [[lit ''git'', lit ''push''], [lit ''/bin/git'']] (\<lambda>_. Forbidden) example_options) = Some Prompt"
  (is "?a \<and> ?b")
proof
  show ?a using check_strictest [OF example_policy_ok, of "[[lit ''git'', lit ''push''], [lit ''/bin/git'']]"]
    by (simp del: lit_simps)
  show ?b by code_simp
qed

text \<open>C16: in a merged policy the rules of both policies apply: a command to which a rule of one of them
  applies is decided by the strictest of the applying rules of both.\<close>

theorem merge_overlay_strictest:
  assumes "policy_ok p" and "policy_ok q" and "applying p cmd \<union> applying q cmd \<noteq> {}"
  shows "\<exists>e. check_with_options env (merge_overlay p q) cmd f options = Some e \<and> is_match e \<and>
    eval_decision e = Max (rule_decision ` (applying p cmd \<union> applying q cmd))"
proof -
  let ?m = "merge_overlay p q"
  let ?ms = "matches_for_command_with_options env ?m cmd None options"
  note ok = merge_overlay_rules(1) [OF assms(1,2)]
  have d: "deciding env ?m options cmd = applying p cmd \<union> applying q cmd"
    using assms(3) merge_overlay_rules(2) [OF assms(1,2)] by (simp add: deciding_def)
  then have ms: "match_decision ` set ?ms = rule_decision ` (applying p cmd \<union> applying q cmd)"
    using matches_decisions [OF ok] by simp
  then have ne: "?ms \<noteq> []" using assms(3) by auto
  then have e: "check_with_options env ?m cmd f options = Some \<lparr>eval_decision = Max (match_decision ` set ?ms), matched_rules = ?ms\<rparr>"
    by (simp add: check_with_options_def from_matches_Max matches_with_fallback)
  moreover have "is_match \<lparr>eval_decision = Max (match_decision ` set ?ms), matched_rules = ?ms\<rparr>"
  proof -
    have "hd ?ms \<in> set ?ms" using ne by simp
    moreover obtain pfx d rp j where "hd ?ms = PrefixRuleMatch pfx d rp j" using no_heuristics [OF calculation] by blast
    ultimately show ?thesis by (auto simp: is_match_def intro: bexI [of _ "PrefixRuleMatch pfx d rp j"])
  qed
  ultimately show ?thesis using ms by simp
qed

definition overlay_policy :: policy where
  "overlay_policy =
     \<lparr>rules_by_program =
        [(lit ''git'', [\<lparr>rule_pattern = \<lparr>pattern_first = lit ''git'', pattern_rest = [Single (lit ''push'')]\<rparr>,
            rule_decision = Forbidden, rule_justification = None\<rparr>])],
      network_rules = [\<lparr>rule_host = lit ''a.b'', rule_protocol = Https, network_decision = Allow, network_justification = None\<rparr>,
        \<lparr>rule_host = lit ''a.b'', rule_protocol = Http, network_decision = Forbidden, network_justification = None\<rparr>,
        \<lparr>rule_host = lit ''a.b'', rule_protocol = Http, network_decision = Prompt, network_justification = None\<rparr>],
      host_executables_by_name = Map.empty\<rparr>"

theorem merge_overlay_strictest_witness:
  "\<exists>e. check_with_options example_env (merge_overlay example_policy overlay_policy) [lit ''git'', lit ''push'', lit ''-f'']
      (\<lambda>_. Allow) default_match_options = Some e \<and> is_match e \<and> eval_decision e = Forbidden"
proof -
  let ?cmd = "[lit ''git'', lit ''push'', lit ''-f'']"
  have ok: "policy_ok overlay_policy" by (simp add: policy_ok_def rule_map_ok_def overlay_policy_def rule_program_def)
  have "applying example_policy ?cmd \<union> applying overlay_policy ?cmd \<noteq> {}" by code_simp
  moreover have "Max (rule_decision ` (applying example_policy ?cmd \<union> applying overlay_policy ?cmd)) = Forbidden" by code_simp
  ultimately show ?thesis
    using merge_overlay_strictest [OF example_policy_ok ok, of ?cmd example_env "\<lambda>_. Allow" default_match_options] by metis
qed

text \<open>C34: a host is in the compiled list of allowed domains exactly when the last network rule for it that
  is not a prompt allows it, and in the denied list exactly when that rule forbids it; no list has a
  host twice.\<close>

theorem network_domains_last_rule:
  assumes "compiled_network_domains p = (allowed, denied)"
  shows "(h \<in> set allowed \<longleftrightarrow> last_decision h (network_rules p) = Some Allow) \<and>
    (h \<in> set denied \<longleftrightarrow> last_decision h (network_rules p) = Some Forbidden) \<and> distinct allowed \<and> distinct denied"
  using compile_domains [of h "network_rules p"] assms by (simp add: compiled_network_domains_def)

theorem network_domains_last_rule_witness:
  "compiled_network_domains overlay_policy = ([], [lit ''a.b'']) \<and>
   (lit ''a.b'' \<in> set [lit ''a.b''] \<longleftrightarrow> last_decision (lit ''a.b'') (network_rules overlay_policy) = Some Forbidden)"
proof -
  have c: "compiled_network_domains overlay_policy = ([], [lit ''a.b''])" by code_simp
  then show ?thesis using network_domains_last_rule [OF c, of "lit ''a.b''"] by blast
qed


definition example_libs :: policy_libs where
  "example_libs = \<lparr>shlex_split = (\<lambda>s. Some (split_char 32 s)), shlex_join = (\<lambda>ws. Some (join (lit '' '') ws)),
     debug_rule = (\<lambda>_. []), debug_match = (\<lambda>_. [])\<rparr>"

definition example_calls :: "builtin_call list" where
  "example_calls =
     [PrefixRuleCall [StrValue (lit ''git''), ListValue [StrValue (lit ''push''), StrValue (lit ''reset'')]]
        (Some (lit ''prompt'')) (Some [StrValue (lit ''git push''), ListValue [StrValue (lit ''/bin/git''), StrValue (lit ''reset'')]])
        (Some [StrValue (lit ''git status'')]) None None,
      HostExecutableCall (lit ''git'') [StrValue (lit ''/bin/git'')]]"


end
