(* ===== verification/Policy_Amend.thy ===== *)
theory Policy_Amend
  imports Exec_Policy
begin

text \<open>
  Appending rules to a policy file (\<^verbatim>\<open>execpolicy/src/amend.rs\<close>).  The operations on the file, the JSON
  rendering of a string by serde and the debug rendering of strings are parameters; the directory of a path is the
  list of its components, by which paths are compared.

  The lemmas show what a successful append leaves in the file: the lines that were there, and the rule as the
  last line unless it was a line already.
\<close>

section \<open>The file operations\<close>

record 's policy_file_io =
  pf_create_dir :: "'s \<Rightarrow> component list \<Rightarrow> 's \<times> (io_error + unit)"
  pf_open :: "'s \<Rightarrow> rstring \<Rightarrow> 's \<times> (io_error + unit)"
  pf_lock :: "'s \<Rightarrow> rstring \<Rightarrow> 's \<times> (io_error + unit)"
  pf_seek_start :: "'s \<Rightarrow> rstring \<Rightarrow> 's \<times> (io_error + unit)"
  pf_read_to_string :: "'s \<Rightarrow> rstring \<Rightarrow> 's \<times> (io_error + rstring)"
  pf_write_all :: "'s \<Rightarrow> rstring \<Rightarrow> rstring \<Rightarrow> 's \<times> (io_error + unit)"
  json_string :: "rstring \<Rightarrow> rstring + rstring"
  debug_strings :: "rstring list \<Rightarrow> rstring"

datatype amend_error =
    EmptyPrefix
  | InvalidNetworkRule rstring
  | MissingParent rstring
  | CreatePolicyDir "component list" io_error
  | SerializePrefix rstring
  | SerializeNetworkRule rstring
  | OpenPolicyFile rstring io_error
  | WritePolicyFile rstring io_error
  | LockPolicyFile rstring io_error
  | SeekPolicyFile rstring io_error
  | ReadPolicyFile rstring io_error
  | PolicyMetadata rstring io_error

fun policy_error_text :: "(rstring list \<Rightarrow> rstring) \<Rightarrow> policy_error \<Rightarrow> rstring" where
  "policy_error_text dbg (InvalidDecision m) = lit ''invalid decision: '' @ m"
| "policy_error_text dbg (InvalidPattern m) = lit ''invalid pattern element: '' @ m"
| "policy_error_text dbg (InvalidExample m) = lit ''invalid example: '' @ m"
| "policy_error_text dbg (InvalidRule m) = lit ''invalid rule: '' @ m"
| "policy_error_text dbg (ExampleDidNotMatch rules examples _) =
     lit ''expected every example to match at least one rule. rules: '' @ dbg rules @ lit ''; unmatched examples: '' @ dbg examples"
| "policy_error_text dbg (ExampleDidMatch rule example _) =
     lit ''expected example to not match rule `'' @ rule @ lit ''`: '' @ example"

text \<open>\<open>Path::parent\<close>, as components.\<close>

definition path_parent :: "rstring \<Rightarrow> component list option" where
  "path_parent p =
     (case last_opt (components p) of
        None \<Rightarrow> None
      | Some RootDir \<Rightarrow> None
      | Some _ \<Rightarrow> Some (butlast (components p)))"

section \<open>Appending\<close>

definition append_locked_line :: "'s policy_file_io \<Rightarrow> 's \<Rightarrow> rstring \<Rightarrow> rstring \<Rightarrow> 's \<times> (amend_error + unit)" where
  "append_locked_line io s path line =
     (case pf_open io s path of
        (s, Inl e) \<Rightarrow> (s, Inl (OpenPolicyFile path e))
      | (s, Inr _) \<Rightarrow>
     (case pf_lock io s path of
        (s, Inl e) \<Rightarrow> (s, Inl (LockPolicyFile path e))
      | (s, Inr _) \<Rightarrow>
     (case pf_seek_start io s path of
        (s, Inl e) \<Rightarrow> (s, Inl (SeekPolicyFile path e))
      | (s, Inr _) \<Rightarrow>
     (case pf_read_to_string io s path of
        (s, Inl e) \<Rightarrow> (s, Inl (ReadPolicyFile path e))
      | (s, Inr contents) \<Rightarrow>
          if line \<in> set (lines contents) then (s, Inr ())
          else
            (case (if contents \<noteq> [] \<and> \<not> suffix [newline] contents then pf_write_all io s path [newline] else (s, Inr ())) of
               (s, Inl e) \<Rightarrow> (s, Inl (WritePolicyFile path e))
             | (s, Inr _) \<Rightarrow>
                 (case pf_write_all io s path (line @ [newline]) of
                    (s, Inl e) \<Rightarrow> (s, Inl (WritePolicyFile path e))
                  | (s, Inr _) \<Rightarrow> (s, Inr ())))))))"

definition append_rule_line :: "'s policy_file_io \<Rightarrow> 's \<Rightarrow> rstring \<Rightarrow> rstring \<Rightarrow> 's \<times> (amend_error + unit)" where
  "append_rule_line io s path rule =
     (case path_parent path of
        None \<Rightarrow> (s, Inl (MissingParent path))
      | Some dir \<Rightarrow>
          (case pf_create_dir io s dir of
             (s, Inr _) \<Rightarrow> append_locked_line io s path rule
           | (s, Inl e) \<Rightarrow>
               if io_kind e = AlreadyExists then append_locked_line io s path rule
               else (s, Inl (CreatePolicyDir dir e))))"

definition allow_rule_line :: "rstring list \<Rightarrow> rstring" where
  "allow_rule_line tokens =
     lit ''prefix_rule(pattern='' @ (lit ''['' @ join (lit '', '') tokens @ lit '']'') @ lit '', decision=\"allow\")''"

definition blocking_append_allow_prefix_rule ::
    "'s policy_file_io \<Rightarrow> 's \<Rightarrow> rstring \<Rightarrow> rstring list \<Rightarrow> 's \<times> (amend_error + unit)" where
  "blocking_append_allow_prefix_rule io s path pfx =
     (if pfx = [] then (s, Inl EmptyPrefix)
      else (case collect_results (json_string io) pfx of
              Inl e \<Rightarrow> (s, Inl (SerializePrefix e))
            | Inr tokens \<Rightarrow> append_rule_line io s path (allow_rule_line tokens)))"

fun network_decision_text :: "decision \<Rightarrow> rstring" where
  "network_decision_text Allow = lit ''allow''"
| "network_decision_text Prompt = lit ''prompt''"
| "network_decision_text Forbidden = lit ''deny''"

definition network_rule_args ::
    "'s policy_file_io \<Rightarrow> rstring \<Rightarrow> network_rule_protocol \<Rightarrow> decision \<Rightarrow> rstring option \<Rightarrow> rstring + rstring list" where
  "network_rule_args io host protocol d justification =
     bind_res (json_string io host) (\<lambda>host.
     bind_res (json_string io (as_policy_string protocol)) (\<lambda>protocol.
     bind_res (json_string io (network_decision_text d)) (\<lambda>d.
       let args = [lit ''host='' @ host, lit ''protocol='' @ protocol, lit ''decision='' @ d]
       in case justification of
            None \<Rightarrow> Inr args
          | Some j \<Rightarrow> bind_res (json_string io j) (\<lambda>j. Inr (args @ [lit ''justification='' @ j])))))"

definition blocking_append_network_rule ::
    "'s policy_file_io \<Rightarrow> 's \<Rightarrow> rstring \<Rightarrow> rstring \<Rightarrow> network_rule_protocol \<Rightarrow> decision \<Rightarrow> rstring option \<Rightarrow>
     's \<times> (amend_error + unit)" where
  "blocking_append_network_rule io s path host protocol d justification =
     (case normalize_network_rule_host host of
        Inl e \<Rightarrow> (s, Inl (InvalidNetworkRule (policy_error_text (debug_strings io) e)))
      | Inr host \<Rightarrow>
          if (case justification of Some raw \<Rightarrow> trim raw = [] | None \<Rightarrow> False)
          then (s, Inl (InvalidNetworkRule (lit ''justification cannot be empty'')))
          else (case network_rule_args io host protocol d justification of
                  Inl e \<Rightarrow> (s, Inl (SerializeNetworkRule e))
                | Inr args \<Rightarrow> append_rule_line io s path (lit ''network_rule('' @ join (lit '', '') args @ lit '')'')))"

section \<open>Lines of the file\<close>

lemma split_inclusive_append:
  "xs = [] \<or> last xs = c \<Longrightarrow> split_inclusive c (xs @ ys) = split_inclusive c xs @ split_inclusive c ys"
proof (induction xs rule: lines_induct [where c = c])
  case (last_line t)
  then show ?case by (metis append_Nil last_in_set split_inclusive.simps(1))
next
  case (line u r)
  then have "split_inclusive c (r @ ys) = split_inclusive c r @ split_inclusive c ys" by (cases "r = []") auto
  then show ?case using line.hyps split_inclusive_line [of c u "r @ ys"] split_inclusive_line [of c u r] by simp
qed

lemma lines_append_line:
  assumes "xs = [] \<or> last xs = newline" and "newline \<notin> set l" and "carriage_return \<notin> set l"
  shows "lines (xs @ l @ [newline]) = lines xs @ [l]"
proof -
  have "\<not> suffix [carriage_return] l" using assms(3) by (auto simp: suffix_def)
  then have "strip_line_ending (l @ [newline]) = l" by (simp add: strip_line_ending_def strip_suffix_def)
  then show ?thesis using split_inclusive_append [OF assms(1), of "l @ [newline]"] split_inclusive_line [OF assms(2), of "[]"]
    by (simp add: lines_def)
qed

lemma lines_terminate:
  "last xs \<noteq> newline \<Longrightarrow> last xs \<noteq> carriage_return \<Longrightarrow> xs \<noteq> [] \<Longrightarrow> lines (xs @ [newline]) = lines xs"
proof (induction xs rule: lines_induct [where c = newline])
  case (last_line t)
  have "\<not> suffix [carriage_return] t" "\<not> suffix [newline] t" using last_line by (simp_all add: suffix_last)
  then show ?case using last_line split_inclusive_line [of newline t "[]"] split_inclusive_no_sep [of newline t]
    by (simp add: lines_def strip_line_ending_def strip_suffix_def)
next
  case (line u r)
  then have "r \<noteq> []" by auto
  then have "lines (r @ [newline]) = lines r" using line by simp
  then show ?case using line.hyps(1) split_inclusive_line [of newline u "r @ [newline]"] split_inclusive_line [of newline u r]
    by (simp add: lines_def)
qed

text \<open>What the file operations do to the text of the policy file; opening a missing file makes it empty.\<close>

definition append_laws :: "'s policy_file_io \<Rightarrow> ('s \<Rightarrow> rstring) \<Rightarrow> rstring \<Rightarrow> bool" where
  "append_laws io text_of path \<longleftrightarrow>
     (\<forall>s dir. text_of (fst (pf_create_dir io s dir)) = text_of s) \<and>
     (\<forall>s. text_of (fst (pf_open io s path)) = text_of s) \<and>
     (\<forall>s. text_of (fst (pf_lock io s path)) = text_of s) \<and>
     (\<forall>s. text_of (fst (pf_seek_start io s path)) = text_of s) \<and>
     (\<forall>s. text_of (fst (pf_read_to_string io s path)) = text_of s) \<and>
     (\<forall>s t. snd (pf_read_to_string io s path) = Inr t \<longrightarrow> t = text_of s) \<and>
     (\<forall>s t. snd (pf_write_all io s path t) = Inr () \<longrightarrow> text_of (fst (pf_write_all io s path t)) = text_of s @ t)"

text \<open>JSON escapes the control characters of a string.\<close>

definition json_laws :: "'s policy_file_io \<Rightarrow> bool" where
  "json_laws io \<longleftrightarrow> (\<forall>t j. json_string io t = Inr j \<longrightarrow> newline \<notin> set j \<and> carriage_return \<notin> set j)"

lemma append_locked_ok:
  assumes "append_laws io text_of path" and "append_locked_line io s path line = (s', Inr ())"
    and "newline \<notin> set line" and "carriage_return \<notin> set line" and "\<not> suffix [carriage_return] (text_of s)"
  shows "lines (text_of s') = (if line \<in> set (lines (text_of s)) then lines (text_of s) else lines (text_of s) @ [line])"
proof -
  obtain s1 s2 s3 s4 t where o: "pf_open io s path = (s1, Inr ())" "pf_lock io s1 path = (s2, Inr ())"
    "pf_seek_start io s2 path = (s3, Inr ())" and r: "pf_read_to_string io s3 path = (s4, Inr t)"
    using assms(2) by (auto simp: append_locked_line_def split: prod.splits sum.splits)
  have t: "text_of s4 = text_of s" "t = text_of s"
    using assms(1) o r unfolding append_laws_def by (metis fst_conv snd_conv)+
  have w: "pf_write_all io x path u = (y, Inr ()) \<Longrightarrow> text_of y = text_of x @ u" for x y u
    using assms(1) unfolding append_laws_def by (metis fst_conv snd_conv)
  show ?thesis
  proof (cases "line \<in> set (lines t)")
    case True
    then show ?thesis using assms(2) o r t by (simp add: append_locked_line_def)
  next
    case False
    define sep where "sep = (if t \<noteq> [] \<and> \<not> suffix [newline] t then [newline] else [])"
    obtain s5 where s5: "text_of s5 = t @ sep" and last: "pf_write_all io s5 path (line @ [newline]) = (s', Inr ())"
      using assms(2) o r False t w [of s4 "[newline]"]
      by (auto simp: append_locked_line_def sep_def split: prod.splits sum.splits if_splits)
    have "lines (t @ sep) = lines t"
      using lines_terminate [of t] assms(5) t(2) by (auto simp: sep_def suffix_last)
    moreover have "t @ sep = [] \<or> last (t @ sep) = newline" by (auto simp: sep_def suffix_last)
    ultimately show ?thesis using lines_append_line [of "t @ sep" line] assms(3,4) w [OF last] s5 False t(2) by simp
  qed
qed

lemma collect_results_set: "collect_results f xs = Inr ys \<Longrightarrow> y \<in> set ys \<Longrightarrow> \<exists>x \<in> set xs. f x = Inr y"
  by (induction f xs arbitrary: ys rule: collect_results.induct) (auto simp: bind_res_def split: sum.splits)

lemma join_set: "set (join sep xs) \<subseteq> set sep \<union> \<Union> (set ` set xs)"
  by (induction sep xs rule: join.induct) auto

lemma allow_rule_line_chars:
  assumes "json_laws io" and "collect_results (json_string io) pfx = Inr tokens"
  shows "newline \<notin> set (allow_rule_line tokens)" and "carriage_return \<notin> set (allow_rule_line tokens)"
proof -
  have "newline \<notin> set t \<and> carriage_return \<notin> set t" if "t \<in> set tokens" for t
    using collect_results_set [OF assms(2) that] assms(1) unfolding json_laws_def by blast
  then have "newline \<notin> set (join (lit '', '') tokens)" "carriage_return \<notin> set (join (lit '', '') tokens)"
    using join_set [of "lit '', ''" tokens] by (auto simp: newline_def carriage_return_def)
  then show "newline \<notin> set (allow_rule_line tokens)" "carriage_return \<notin> set (allow_rule_line tokens)"
    by (auto simp: allow_rule_line_def newline_def carriage_return_def)
qed

section \<open>Properties\<close>

text \<open>C31: a successful append of an allow rule keeps the lines of the policy file, in order, and the rule is
  a line of it: the last one when it was not there, and not a second time when it was.\<close>

theorem append_rule_lines:
  assumes "append_laws io text_of path" and "json_laws io" and "\<not> suffix [carriage_return] (text_of s)"
    and "blocking_append_allow_prefix_rule io s path pfx = (s', Inr ())"
  shows "\<exists>tokens. collect_results (json_string io) pfx = Inr tokens \<and>
    lines (text_of s') = (if allow_rule_line tokens \<in> set (lines (text_of s)) then lines (text_of s)
      else lines (text_of s) @ [allow_rule_line tokens])"
proof -
  obtain tokens where tokens: "collect_results (json_string io) pfx = Inr tokens"
    and app: "append_rule_line io s path (allow_rule_line tokens) = (s', Inr ())"
    using assms(4) by (auto simp: blocking_append_allow_prefix_rule_def split: if_splits sum.splits)
  obtain s1 dir res where "pf_create_dir io s dir = (s1, res)"
    and locked: "append_locked_line io s1 path (allow_rule_line tokens) = (s', Inr ())"
    using app by (auto simp: append_rule_line_def split: option.splits prod.splits sum.splits if_splits)
  then have "text_of s1 = text_of s" using assms(1) unfolding append_laws_def by (metis fst_conv)
  then show ?thesis
    using append_locked_ok [OF assms(1) locked] allow_rule_line_chars [OF assms(2) tokens] assms(3) tokens by simp
qed

definition mem_policy_io :: "rstring policy_file_io" where
  "mem_policy_io =
     \<lparr>pf_create_dir = (\<lambda>s _. (s, Inl \<lparr>io_kind = AlreadyExists, io_text = []\<rparr>)), pf_open = (\<lambda>s _. (s, Inr ())),
      pf_lock = (\<lambda>s _. (s, Inr ())), pf_seek_start = (\<lambda>s _. (s, Inr ())), pf_read_to_string = (\<lambda>s _. (s, Inr s)),
      pf_write_all = (\<lambda>s _ t. (s @ t, Inr ())),
      json_string = (\<lambda>t. if newline \<in> set t \<or> carriage_return \<in> set t then Inl [] else Inr (lit ''\"'' @ t @ lit ''\"'')),
      debug_strings = (\<lambda>_. [])\<rparr>"

lemma mem_policy_laws: "append_laws mem_policy_io (\<lambda>s. s) path" "json_laws mem_policy_io"
  by (auto simp: append_laws_def json_laws_def mem_policy_io_def newline_def carriage_return_def split: if_splits)

theorem append_rule_lines_witness:
  "let s = lit ''# rules''; p = lit ''/h/rules/default.rules''; pfx = [lit ''git'', lit ''push''] in
   blocking_append_allow_prefix_rule mem_policy_io s p pfx = (s @ [newline] @ lit ''prefix_rule(pattern=[\"git\", \"push\"], decision=\"allow\")'' @ [newline], Inr ()) \<and>
   (\<exists>tokens. lines (fst (blocking_append_allow_prefix_rule mem_policy_io s p pfx)) = lines s @ [allow_rule_line tokens])"
proof -
  let ?s = "lit ''# rules''" and ?p = "lit ''/h/rules/default.rules''" and ?pfx = "[lit ''git'', lit ''push'']"
  let ?r = "?s @ [newline] @ lit ''prefix_rule(pattern=[\"git\", \"push\"], decision=\"allow\")'' @ [newline]"
  have run: "blocking_append_allow_prefix_rule mem_policy_io ?s ?p ?pfx = (?r, Inr ())" by code_simp
  have cr: "\<not> suffix [carriage_return] ?s" by code_simp
  have new: "collect_results (json_string mem_policy_io) ?pfx = Inr tokens \<Longrightarrow> allow_rule_line tokens \<notin> set (lines ?s)" for tokens
  proof -
    have "lines ?s = [?s]" by code_simp
    then show "allow_rule_line tokens \<notin> set (lines ?s)" by (simp add: allow_rule_line_def)
  qed
  have "\<exists>tokens. lines ?r = lines ?s @ [allow_rule_line tokens]"
    using append_rule_lines [OF mem_policy_laws(1) mem_policy_laws(2) cr run] new by (metis (no_types, lifting))
  then show ?thesis unfolding Let_def run by simp
qed

end
