(* ===== verification/Command_Safety.thy ===== *)
theory Command_Safety
  imports Unix_Path
begin

text \<open>
  Classification of commands without a policy rule (\<^verbatim>\<open>shell-command/src/command_safety\<close>, outside Windows):
  which commands are dangerous, and which only read.  The commands of a shell script come from the
  tree-sitter parser of bash scripts, which is a parameter.

  The lemmas characterise both sides without the loops: the search finds exactly the forced removals
  reached through at most \<open>MAX_DANGEROUS_COMMAND_WRAPPER_DEPTH\<close> wrappers, and the safe git commands are
  exactly those of a form without an option that runs a program or writes a file.
\<close>

section \<open>Dangerous commands\<close>

datatype dangerous_command_match = ForcedRm | OtherDanger

definition MAX_DANGEROUS_COMMAND_WRAPPER_DEPTH :: nat where
  "MAX_DANGEROUS_COMMAND_WRAPPER_DEPTH = 8"

definition starts_with :: "rstring \<Rightarrow> rstring \<Rightarrow> bool" where
  "starts_with s p \<longleftrightarrow> prefix p s"

definition is_git_global_option_with_value :: "rstring \<Rightarrow> bool" where
  "is_git_global_option_with_value arg \<longleftrightarrow>
     arg \<in> {lit ''-C'', lit ''-c'', lit ''--config-env'', lit ''--exec-path'', lit ''--git-dir'', lit ''--namespace'',
       lit ''--super-prefix'', lit ''--work-tree''}"

definition is_git_global_option_with_inline_value :: "rstring \<Rightarrow> bool" where
  "is_git_global_option_with_inline_value arg \<longleftrightarrow>
     (starts_with arg (lit ''--config-env='') \<or> starts_with arg (lit ''--exec-path='') \<or>
      starts_with arg (lit ''--git-dir='') \<or> starts_with arg (lit ''--namespace='') \<or>
      starts_with arg (lit ''--super-prefix='') \<or> starts_with arg (lit ''--work-tree='')) \<or>
     (starts_with arg (lit ''-C'') \<or> starts_with arg (lit ''-c'')) \<and> 2 < str_len arg"

definition executable_name_lookup_key :: "rstring \<Rightarrow> rstring option" where
  "executable_name_lookup_key raw = file_name raw"

text \<open>The scan for the subcommand, over the arguments from an index on.\<close>

fun scan_git_args :: "rstring list \<Rightarrow> nat \<Rightarrow> bool \<Rightarrow> rstring list \<Rightarrow> (nat \<times> rstring) option" where
  "scan_git_args subcommands idx skip_next [] = None"
| "scan_git_args subcommands idx skip_next (arg # args) =
     (if skip_next then scan_git_args subcommands (idx + 1) False args
      else if is_git_global_option_with_inline_value arg then scan_git_args subcommands (idx + 1) False args
      else if is_git_global_option_with_value arg then scan_git_args subcommands (idx + 1) True args
      else if arg = lit ''--'' \<or> starts_with arg (lit ''-'') then scan_git_args subcommands (idx + 1) False args
      else if arg \<in> set subcommands then Some (idx, arg)
      else None)"

definition find_git_subcommand :: "rstring list \<Rightarrow> rstring list \<Rightarrow> (nat \<times> rstring) option" where
  "find_git_subcommand command subcommands =
     (case command of
        [] \<Rightarrow> None
      | cmd0 # args \<Rightarrow>
          if executable_name_lookup_key cmd0 \<noteq> Some (lit ''git'') then None
          else scan_git_args subcommands 1 False args)"

definition rm_args_include_force_option :: "rstring list \<Rightarrow> bool" where
  "rm_args_include_force_option args \<longleftrightarrow>
     (\<exists>arg \<in> set (takeWhile (\<lambda>arg. arg \<noteq> lit ''--'') args).
        arg = lit ''--force'' \<or>
        (case strip_prefix (lit ''-'') arg of Some flags \<Rightarrow> \<not> starts_with flags (lit ''-'') \<and> 102 \<in> set flags | None \<Rightarrow> False))"

text \<open>The index loop of \<open>dangerous_command_match_for_env\<close>: what remains of the arguments of \<open>env\<close>.\<close>

fun skip_env_args :: "rstring list \<Rightarrow> rstring list" where
  "skip_env_args [] = []"
| "skip_env_args (argument # rest) =
     (if argument = lit ''--'' then rest
      else if argument = lit ''-i'' \<or> argument = lit ''--ignore-environment'' \<or>
        (case split_once 61 argument of Some (name, _) \<Rightarrow> name \<noteq> [] \<and> \<not> starts_with name (lit ''-'') | None \<Rightarrow> False)
      then skip_env_args rest
      else argument # rest)"

text \<open>The functions for one command, with the search one level deeper as an argument.\<close>

type_synonym danger_search = "rstring list \<Rightarrow> dangerous_command_match option"

definition dangerous_command_match_for_env :: "danger_search \<Rightarrow> rstring list \<Rightarrow> dangerous_command_match option" where
  "dangerous_command_match_for_env deeper command = deeper (skip_env_args (drop 1 command))"

definition dangerous_command_match_for_trap :: "danger_search \<Rightarrow> rstring list \<Rightarrow> dangerous_command_match option" where
  "dangerous_command_match_for_trap deeper command =
     (let args = drop 1 command;
          args = (case args of a # rest \<Rightarrow> if a = lit ''--'' then rest else args | [] \<Rightarrow> args)
      in case args of
           [] \<Rightarrow> None
         | action # _ \<Rightarrow> if starts_with action (lit ''-'') then None else deeper [lit ''sh'', lit ''-c'', action])"

definition dangerous_command_match_for_exec :: "danger_search \<Rightarrow> rstring list \<Rightarrow> dangerous_command_match option" where
  "dangerous_command_match_for_exec deeper command =
     (case (case command of [] \<Rightarrow> None | c # _ \<Rightarrow> executable_name_lookup_key c) of
        None \<Rightarrow> None
      | Some cmd0 \<Rightarrow>
          if cmd0 = lit ''rm'' \<and> rm_args_include_force_option (drop 1 command) then Some ForcedRm
          else if cmd0 = lit ''sudo'' then deeper (drop 1 command)
          else if cmd0 = lit ''env'' then dangerous_command_match_for_env deeper command
          else if cmd0 = lit ''trap'' then dangerous_command_match_for_trap deeper command
          else None)"

fun find_map :: "('a \<Rightarrow> 'b option) \<Rightarrow> 'a list \<Rightarrow> 'b option" where
  "find_map f [] = None"
| "find_map f (x # xs) = (case f x of Some y \<Rightarrow> Some y | None \<Rightarrow> find_map f xs)"

text \<open>The literal commands of a shell script (\<open>parse_shell_lc_literal_commands\<close>) are a parameter.\<close>

function dangerous_command_match_with_depth ::
    "(rstring list \<Rightarrow> rstring list list option) \<Rightarrow> nat \<Rightarrow> danger_search" where
  "dangerous_command_match_with_depth literal_commands wrapper_depth = (\<lambda>command.
     if wrapper_depth > MAX_DANGEROUS_COMMAND_WRAPPER_DEPTH then None
     else case dangerous_command_match_for_exec
                 (dangerous_command_match_with_depth literal_commands (wrapper_depth + 1)) command of
       Some m \<Rightarrow> Some m
     | None \<Rightarrow>
         (case literal_commands command of
            None \<Rightarrow> None
          | Some commands \<Rightarrow> find_map (dangerous_command_match_with_depth literal_commands (wrapper_depth + 1)) commands))"
  by pat_completeness auto
termination
  by (relation "measure (\<lambda>(_, d). MAX_DANGEROUS_COMMAND_WRAPPER_DEPTH + 1 - d)") auto

declare dangerous_command_match_with_depth.simps [simp del]

definition dangerous_command_match :: "(rstring list \<Rightarrow> rstring list list option) \<Rightarrow> danger_search" where
  "dangerous_command_match literal_commands command = dangerous_command_match_with_depth literal_commands 0 command"

section \<open>Safe commands\<close>

datatype git_option_pattern = Exact rstring | ShortWithInlineValue rstring | Prefix rstring

fun option_pattern_matches :: "git_option_pattern \<Rightarrow> rstring \<Rightarrow> bool" where
  "option_pattern_matches (Exact opt) arg \<longleftrightarrow> arg = opt"
| "option_pattern_matches (ShortWithInlineValue opt) arg \<longleftrightarrow> starts_with arg opt \<and> str_len opt < str_len arg"
| "option_pattern_matches (Prefix p) arg \<longleftrightarrow> starts_with arg p"

definition UNSAFE_GIT_GLOBAL_OPTIONS :: "git_option_pattern list" where
  "UNSAFE_GIT_GLOBAL_OPTIONS =
     [Exact (lit ''-C''), ShortWithInlineValue (lit ''-C''), Exact (lit ''-c''), ShortWithInlineValue (lit ''-c''),
      Exact (lit ''-p''), Exact (lit ''--config-env''), Prefix (lit ''--config-env=''), Exact (lit ''--exec-path''),
      Prefix (lit ''--exec-path=''), Exact (lit ''--git-dir''), Prefix (lit ''--git-dir=''), Exact (lit ''--namespace''),
      Prefix (lit ''--namespace=''), Exact (lit ''--paginate''), Exact (lit ''--super-prefix''),
      Prefix (lit ''--super-prefix=''), Exact (lit ''--work-tree''), Prefix (lit ''--work-tree='')]"

definition UNSAFE_GIT_SUBCOMMAND_OPTIONS :: "git_option_pattern list" where
  "UNSAFE_GIT_SUBCOMMAND_OPTIONS =
     [Exact (lit ''--output''), Prefix (lit ''--output=''), Exact (lit ''--ext-diff''), Exact (lit ''--textconv''),
      Exact (lit ''--exec''), Prefix (lit ''--exec='')]"

definition git_matches_option_pattern :: "rstring \<Rightarrow> git_option_pattern list \<Rightarrow> bool" where
  "git_matches_option_pattern arg patterns \<longleftrightarrow> (\<exists>p \<in> set patterns. option_pattern_matches p arg)"

definition git_has_unsafe_global_option :: "rstring list \<Rightarrow> bool" where
  "git_has_unsafe_global_option args \<longleftrightarrow> (\<exists>arg \<in> set args. git_matches_option_pattern arg UNSAFE_GIT_GLOBAL_OPTIONS)"

definition git_subcommand_args_are_read_only :: "rstring list \<Rightarrow> bool" where
  "git_subcommand_args_are_read_only args \<longleftrightarrow>
     \<not> (\<exists>arg \<in> set args. git_matches_option_pattern arg UNSAFE_GIT_SUBCOMMAND_OPTIONS)"

definition branch_read_only_flag :: "rstring \<Rightarrow> bool" where
  "branch_read_only_flag arg \<longleftrightarrow>
     arg \<in> {lit ''--list'', lit ''-l'', lit ''--show-current'', lit ''-a'', lit ''--all'', lit ''-r'', lit ''--remotes'',
       lit ''-v'', lit ''-vv'', lit ''--verbose''} \<or> starts_with arg (lit ''--format='')"

fun scan_branch_args :: "bool \<Rightarrow> rstring list \<Rightarrow> bool" where
  "scan_branch_args saw_read_only_flag [] = saw_read_only_flag"
| "scan_branch_args saw_read_only_flag (arg # args) = (if branch_read_only_flag arg then scan_branch_args True args else False)"

definition git_branch_is_read_only :: "rstring list \<Rightarrow> bool" where
  "git_branch_is_read_only args \<longleftrightarrow> (if args = [] then True else scan_branch_args False args)"

definition SAFE_GIT_SUBCOMMANDS :: "rstring list" where
  "SAFE_GIT_SUBCOMMANDS = [lit ''status'', lit ''log'', lit ''diff'', lit ''show'', lit ''branch'']"

definition is_safe_git_command :: "rstring list \<Rightarrow> bool" where
  "is_safe_git_command command \<longleftrightarrow>
     (case find_git_subcommand command SAFE_GIT_SUBCOMMANDS of
        None \<Rightarrow> False
      | Some (subcommand_idx, subcommand) \<Rightarrow>
          let global_args = take (subcommand_idx - 1) (drop 1 command);
              subcommand_args = drop (subcommand_idx + 1) command
          in if git_has_unsafe_global_option global_args then False
             else if subcommand \<in> {lit ''status'', lit ''log'', lit ''diff'', lit ''show''}
             then git_subcommand_args_are_read_only subcommand_args
             else if subcommand = lit ''branch''
             then git_subcommand_args_are_read_only subcommand_args \<and> git_branch_is_read_only subcommand_args
             else False)"

definition all_ascii_digits :: "rstring \<Rightarrow> bool" where
  "all_ascii_digits s \<longleftrightarrow> (\<forall>c \<in> set s. 48 \<le> c \<and> c \<le> 57)"

definition is_valid_sed_n_arg :: "rstring option \<Rightarrow> bool" where
  "is_valid_sed_n_arg arg \<longleftrightarrow>
     (case arg of
        None \<Rightarrow> False
      | Some s \<Rightarrow>
          (case strip_suffix (lit ''p'') s of
             None \<Rightarrow> False
           | Some core \<Rightarrow>
               (case split_char 44 core of
                  [num] \<Rightarrow> num \<noteq> [] \<and> all_ascii_digits num
                | [a, b] \<Rightarrow> a \<noteq> [] \<and> b \<noteq> [] \<and> all_ascii_digits a \<and> all_ascii_digits b
                | _ \<Rightarrow> False)))"

definition SAFE_PROGRAMS :: "rstring list" where
  "SAFE_PROGRAMS =
     [lit ''cat'', lit ''cd'', lit ''cut'', lit ''echo'', lit ''expr'', lit ''false'', lit ''grep'', lit ''head'', lit ''id'',
      lit ''ls'', lit ''nl'', lit ''paste'', lit ''pwd'', lit ''rev'', lit ''seq'', lit ''stat'', lit ''tail'', lit ''tr'',
      lit ''true'', lit ''uname'', lit ''uniq'', lit ''wc'', lit ''which'', lit ''whoami'']"

definition UNSAFE_FIND_OPTIONS :: "rstring list" where
  "UNSAFE_FIND_OPTIONS =
     [lit ''-exec'', lit ''-execdir'', lit ''-ok'', lit ''-okdir'', lit ''-delete'', lit ''-fls'', lit ''-fprint'',
      lit ''-fprint0'', lit ''-fprintf'']"

definition unsafe_base64_arg :: "rstring \<Rightarrow> bool" where
  "unsafe_base64_arg arg \<longleftrightarrow>
     arg \<in> {lit ''-o'', lit ''--output''} \<or> starts_with arg (lit ''--output='') \<or> starts_with arg (lit ''-o'') \<and> arg \<noteq> lit ''-o''"

definition unsafe_ripgrep_arg :: "rstring \<Rightarrow> bool" where
  "unsafe_ripgrep_arg arg \<longleftrightarrow>
     arg \<in> {lit ''--search-zip'', lit ''-z''} \<or>
     (\<exists>opt \<in> {lit ''--pre'', lit ''--hostname-bin''}. arg = opt \<or> starts_with arg (opt @ lit ''=''))"

text \<open>The platform decides on two programs: \<open>linux\<close> is \<open>cfg!(target_os = "linux")\<close>.\<close>

definition is_safe_to_call_with_exec :: "bool \<Rightarrow> rstring list \<Rightarrow> bool" where
  "is_safe_to_call_with_exec linux command \<longleftrightarrow>
     (case command of
        [] \<Rightarrow> False
      | cmd0 # args \<Rightarrow>
          (case executable_name_lookup_key cmd0 of
             None \<Rightarrow> False
           | Some cmd \<Rightarrow>
               if linux \<and> cmd \<in> {lit ''numfmt'', lit ''tac''} then True
               else if cmd \<in> set SAFE_PROGRAMS then True
               else if cmd = lit ''base64'' then \<not> (\<exists>arg \<in> set args. unsafe_base64_arg arg)
               else if cmd = lit ''find'' then \<not> (\<exists>arg \<in> set command. arg \<in> set UNSAFE_FIND_OPTIONS)
               else if cmd = lit ''rg'' then \<not> (\<exists>arg \<in> set command. unsafe_ripgrep_arg arg)
               else if cmd = lit ''git'' then is_safe_git_command command
               else if cmd = lit ''sed'' then
                 length command \<le> 4 \<and> (1 < length command \<and> command ! 1 = lit ''-n'') \<and>
                 is_valid_sed_n_arg (if 2 < length command then Some (command ! 2) else None)
               else False))"

text \<open>The plain commands of a shell script (\<open>parse_shell_lc_plain_commands\<close>) are a parameter.\<close>

definition is_known_safe_command :: "(rstring list \<Rightarrow> rstring list list option) \<Rightarrow> bool \<Rightarrow> rstring list \<Rightarrow> bool" where
  "is_known_safe_command plain_commands linux command \<longleftrightarrow>
     (let command = map (\<lambda>s. if s = lit ''zsh'' then lit ''bash'' else s) command in
      if is_safe_to_call_with_exec linux command then True
      else (case plain_commands command of
              Some all_commands \<Rightarrow> all_commands \<noteq> [] \<and> (\<forall>cmd \<in> set all_commands. is_safe_to_call_with_exec linux cmd)
            | None \<Rightarrow> False))"

section \<open>Forced removals behind wrappers\<close>

text \<open>What \<open>env\<close> takes for an argument of its own, before the command it runs.\<close>

definition env_arg :: "rstring \<Rightarrow> bool" where
  "env_arg a \<longleftrightarrow> a = lit ''-i'' \<or> a = lit ''--ignore-environment'' \<or>
     (\<exists>name v. a = name @ 61 # v \<and> name \<noteq> [] \<and> 61 \<notin> set name \<and> hd name \<noteq> 45)"

text \<open>\<open>reaches_rm n cmd\<close>: a forced removal is reached from the command through \<open>n\<close> wrappers.\<close>

inductive reaches_rm :: "(rstring list \<Rightarrow> rstring list list option) \<Rightarrow> nat \<Rightarrow> rstring list \<Rightarrow> bool" for lc where
  reaches_plain: "file_name p = Some (lit ''rm'') \<Longrightarrow> rm_args_include_force_option args \<Longrightarrow> reaches_rm lc 0 (p # args)"
| reaches_sudo: "file_name p = Some (lit ''sudo'') \<Longrightarrow> reaches_rm lc n cmd \<Longrightarrow> reaches_rm lc (Suc n) (p # cmd)"
| reaches_env: "file_name p = Some (lit ''env'') \<Longrightarrow> \<forall>a \<in> set as. env_arg a \<Longrightarrow> reaches_rm lc n cmd \<Longrightarrow>
    cmd = [] \<or> \<not> env_arg (hd cmd) \<and> hd cmd \<noteq> lit ''--'' \<Longrightarrow> reaches_rm lc (Suc n) (p # as @ cmd)"
| reaches_env_end: "file_name p = Some (lit ''env'') \<Longrightarrow> \<forall>a \<in> set as. env_arg a \<Longrightarrow> reaches_rm lc n cmd \<Longrightarrow>
    reaches_rm lc (Suc n) (p # as @ lit ''--'' # cmd)"
| reaches_trap: "file_name p = Some (lit ''trap'') \<Longrightarrow> \<not> starts_with action (lit ''-'') \<Longrightarrow>
    reaches_rm lc n [lit ''sh'', lit ''-c'', action] \<Longrightarrow> reaches_rm lc (Suc n) (p # action # rest)"
| reaches_trap_end: "file_name p = Some (lit ''trap'') \<Longrightarrow> \<not> starts_with action (lit ''-'') \<Longrightarrow>
    reaches_rm lc n [lit ''sh'', lit ''-c'', action] \<Longrightarrow> reaches_rm lc (Suc n) (p # lit ''--'' # action # rest)"
| reaches_script: "lc script = Some cmds \<Longrightarrow> cmd \<in> set cmds \<Longrightarrow> reaches_rm lc n cmd \<Longrightarrow> reaches_rm lc (Suc n) script"

lemma split_once_iff: "split_once c s = Some (a, b) \<longleftrightarrow> s = a @ c # b \<and> c \<notin> set a"
proof
  assume s: "split_once c s = Some (a, b)"
  then have c: "c \<in> set s" and a: "a = takeWhile (\<lambda>x. x \<noteq> c) s" and b: "b = tl (dropWhile (\<lambda>x. x \<noteq> c) s)"
    by (auto simp: split_once_def split: if_splits)
  have "dropWhile (\<lambda>x. x \<noteq> c) s \<noteq> []" using c by simp
  then have "dropWhile (\<lambda>x. x \<noteq> c) s = c # b" using b hd_dropWhile [of "\<lambda>x. x \<noteq> c" s] by (metis list.collapse)
  then show "s = a @ c # b \<and> c \<notin> set a" using a takeWhile_dropWhile_id [of "\<lambda>x. x \<noteq> c" s] by (metis (full_types) set_takeWhileD)
next
  assume "s = a @ c # b \<and> c \<notin> set a"
  then show "split_once c s = Some (a, b)" by (simp add: split_once_def takeWhile_append dropWhile_append)
qed

lemma starts_with_dash: "starts_with s (lit ''-'') \<longleftrightarrow> s \<noteq> [] \<and> hd s = 45"
  by (cases s) (auto simp: starts_with_def)

lemma env_arg_test:
  "env_arg a \<longleftrightarrow> a = lit ''-i'' \<or> a = lit ''--ignore-environment'' \<or>
     (case split_once 61 a of Some (name, _) \<Rightarrow> name \<noteq> [] \<and> \<not> starts_with name (lit ''-'') | None \<Rightarrow> False)"
proof -
  have "(\<exists>name v. a = name @ 61 # v \<and> name \<noteq> [] \<and> 61 \<notin> set name \<and> hd name \<noteq> 45) \<longleftrightarrow>
    (\<exists>name v. split_once 61 a = Some (name, v) \<and> name \<noteq> [] \<and> \<not> starts_with name (lit ''-''))"
    unfolding split_once_iff starts_with_dash by blast
  then show ?thesis unfolding env_arg_def by (auto split: option.splits)
qed

lemma skip_env_args_Cons:
  "skip_env_args (a # rest) = (if a = lit ''--'' then rest else if env_arg a then skip_env_args rest else a # rest)"
  by (simp add: env_arg_test del: lit_simps)

lemma dashes_no_env_arg [simp]: "\<not> env_arg (lit ''--'')"
  by (auto simp: env_arg_def Cons_eq_append_conv)

lemma skip_env_args_app [simp]:
  assumes "\<forall>a \<in> set as. env_arg a" shows "skip_env_args (as @ cmd) = skip_env_args cmd"
  using assms dashes_no_env_arg by (induction as) (auto simp: skip_env_args_Cons simp del: skip_env_args.simps lit_simps)

lemma skip_env_args_split:
  "\<exists>as. (\<forall>a \<in> set as. env_arg a) \<and>
     (args = as @ lit ''--'' # skip_env_args args \<or>
      args = as @ skip_env_args args \<and>
      (skip_env_args args = [] \<or> \<not> env_arg (hd (skip_env_args args)) \<and> hd (skip_env_args args) \<noteq> lit ''--''))"
proof (induction args)
  case (Cons a args)
  note eq = skip_env_args_Cons [of a args]
  consider "a = lit ''--''" | "a \<noteq> lit ''--''" "\<not> env_arg a" | "a \<noteq> lit ''--''" "env_arg a" by blast
  then show ?case
  proof cases
    case 1
    then have "skip_env_args (a # args) = args" using eq by simp
    then show ?thesis using 1 by (intro exI [of _ "[]"]) (simp del: lit_simps skip_env_args.simps)
  next
    case 2
    then have "skip_env_args (a # args) = a # args" using eq by simp
    then show ?thesis using 2 by (intro exI [of _ "[]"]) (simp del: lit_simps skip_env_args.simps)
  next
    case 3
    then have sk: "skip_env_args (a # args) = skip_env_args args" using eq by simp
    obtain as where "\<forall>a \<in> set as. env_arg a" and
      "args = as @ lit ''--'' # skip_env_args args \<or>
       args = as @ skip_env_args args \<and>
       (skip_env_args args = [] \<or> \<not> env_arg (hd (skip_env_args args)) \<and> hd (skip_env_args args) \<noteq> lit ''--'')"
      using Cons.IH by blast
    then show ?thesis unfolding sk using 3 by (intro exI [of _ "a # as"]) auto
  qed
qed simp

lemma find_map_Some: "find_map f xs = Some y \<Longrightarrow> \<exists>x \<in> set xs. f x = Some y"
  by (induction xs) (auto split: option.splits)

lemma find_map_hit: "x \<in> set xs \<Longrightarrow> f x = Some y \<Longrightarrow> \<exists>z. find_map f xs = Some z"
  by (induction xs) (auto split: option.splits)

text \<open>One level of the search, against one rule of the relation.\<close>

lemma for_exec_reaches:
  assumes "dangerous_command_match_for_exec deeper cmd = Some m"
    and deeper: "\<And>c m. deeper c = Some m \<Longrightarrow> m = ForcedRm \<and> (\<exists>k. near k \<and> reaches_rm lc k c)"
  shows "m = ForcedRm \<and> (reaches_rm lc 0 cmd \<or> (\<exists>k. near k \<and> reaches_rm lc (Suc k) cmd))"
proof -
  obtain p args name where cmd: "cmd = p # args" "file_name p = Some name"
    using assms(1) by (auto simp: dangerous_command_match_for_exec_def executable_name_lookup_key_def split: list.splits option.splits)
  note ex = assms(1) [unfolded cmd(1) dangerous_command_match_for_exec_def executable_name_lookup_key_def]
  consider "name = lit ''rm''" "rm_args_include_force_option args" "m = ForcedRm"
    | "name = lit ''sudo''" "deeper args = Some m"
    | "name = lit ''env''" "deeper (skip_env_args args) = Some m"
    | "name = lit ''trap''" "dangerous_command_match_for_trap deeper (p # args) = Some m"
    using ex cmd(2) by (auto simp: dangerous_command_match_for_env_def simp del: lit_simps split: if_splits)
  then show ?thesis
  proof cases
    case 1
    then show ?thesis using cmd reaches_plain by blast
  next
    case 2
    then show ?thesis using cmd deeper reaches_sudo by blast
  next
    case 3
    obtain k where k: "m = ForcedRm" "near k" "reaches_rm lc k (skip_env_args args)" using deeper [OF 3(2)] by blast
    then show ?thesis
      using skip_env_args_split [of args] reaches_env [of p _ lc k "skip_env_args args"]
        reaches_env_end [of p _ lc k "skip_env_args args"] cmd 3(1) by metis
  next
    case 4
    then obtain action rest where a: "args = action # rest \<or> args = lit ''--'' # action # rest"
      "\<not> starts_with action (lit ''-'')" "deeper [lit ''sh'', lit ''-c'', action] = Some m"
      by (auto simp: dangerous_command_match_for_trap_def Let_def simp del: lit_simps split: list.splits if_splits)
    then show ?thesis using deeper [OF a(3)] cmd 4(1) reaches_trap reaches_trap_end by blast
  qed
qed

lemma dangerous_reaches:
  "dangerous_command_match_with_depth lc d cmd = Some m \<Longrightarrow>
   m = ForcedRm \<and> (\<exists>k. k + d \<le> MAX_DANGEROUS_COMMAND_WRAPPER_DEPTH \<and> reaches_rm lc k cmd)"
proof (induction "MAX_DANGEROUS_COMMAND_WRAPPER_DEPTH + 1 - d" arbitrary: d cmd m rule: less_induct)
  case less
  let ?deeper = "dangerous_command_match_with_depth lc (d + 1)"
  have d: "d \<le> MAX_DANGEROUS_COMMAND_WRAPPER_DEPTH"
    using less.prems by (subst (asm) dangerous_command_match_with_depth.simps) (simp split: if_splits)
  have IH: "m' = ForcedRm \<and> (\<exists>k. k + Suc d \<le> MAX_DANGEROUS_COMMAND_WRAPPER_DEPTH \<and> reaches_rm lc k c)"
    if "?deeper c = Some m'" for c m'
    using less.hyps [of "d + 1" c m'] that d by simp
  consider "dangerous_command_match_for_exec ?deeper cmd = Some m"
    | cmds where "lc cmd = Some cmds" "find_map ?deeper cmds = Some m"
    using less.prems d by (subst (asm) (2) dangerous_command_match_with_depth.simps) (auto split: option.splits)
  then show ?case
  proof cases
    case 1
    then show ?thesis using for_exec_reaches [OF 1, of "\<lambda>k. k + Suc d \<le> MAX_DANGEROUS_COMMAND_WRAPPER_DEPTH" lc] IH d
      by (metis add_0 add_Suc add_Suc_right)
  next
    case 2
    then obtain c where "c \<in> set cmds" "?deeper c = Some m" using find_map_Some by metis
    then show ?thesis using IH reaches_script [of lc cmd cmds c] 2(1) by (metis add_Suc_right add_Suc)
  qed
qed

lemma dangerous_step:
  assumes "d \<le> MAX_DANGEROUS_COMMAND_WRAPPER_DEPTH"
    and "dangerous_command_match_for_exec (dangerous_command_match_with_depth lc (Suc d)) cmd \<noteq> None \<or>
      (\<exists>cmds c. lc cmd = Some cmds \<and> c \<in> set cmds \<and> dangerous_command_match_with_depth lc (Suc d) c \<noteq> None)"
  shows "dangerous_command_match_with_depth lc d cmd \<noteq> None"
  using assms by (subst dangerous_command_match_with_depth.simps) (auto split: option.splits dest: find_map_hit)

lemma reaches_dangerous:
  "reaches_rm lc n cmd \<Longrightarrow> n + d \<le> MAX_DANGEROUS_COMMAND_WRAPPER_DEPTH \<Longrightarrow> dangerous_command_match_with_depth lc d cmd \<noteq> None"
proof (induction arbitrary: d rule: reaches_rm.induct)
  case (reaches_script script cmds cmd n)
  have "dangerous_command_match_with_depth lc (Suc d) cmd \<noteq> None" using reaches_script.IH [of "Suc d"] reaches_script.prems by simp
  then show ?case using dangerous_step [of d lc script] reaches_script by (metis add_leD2)
next
  case (reaches_env p as n cmd)
  have "skip_env_args (as @ cmd) = cmd" unfolding skip_env_args_app [OF reaches_env.hyps(2)] using reaches_env.hyps(4) by (cases cmd) (simp_all add: skip_env_args_Cons del: skip_env_args.simps(2))
  then show ?case using reaches_env.IH [of "Suc d"] reaches_env.hyps(1) reaches_env.prems
    by (intro dangerous_step) (auto simp: dangerous_command_match_for_exec_def executable_name_lookup_key_def dangerous_command_match_for_env_def)
next
  case (reaches_env_end p as n cmd)
  have "skip_env_args (as @ lit ''--'' # cmd) = cmd" using reaches_env_end by (simp add: skip_env_args_Cons del: skip_env_args.simps(2) lit_simps)
  then show ?case using reaches_env_end.IH [of "Suc d"] reaches_env_end.hyps(1) reaches_env_end.prems
    by (intro dangerous_step) (auto simp: dangerous_command_match_for_exec_def executable_name_lookup_key_def dangerous_command_match_for_env_def)
next
  case (reaches_trap p action n rest)
  moreover have "action \<noteq> lit ''--''" using reaches_trap.hyps by (auto simp: starts_with_def)
  ultimately show ?case using reaches_trap.IH [of "Suc d"]
    by (intro dangerous_step) (auto simp: dangerous_command_match_for_exec_def executable_name_lookup_key_def dangerous_command_match_for_trap_def)
next
  case (reaches_trap_end p action n rest)
  then show ?case using reaches_trap_end.IH [of "Suc d"]
    by (intro dangerous_step) (auto simp: dangerous_command_match_for_exec_def executable_name_lookup_key_def dangerous_command_match_for_trap_def)
next
  case (reaches_plain p args)
  then show ?case
    by (intro dangerous_step) (auto simp: dangerous_command_match_for_exec_def executable_name_lookup_key_def)
next
  case (reaches_sudo p n cmd)
  then show ?case using reaches_sudo.IH [of "Suc d"]
    by (intro dangerous_step) (auto simp: dangerous_command_match_for_exec_def executable_name_lookup_key_def)
qed

text \<open>The depth limit is the number of wrappers that are seen through.\<close>

lemma wrapper_depth_limit:
  "dangerous_command_match (\<lambda>_. None) (replicate 8 (lit ''sudo'') @ [lit ''rm'', lit ''-rf'']) = Some ForcedRm"
  "dangerous_command_match (\<lambda>_. None) (replicate 9 (lit ''sudo'') @ [lit ''rm'', lit ''-rf'']) = None"
  by code_simp+

section \<open>Git options\<close>

lemma git_value_option_unsafe:
  "is_git_global_option_with_value g \<Longrightarrow> git_matches_option_pattern g UNSAFE_GIT_GLOBAL_OPTIONS"
  by (auto simp: is_git_global_option_with_value_def git_matches_option_pattern_def UNSAFE_GIT_GLOBAL_OPTIONS_def)

lemma git_inline_option_dash: "is_git_global_option_with_inline_value g \<Longrightarrow> starts_with g (lit ''-'')"
  by (cases g) (auto simp: is_git_global_option_with_inline_value_def starts_with_def)

lemma no_dash_no_option:
  assumes "\<not> starts_with g (lit ''-'')"
  shows "\<not> is_git_global_option_with_inline_value g" "g \<noteq> lit ''--''" "\<not> is_git_global_option_with_value g"
  using assms git_inline_option_dash by (auto simp: starts_with_def is_git_global_option_with_value_def)

lemma scan_git_options:
  assumes "\<forall>g \<in> set gs. starts_with g (lit ''-'') \<and> \<not> is_git_global_option_with_value g"
  shows "scan_git_args subs idx False (gs @ rest) = scan_git_args subs (idx + length gs) False rest"
  using assms by (induction gs arbitrary: idx) auto

lemma scan_git_args_bound: "scan_git_args subs idx skip args = Some (i, s) \<Longrightarrow> idx \<le> i"
  by (induction subs idx skip args rule: scan_git_args.induct) (auto split: if_splits)

lemma scan_git_found:
  assumes "scan_git_args subs idx False args = Some (i, s)"
    and "\<forall>g \<in> set (take (i - idx) args). \<not> is_git_global_option_with_value g"
  shows "\<exists>gs rest. args = gs @ s # rest \<and> i = idx + length gs \<and> s \<in> set subs \<and> (\<forall>g \<in> set gs. starts_with g (lit ''-''))"
  using assms
proof (induction args arbitrary: idx)
  case (Cons g args)
  show ?case
  proof (cases "starts_with g (lit ''-'')")
    case True
    then obtain b where b: "scan_git_args subs (idx + 1) b args = Some (i, s)"
      using Cons.prems(1) by (auto simp del: lit_simps split: if_splits)
    then have i: "i - idx = Suc (i - (idx + 1))" using scan_git_args_bound by fastforce
    then have "\<not> is_git_global_option_with_value g" using Cons.prems(2) by simp
    then have "scan_git_args subs (idx + 1) False args = Some (i, s)"
      using Cons.prems(1) True by (simp del: lit_simps split: if_splits)
    then obtain gs rest where "args = gs @ s # rest" "i = idx + 1 + length gs" "s \<in> set subs" "\<forall>g \<in> set gs. starts_with g (lit ''-'')"
      using Cons.IH [of "idx + 1"] Cons.prems(2) i by (auto simp del: lit_simps)
    then show ?thesis using True by (intro exI [of _ "g # gs"] exI [of _ rest]) simp
  next
    case False
    then have "g \<in> set subs \<and> i = idx \<and> s = g" using Cons.prems(1) no_dash_no_option [OF False] by (simp del: lit_simps split: if_splits)
    then show ?thesis by (intro exI [of _ "[]"] exI [of _ args]) simp
  qed
qed simp

definition safe_git_form :: "rstring list \<Rightarrow> rstring list \<Rightarrow> rstring \<Rightarrow> rstring list \<Rightarrow> bool" where
  "safe_git_form command globals subcommand args \<longleftrightarrow>
     (\<exists>p. command = p # globals @ subcommand # args \<and> file_name p = Some (lit ''git'')) \<and>
     (\<forall>g \<in> set globals. starts_with g (lit ''-'') \<and> \<not> git_matches_option_pattern g UNSAFE_GIT_GLOBAL_OPTIONS) \<and>
     subcommand \<in> set SAFE_GIT_SUBCOMMANDS \<and>
     (\<forall>a \<in> set args. \<not> git_matches_option_pattern a UNSAFE_GIT_SUBCOMMAND_OPTIONS) \<and>
     (subcommand = lit ''branch'' \<longrightarrow> (\<forall>a \<in> set args. branch_read_only_flag a))"

lemma scan_branch_args_iff: "scan_branch_args b args \<longleftrightarrow> (\<forall>a \<in> set args. branch_read_only_flag a) \<and> (b \<or> args \<noteq> [])"
  by (induction args arbitrary: b) auto

lemma git_branch_iff: "git_branch_is_read_only args \<longleftrightarrow> (\<forall>a \<in> set args. branch_read_only_flag a)"
  by (auto simp: git_branch_is_read_only_def scan_branch_args_iff)

lemma safe_git_found:
  assumes "is_safe_git_command command"
  shows "\<exists>globals subcommand args. safe_git_form command globals subcommand args"
proof -
  obtain p words where c: "command = p # words" "file_name p = Some (lit ''git'')"
    using assms by (auto simp: is_safe_git_command_def find_git_subcommand_def executable_name_lookup_key_def split: list.splits if_splits option.splits)
  obtain i s where f: "scan_git_args SAFE_GIT_SUBCOMMANDS 1 False words = Some (i, s)"
    using assms c by (auto simp: is_safe_git_command_def find_git_subcommand_def executable_name_lookup_key_def split: option.splits)
  then have find: "find_git_subcommand command SAFE_GIT_SUBCOMMANDS = Some (i, s)"
    using c by (simp add: find_git_subcommand_def executable_name_lookup_key_def)
  have g: "\<not> git_has_unsafe_global_option (take (i - 1) words)"
    using assms find c(1) by (auto simp: is_safe_git_command_def Let_def split: if_splits)
  then obtain gs rest where w: "words = gs @ s # rest" "i = 1 + length gs" "s \<in> set SAFE_GIT_SUBCOMMANDS" "\<forall>g \<in> set gs. starts_with g (lit ''-'')"
    using scan_git_found [OF f] git_value_option_unsafe unfolding git_has_unsafe_global_option_def by blast
  have "git_subcommand_args_are_read_only rest \<and> (s = lit ''branch'' \<longrightarrow> git_branch_is_read_only rest)"
    using assms find c(1) w(1,2) by (simp add: is_safe_git_command_def Let_def del: lit_simps split: if_splits) (auto simp: lit_simps)
  then have "safe_git_form command gs s rest" using c w g git_branch_iff
    unfolding safe_git_form_def git_subcommand_args_are_read_only_def git_has_unsafe_global_option_def by auto
  then show ?thesis by blast
qed

lemma safe_git_form_safe:
  assumes "safe_git_form command globals subcommand args"
  shows "is_safe_git_command command"
proof -
  obtain p where c: "command = p # globals @ subcommand # args" "file_name p = Some (lit ''git'')"
    using assms by (auto simp: safe_git_form_def)
  have s: "subcommand \<in> set SAFE_GIT_SUBCOMMANDS" using assms by (simp add: safe_git_form_def)
  have o: "\<forall>g \<in> set globals. starts_with g (lit ''-'') \<and> \<not> is_git_global_option_with_value g"
    using assms git_value_option_unsafe unfolding safe_git_form_def by metis
  have "\<not> starts_with subcommand (lit ''-'')" using s by (auto simp: SAFE_GIT_SUBCOMMANDS_def starts_with_def)
  then have dash: "scan_git_args SAFE_GIT_SUBCOMMANDS n False (subcommand # args) = Some (n, subcommand)" for n
    using s no_dash_no_option [of subcommand] by (simp del: lit_simps)
  have find: "find_git_subcommand command SAFE_GIT_SUBCOMMANDS = Some (1 + length globals, subcommand)"
    using scan_git_options [OF o, of SAFE_GIT_SUBCOMMANDS 1 "subcommand # args"] dash c
    by (simp add: find_git_subcommand_def executable_name_lookup_key_def del: scan_git_args.simps)
  have "\<not> git_has_unsafe_global_option globals" "git_subcommand_args_are_read_only args"
    "subcommand = lit ''branch'' \<longrightarrow> git_branch_is_read_only args"
    using assms unfolding safe_git_form_def git_has_unsafe_global_option_def git_subcommand_args_are_read_only_def git_branch_iff
    by blast+
  moreover have "subcommand \<in> {lit ''status'', lit ''log'', lit ''diff'', lit ''show''} \<or> subcommand = lit ''branch''"
    using s by (auto simp: SAFE_GIT_SUBCOMMANDS_def)
  ultimately show ?thesis using find c(1) by (simp add: is_safe_git_command_def Let_def del: lit_simps) blast
qed

section \<open>Properties\<close>

text \<open>C13: the search finds a dangerous command exactly when a forced removal is reached from the command through
  at most as many wrappers as the depth limit, and it reports a forced removal then.\<close>

theorem dangerous_iff_reaches_rm:
  "dangerous_command_match lc cmd = Some m \<longleftrightarrow>
   m = ForcedRm \<and> (\<exists>n \<le> MAX_DANGEROUS_COMMAND_WRAPPER_DEPTH. reaches_rm lc n cmd)"
proof
  assume "dangerous_command_match lc cmd = Some m"
  then show "m = ForcedRm \<and> (\<exists>n \<le> MAX_DANGEROUS_COMMAND_WRAPPER_DEPTH. reaches_rm lc n cmd)"
    using dangerous_reaches [of lc 0 cmd m] by (simp add: dangerous_command_match_def)
next
  assume r: "m = ForcedRm \<and> (\<exists>n \<le> MAX_DANGEROUS_COMMAND_WRAPPER_DEPTH. reaches_rm lc n cmd)"
  then obtain m' where m': "dangerous_command_match_with_depth lc 0 cmd = Some m'"
    using reaches_dangerous [of lc _ cmd 0] by auto
  then show "dangerous_command_match lc cmd = Some m"
    using dangerous_reaches [OF m'] r by (simp add: dangerous_command_match_def)
qed

text \<open>C27: a git command is taken for safe exactly when it names a reading subcommand after global options only,
  none of which changes the directory, the configuration, the pager or the programs git runs, and no
  argument of the subcommand writes a file or runs a program; for branches the arguments only list.\<close>

theorem safe_git_iff:
  "is_safe_git_command command \<longleftrightarrow> (\<exists>globals subcommand args. safe_git_form command globals subcommand args)"
  using safe_git_found safe_git_form_safe by blast

end
