(* ===== verification/Exec_Approval.thy ===== *)
theory Exec_Approval
  imports Policy_Amend Command_Safety Sandbox_Policy
begin

text \<open>
  What a command needs before it runs (\<^verbatim>\<open>core/src/exec_policy.rs\<close>, outside Windows): the policy decides on the
  commands of a request, the heuristics on those without a rule, and the approval policy on whether a prompt may be
  shown; an accepted amendment is appended to the policy file and to the policy in memory.  The tree-sitter parsers of
  shell scripts and the joining of words by shlex are parameters.

  The lemmas show what a skipped approval rests on, that rules and the approval policy are respected, and
  that accepting the proposed amendments ends the prompts.
\<close>

section \<open>Requests\<close>

record granular_approval_config =
  sandbox_approval :: bool
  granular_rules :: bool
  skill_approval :: bool
  request_permissions :: bool
  mcp_elicitations :: bool

datatype ask_for_approval = UnlessTrusted | OnRequest | Granular granular_approval_config | Never

datatype sandbox_permissions = UseDefault | RequireEscalated | WithAdditionalPermissions

definition requests_sandbox_override :: "sandbox_permissions \<Rightarrow> bool" where
  "requests_sandbox_override p \<longleftrightarrow> p \<noteq> UseDefault"

text \<open>Of the permission profile only the kind of its file system policy is read outside Windows.\<close>

record exec_approval_request =
  request_command :: "rstring list"
  approval_policy :: ask_for_approval
  profile_kind :: file_system_sandbox_kind
  request_permissions_override :: sandbox_permissions
  request_prefix_rule :: "rstring list option"

type_synonym amendment = "rstring list"

datatype exec_approval_requirement =
    Skip (bypass_sandbox: bool) (skip_amendment: "amendment option")
  | NeedsApproval (approval_reason: "rstring option") (approval_amendment: "amendment option")
  | RequirementForbidden (forbidden_reason: rstring)

record approval_env =
  approval_paths :: path_env
  plain_commands :: "rstring list \<Rightarrow> rstring list list option"
  literal_commands :: "rstring list \<Rightarrow> rstring list list option"
  single_command_prefix :: "rstring list \<Rightarrow> rstring list option"
  join_words :: "rstring list \<Rightarrow> rstring option"
  target_linux :: bool

section \<open>Reasons\<close>

definition PROMPT_CONFLICT_REASON :: rstring where
  "PROMPT_CONFLICT_REASON = lit ''approval required by policy, but AskForApproval is set to Never''"

definition REJECT_SANDBOX_APPROVAL_REASON :: rstring where
  "REJECT_SANDBOX_APPROVAL_REASON =
     lit ''approval required by policy, but AskForApproval::Granular.sandbox_approval is false''"

definition REJECT_RULES_APPROVAL_REASON :: rstring where
  "REJECT_RULES_APPROVAL_REASON = lit ''approval required by policy rule, but AskForApproval::Granular.rules is false''"

fun is_policy_match :: "rule_match \<Rightarrow> bool" where
  "is_policy_match (PrefixRuleMatch _ _ _ _) \<longleftrightarrow> True"
| "is_policy_match (HeuristicsRuleMatch _ _) \<longleftrightarrow> False"

fun prompt_is_rejected_by_policy :: "ask_for_approval \<Rightarrow> bool \<Rightarrow> rstring option" where
  "prompt_is_rejected_by_policy Never prompt_is_rule = Some PROMPT_CONFLICT_REASON"
| "prompt_is_rejected_by_policy OnRequest prompt_is_rule = None"
| "prompt_is_rejected_by_policy UnlessTrusted prompt_is_rule = None"
| "prompt_is_rejected_by_policy (Granular granular) prompt_is_rule =
     (if prompt_is_rule then (if \<not> granular_rules granular then Some REJECT_RULES_APPROVAL_REASON else None)
      else if \<not> sandbox_approval granular then Some REJECT_SANDBOX_APPROVAL_REASON
      else None)"

text \<open>\<open>Iterator::max_by_key\<close>: the last of the greatest elements.\<close>

fun max_by_key :: "('a \<Rightarrow> nat) \<Rightarrow> 'a list \<Rightarrow> 'a option" where
  "max_by_key key [] = None"
| "max_by_key key (x # xs) =
     (case max_by_key key xs of
        None \<Rightarrow> Some x
      | Some y \<Rightarrow> if key x \<le> key y then Some y else Some x)"

definition render_shlex_command :: "approval_env \<Rightarrow> rstring list \<Rightarrow> rstring" where
  "render_shlex_command env args = (case join_words env args of Some t \<Rightarrow> t | None \<Rightarrow> join (lit '' '') args)"

fun matched_with :: "decision \<Rightarrow> rule_match \<Rightarrow> (rstring list \<times> rstring option) option" where
  "matched_with d (PrefixRuleMatch pfx d' _ j) = (if d' = d then Some (pfx, j) else None)"
| "matched_with d (HeuristicsRuleMatch _ _) = None"

definition derive_prompt_reason :: "approval_env \<Rightarrow> rstring list \<Rightarrow> evaluation \<Rightarrow> rstring option" where
  "derive_prompt_reason env command_args e =
     (let command = render_shlex_command env command_args;
          most_specific_prompt = max_by_key (\<lambda>(n, _). n)
            (map (\<lambda>(pfx, j). (length pfx, j)) (List.map_filter (matched_with Prompt) (matched_rules e)))
      in case most_specific_prompt of
           Some (_, Some justification) \<Rightarrow> Some (lit ''`'' @ command @ lit ''` requires approval: '' @ justification)
         | Some (_, None) \<Rightarrow> Some (lit ''`'' @ command @ lit ''` requires approval by policy'')
         | None \<Rightarrow> None)"

fun dangerous_command_rejection_reason :: "dangerous_command_match \<Rightarrow> rstring" where
  "dangerous_command_rejection_reason ForcedRm = lit ''rm -f style commands are not permitted. Use a safer approach''"
| "dangerous_command_rejection_reason OtherDanger = lit ''blocked by policy''"

definition derive_forbidden_reason ::
    "approval_env \<Rightarrow> rstring list \<Rightarrow> evaluation \<Rightarrow> dangerous_command_match option \<Rightarrow> rstring" where
  "derive_forbidden_reason env command_args e dangerous =
     (let command = render_shlex_command env command_args;
          most_specific_forbidden = max_by_key (\<lambda>(pfx, _). length pfx)
            (List.map_filter (matched_with Forbidden) (matched_rules e))
      in case most_specific_forbidden of
           Some (_, Some justification) \<Rightarrow> lit ''`'' @ command @ lit ''` rejected: '' @ justification
         | Some (pfx, None) \<Rightarrow>
             lit ''`'' @ command @ lit ''` rejected: policy forbids commands starting with `'' @ render_shlex_command env pfx @ lit ''`''
         | None \<Rightarrow>
             (case dangerous of
                Some m \<Rightarrow> lit ''`'' @ command @ lit ''` rejected: '' @ dangerous_command_rejection_reason m
              | None \<Rightarrow> lit ''`'' @ command @ lit ''` rejected: blocked by policy''))"

definition derive_rejected_prompt_reason :: "rstring \<Rightarrow> dangerous_command_match option \<Rightarrow> rstring" where
  "derive_rejected_prompt_reason fallback_reason dangerous =
     (case dangerous of
        Some ForcedRm \<Rightarrow> dangerous_command_rejection_reason ForcedRm
      | Some OtherDanger \<Rightarrow> fallback_reason
      | None \<Rightarrow> fallback_reason)"

definition dangerous_command_match_for_heuristics ::
    "approval_env \<Rightarrow> evaluation \<Rightarrow> decision \<Rightarrow> dangerous_command_match option" where
  "dangerous_command_match_for_heuristics env e d =
     find_map (\<lambda>m. case m of
         HeuristicsRuleMatch command d' \<Rightarrow> if d' = d then dangerous_command_match (literal_commands env) command else None
       | _ \<Rightarrow> None) (matched_rules e)"

section \<open>Commands without a rule\<close>

definition render_decision_for_unmatched_command ::
    "approval_env \<Rightarrow> exec_approval_request \<Rightarrow> bool \<Rightarrow> rstring list \<Rightarrow> decision" where
  "render_decision_for_unmatched_command env req used_complex_parsing command =
     (let dangerous = dangerous_command_match (literal_commands env) command;
          is_known_safe = is_known_safe_command (plain_commands env) (target_linux env) command
      in if is_known_safe \<and> \<not> used_complex_parsing \<and> approval_policy req = UnlessTrusted then Allow
         else if dangerous \<noteq> None then
           (case approval_policy req of
              Never \<Rightarrow> Forbidden
            | OnRequest \<Rightarrow> Prompt
            | UnlessTrusted \<Rightarrow> Prompt
            | Granular _ \<Rightarrow> Prompt)
         else
           (case approval_policy req of
              Never \<Rightarrow> Allow
            | UnlessTrusted \<Rightarrow> Prompt
            | OnRequest \<Rightarrow>
                (case profile_kind req of
                   Unrestricted \<Rightarrow> Allow
                 | ExternalSandbox \<Rightarrow> Allow
                 | Restricted \<Rightarrow> if requests_sandbox_override (request_permissions_override req) then Prompt else Allow)
            | Granular _ \<Rightarrow>
                (case profile_kind req of
                   Unrestricted \<Rightarrow> Allow
                 | ExternalSandbox \<Rightarrow> Allow
                 | Restricted \<Rightarrow> if requests_sandbox_override (request_permissions_override req) then Prompt else Allow)))"

text \<open>The commands, and whether only the fallback parser for here-documents matched.\<close>

definition commands_for_exec_policy :: "approval_env \<Rightarrow> rstring list \<Rightarrow> rstring list list \<times> bool" where
  "commands_for_exec_policy env command =
     (case plain_commands env command of
        Some (c # cs) \<Rightarrow> (c # cs, False)
      | _ \<Rightarrow>
          (case single_command_prefix env command of
             Some single_command \<Rightarrow> ([single_command], True)
           | None \<Rightarrow> ([command], False)))"

section \<open>Amendments\<close>

definition try_derive_execpolicy_amendment_for_prompt_rules :: "rule_match list \<Rightarrow> amendment option" where
  "try_derive_execpolicy_amendment_for_prompt_rules matches =
     (if \<exists>m \<in> set matches. is_policy_match m \<and> match_decision m = Prompt then None
      else find_map (\<lambda>m. case m of
          HeuristicsRuleMatch command d \<Rightarrow> if d = Prompt then Some command else None
        | _ \<Rightarrow> None) matches)"

definition try_derive_execpolicy_amendment_for_allow_rules :: "rule_match list \<Rightarrow> amendment option" where
  "try_derive_execpolicy_amendment_for_allow_rules matches =
     (if \<exists>m \<in> set matches. is_policy_match m then None
      else find_map (\<lambda>m. case m of
          HeuristicsRuleMatch command d \<Rightarrow> if d = Allow then Some command else None
        | _ \<Rightarrow> None) matches)"

definition BANNED_PREFIX_SUGGESTIONS :: "rstring list list" where
  "BANNED_PREFIX_SUGGESTIONS = map (map lit)
     [[''python3''], [''python3'', ''-''], [''python3'', ''-c''], [''python''], [''python'', ''-''], [''python'', ''-c''],
      [''py''], [''py'', ''-3''], [''pythonw''], [''pyw''], [''pypy''], [''pypy3''], [''git''], [''bash''], [''bash'', ''-lc''],
      [''sh''], [''sh'', ''-c''], [''sh'', ''-lc''], [''zsh''], [''zsh'', ''-lc''], [''/bin/zsh''], [''/bin/zsh'', ''-lc''],
      [''/bin/bash''], [''/bin/bash'', ''-lc''], [''pwsh''], [''pwsh'', ''-Command''], [''pwsh'', ''-c''], [''powershell''],
      [''powershell'', ''-Command''], [''powershell'', ''-c''], [''powershell.exe''], [''powershell.exe'', ''-Command''],
      [''powershell.exe'', ''-c''], [''env''], [''sudo''], [''node''], [''node'', ''-e''], [''perl''], [''perl'', ''-e''],
      [''ruby''], [''ruby'', ''-e''], [''php''], [''php'', ''-r''], [''lua''], [''lua'', ''-e''], [''osascript'']]"

definition prefix_rule_would_approve_all_commands ::
    "path_env \<Rightarrow> policy \<Rightarrow> rstring list \<Rightarrow> rstring list list \<Rightarrow> (rstring list \<Rightarrow> decision) \<Rightarrow> match_options \<Rightarrow> bool" where
  "prefix_rule_would_approve_all_commands env p pfx commands fallback options =
     (case add_prefix_rule p pfx Allow of
        Inl _ \<Rightarrow> False
      | Inr p' \<Rightarrow>
          list_all (\<lambda>command. map_option eval_decision (check_with_options env p' command fallback options) = Some Allow) commands)"

definition derive_requested_execpolicy_amendment_from_prefix_rule ::
    "path_env \<Rightarrow> rstring list option \<Rightarrow> rule_match list \<Rightarrow> policy \<Rightarrow> rstring list list \<Rightarrow> (rstring list \<Rightarrow> decision) \<Rightarrow>
     match_options \<Rightarrow> amendment option" where
  "derive_requested_execpolicy_amendment_from_prefix_rule env pfx_rule matches p commands fallback options =
     (case pfx_rule of
        None \<Rightarrow> None
      | Some pfx \<Rightarrow>
          if pfx = [] then None
          else if pfx \<in> set BANNED_PREFIX_SUGGESTIONS then None
          else if \<exists>m \<in> set matches. is_policy_match m then None
          else if prefix_rule_would_approve_all_commands env p pfx commands fallback options then Some pfx
          else None)"

section \<open>The requirement\<close>

text \<open>\<open>None\<close> is the panic of an evaluation without a match.\<close>

definition create_exec_approval_requirement_for_command ::
    "approval_env \<Rightarrow> policy \<Rightarrow> exec_approval_request \<Rightarrow> exec_approval_requirement option" where
  "create_exec_approval_requirement_for_command env exec_policy req =
     (let (commands, used_complex_parsing) = commands_for_exec_policy env (request_command req);
          auto_amendment_allowed = \<not> used_complex_parsing;
          fallback = render_decision_for_unmatched_command env req used_complex_parsing;
          options = \<lparr>resolve_host_executables = True\<rparr>
      in map_option (\<lambda>e.
        let requested_amendment =
              (if auto_amendment_allowed
               then derive_requested_execpolicy_amendment_from_prefix_rule (approval_paths env) (request_prefix_rule req)
                 (matched_rules e) exec_policy commands fallback options
               else None)
        in case eval_decision e of
             Forbidden \<Rightarrow>
               RequirementForbidden (derive_forbidden_reason env (request_command req) e
                 (dangerous_command_match_for_heuristics env e Forbidden))
           | Prompt \<Rightarrow>
               (let prompt_is_rule = (\<exists>m \<in> set (matched_rules e). is_policy_match m \<and> match_decision m = Prompt)
                in case prompt_is_rejected_by_policy (approval_policy req) prompt_is_rule of
                     Some reason \<Rightarrow>
                       RequirementForbidden (if prompt_is_rule then reason
                         else derive_rejected_prompt_reason reason (dangerous_command_match_for_heuristics env e Prompt))
                   | None \<Rightarrow>
                       NeedsApproval (derive_prompt_reason env (request_command req) e)
                         (case requested_amendment of
                            Some a \<Rightarrow> Some a
                          | None \<Rightarrow>
                              if auto_amendment_allowed
                              then try_derive_execpolicy_amendment_for_prompt_rules (matched_rules e) else None))
           | Allow \<Rightarrow>
               Skip (list_all (\<lambda>command. \<exists>m \<in> set (matches_for_command_with_options (approval_paths env) exec_policy command None options).
                       is_policy_match m \<and> match_decision m = Allow) commands)
                 (if auto_amendment_allowed then try_derive_execpolicy_amendment_for_allow_rules (matched_rules e) else None))
        (check_multiple_with_options (approval_paths env) exec_policy commands fallback options))"

section \<open>Updates\<close>

datatype exec_policy_update_error = AppendRule rstring amend_error | AddRule policy_error

definition default_policy_path :: "rstring \<Rightarrow> rstring" where
  "default_policy_path codex_home = path_join (path_join codex_home (lit ''rules'')) (lit ''default.rules'')"

text \<open>An update runs under the lock of the manager: it sees the policy of the update before it.\<close>

definition append_amendment_and_update ::
    "'s policy_file_io \<Rightarrow> path_env \<Rightarrow> rstring \<Rightarrow> amendment \<Rightarrow> 's \<times> policy \<Rightarrow> ('s \<times> policy) \<times> (exec_policy_update_error + unit)" where
  "append_amendment_and_update io env codex_home amendment = (\<lambda>(s, current_policy).
     let policy_path = default_policy_path codex_home in
     case blocking_append_allow_prefix_rule io s policy_path amendment of
       (s, Inl e) \<Rightarrow> ((s, current_policy), Inl (AppendRule policy_path e))
     | (s, Inr _) \<Rightarrow>
         let options = \<lparr>resolve_host_executables = True\<rparr>;
             already_allowed =
               (case check_multiple_with_options env current_policy [amendment] (\<lambda>_. Forbidden) options of
                  Some e \<Rightarrow> eval_decision e = Allow \<and> (\<exists>m \<in> set (matched_rules e). is_policy_match m \<and> match_decision m = Allow)
                | None \<Rightarrow> False)
         in if already_allowed then ((s, current_policy), Inr ())
            else (case add_prefix_rule current_policy amendment Allow of
                    Inl e \<Rightarrow> ((s, current_policy), Inl (AddRule e))
                  | Inr updated_policy \<Rightarrow> ((s, updated_policy), Inr ())))"

definition append_network_rule_and_update ::
    "'s policy_file_io \<Rightarrow> rstring \<Rightarrow> rstring \<Rightarrow> network_rule_protocol \<Rightarrow> decision \<Rightarrow> rstring option \<Rightarrow> 's \<times> policy \<Rightarrow>
     ('s \<times> policy) \<times> (exec_policy_update_error + unit)" where
  "append_network_rule_and_update io codex_home host protocol d justification = (\<lambda>(s, current_policy).
     let policy_path = default_policy_path codex_home in
     case blocking_append_network_rule io s policy_path host protocol d justification of
       (s, Inl e) \<Rightarrow> ((s, current_policy), Inl (AppendRule policy_path e))
     | (s, Inr _) \<Rightarrow>
         (case add_network_rule current_policy host protocol d justification of
            Inl e \<Rightarrow> ((s, current_policy), Inl (AddRule e))
          | Inr updated_policy \<Rightarrow> ((s, updated_policy), Inr ())))"


section \<open>Evaluation of a request\<close>

abbreviation resolving :: match_options where
  "resolving \<equiv> \<lparr>resolve_host_executables = True\<rparr>"

definition request_commands :: "approval_env \<Rightarrow> exec_approval_request \<Rightarrow> rstring list list" where
  "request_commands env req = fst (commands_for_exec_policy env (request_command req))"

definition request_fallback :: "approval_env \<Rightarrow> exec_approval_request \<Rightarrow> rstring list \<Rightarrow> decision" where
  "request_fallback env req =
     render_decision_for_unmatched_command env req (snd (commands_for_exec_policy env (request_command req)))"

definition request_deciding :: "approval_env \<Rightarrow> policy \<Rightarrow> rstring list \<Rightarrow> prefix_rule set" where
  "request_deciding env p c = deciding (approval_paths env) p resolving c"

definition request_decision :: "approval_env \<Rightarrow> policy \<Rightarrow> exec_approval_request \<Rightarrow> rstring list \<Rightarrow> decision" where
  "request_decision env p req c = command_decision (approval_paths env) p resolving (request_fallback env req) c"

definition request_matches :: "approval_env \<Rightarrow> policy \<Rightarrow> exec_approval_request \<Rightarrow> rule_match list" where
  "request_matches env p req = concat (map (\<lambda>c. matches_for_command_with_options (approval_paths env) p c
     (Some (request_fallback env req)) resolving) (request_commands env req))"

lemma request_commands_nonempty [simp]: "request_commands env req \<noteq> []"
  by (auto simp: request_commands_def commands_for_exec_policy_def split: option.splits list.splits)

context rule_matcher
begin

lemma policy_match_iff:
  assumes "ok p"
  shows "(\<exists>m \<in> set (found p c None). is_policy_match m \<and> match_decision m = d) \<longleftrightarrow> d \<in> rule_decision ` rules p c"
proof -
  have "\<forall>m \<in> set (found p c None). is_policy_match m" using found_by_rule by fastforce
  then show ?thesis unfolding found_decisions [OF assms, symmetric] by blast
qed

lemma fallback_match_iff:
  assumes "ok p"
  shows "(\<exists>m \<in> set (found p c (Some f)). is_policy_match m \<and> match_decision m = d) \<longleftrightarrow> d \<in> rule_decision ` rules p c"
    and "HeuristicsRuleMatch c' d \<in> set (found p c (Some f)) \<longleftrightarrow> c' = c \<and> d = f c \<and> rules p c = {}"
proof -
  show "(\<exists>m \<in> set (found p c (Some f)). is_policy_match m \<and> match_decision m = d) \<longleftrightarrow> d \<in> rule_decision ` rules p c"
    using policy_match_iff [OF assms] none_found [OF assms] by (simp add: found_fallback)
  show "HeuristicsRuleMatch c' d \<in> set (found p c (Some f)) \<longleftrightarrow> c' = c \<and> d = f c \<and> rules p c = {}"
    using none_found [OF assms, of c] found_by_rule [of "HeuristicsRuleMatch c' d" p c] by (auto simp: found_fallback)
qed

end

lemma request_matched:
  assumes "policy_ok p"
  shows "(\<exists>m \<in> set (request_matches env p req). is_policy_match m \<and> match_decision m = d) \<longleftrightarrow>
      (\<exists>c \<in> set (request_commands env req). d \<in> rule_decision ` request_deciding env p c)"
    and "HeuristicsRuleMatch c d \<in> set (request_matches env p req) \<longleftrightarrow>
      c \<in> set (request_commands env req) \<and> d = request_fallback env req c \<and> request_deciding env p c = {}"
proof -
  show "(\<exists>m \<in> set (request_matches env p req). is_policy_match m \<and> match_decision m = d) \<longleftrightarrow>
      (\<exists>c \<in> set (request_commands env req). d \<in> rule_decision ` request_deciding env p c)"
    unfolding request_deciding_def matcher.fallback_match_iff(1) [OF assms, where f = "request_fallback env req", symmetric]
    by (auto simp: request_matches_def)
  show "HeuristicsRuleMatch c d \<in> set (request_matches env p req) \<longleftrightarrow>
      c \<in> set (request_commands env req) \<and> d = request_fallback env req c \<and> request_deciding env p c = {}"
    using matcher.fallback_match_iff(2) [OF assms] by (auto simp: request_matches_def request_deciding_def)
qed

lemma request_evaluated:
  assumes "policy_ok p"
  shows "check_multiple_with_options (approval_paths env) p (request_commands env req) (request_fallback env req) resolving =
    Some \<lparr>eval_decision = Max (request_decision env p req ` set (request_commands env req)), matched_rules = request_matches env p req\<rparr>"
proof -
  have "request_decision env p req = command_decision (approval_paths env) p resolving (request_fallback env req)"
    by (rule ext) (simp add: request_decision_def)
  then show ?thesis by (simp add: check_multiple_decides [OF assms] request_matches_def)
qed

definition prompt_is_rule :: "approval_env \<Rightarrow> policy \<Rightarrow> exec_approval_request \<Rightarrow> bool" where
  "prompt_is_rule env p req \<longleftrightarrow> (\<exists>c \<in> set (request_commands env req). Prompt \<in> rule_decision ` request_deciding env p c)"

text \<open>The requirement, by the strictest decision over the commands.\<close>

lemma requirement_cases:
  assumes "policy_ok p"
  obtains (forbidden) reason where "create_exec_approval_requirement_for_command env p req = Some (RequirementForbidden reason)"
      "Max (request_decision env p req ` set (request_commands env req)) = Forbidden"
  | (rejected) reason where "create_exec_approval_requirement_for_command env p req = Some (RequirementForbidden reason)"
      "Max (request_decision env p req ` set (request_commands env req)) = Prompt"
      "prompt_is_rejected_by_policy (approval_policy req) (prompt_is_rule env p req) \<noteq> None"
  | (prompt) reason a where "create_exec_approval_requirement_for_command env p req = Some (NeedsApproval reason a)"
      "Max (request_decision env p req ` set (request_commands env req)) = Prompt"
      "prompt_is_rejected_by_policy (approval_policy req) (prompt_is_rule env p req) = None"
      "request_prefix_rule req = None \<Longrightarrow> a = (if snd (commands_for_exec_policy env (request_command req)) then None
        else try_derive_execpolicy_amendment_for_prompt_rules (request_matches env p req))"
  | (skip) b a where "create_exec_approval_requirement_for_command env p req = Some (Skip b a)"
      "Max (request_decision env p req ` set (request_commands env req)) = Allow"
      "b \<longleftrightarrow> (\<forall>c \<in> set (request_commands env req). Allow \<in> rule_decision ` request_deciding env p c)"
proof -
  obtain cmds cx where cx: "commands_for_exec_policy env (request_command req) = (cmds, cx)" by fastforce
  have f: "request_commands env req = cmds" "request_fallback env req = render_decision_for_unmatched_command env req cx"
    using cx by (simp_all add: request_commands_def request_fallback_def)
  note ev = request_evaluated [OF assms, of env req, unfolded f(2)]
  have rule: "(\<exists>m \<in> set (request_matches env p req). is_policy_match m \<and> match_decision m = Prompt) \<longleftrightarrow> prompt_is_rule env p req"
    by (simp add: request_matched(1) [OF assms] prompt_is_rule_def)
  have b: "list_all (\<lambda>c. \<exists>m \<in> set (matches_for_command_with_options (approval_paths env) p c None resolving).
      is_policy_match m \<and> match_decision m = Allow) cmds \<longleftrightarrow> (\<forall>c \<in> set cmds. Allow \<in> rule_decision ` request_deciding env p c)"
    using matcher.policy_match_iff [OF assms] by (simp add: list_all_iff request_deciding_def)
  note unf = create_exec_approval_requirement_for_command_def cx f(1) Let_def
  show thesis
  proof (cases "Max (request_decision env p req ` set (request_commands env req))")
    case Allow
    then show thesis using ev b by (intro skip) (simp_all add: unf)
  next
    case Prompt
    show thesis
    proof (cases "prompt_is_rejected_by_policy (approval_policy req) (prompt_is_rule env p req)")
      case None
      let ?e = "\<lparr>eval_decision = Prompt, matched_rules = request_matches env p req\<rparr>"
      have "create_exec_approval_requirement_for_command env p req =
        Some (NeedsApproval (derive_prompt_reason env (request_command req) ?e)
          (case (if \<not> cx then derive_requested_execpolicy_amendment_from_prefix_rule (approval_paths env) (request_prefix_rule req)
              (request_matches env p req) p cmds (render_decision_for_unmatched_command env req cx) resolving else None) of
            Some a \<Rightarrow> Some a
          | None \<Rightarrow> if \<not> cx then try_derive_execpolicy_amendment_for_prompt_rules (request_matches env p req) else None))"
        using ev rule Prompt None by (simp add: unf split: option.splits)
      then show thesis using Prompt None
        by (rule prompt) (simp add: cx derive_requested_execpolicy_amendment_from_prefix_rule_def)
    next
      case (Some r)
      then show thesis using ev rule Prompt by (intro rejected) (simp_all add: unf)
    qed
  next
    case Forbidden
    then show thesis using ev by (intro forbidden) (simp_all add: unf)
  qed
qed


lemma decision_le: "(d :: decision) \<le> Forbidden" "Allow \<le> (d :: decision)"
  by (cases d; simp add: less_eq_decision_def)+

lemma Max_decision_Allow:
  assumes "finite A" "A \<noteq> {}" "Max A = Allow" "d \<in> A"
  shows "d = (Allow :: decision)"
  using Max_ge [OF assms(1,4)] assms(3) decision_le(2) [of d] by simp

lemma Max_decision_Forbidden:
  assumes "finite A" "Forbidden \<in> A"
  shows "Max A = (Forbidden :: decision)"
  using Max_ge [OF assms] decision_le(1) [of "Max A"] by simp

lemma request_decision_rules:
  assumes "r \<in> request_deciding env p c"
  shows "rule_decision r \<le> request_decision env p req c"
proof -
  have "deciding (approval_paths env) p resolving c \<noteq> {}" using assms by (auto simp: request_deciding_def)
  then show ?thesis using assms by (auto simp: request_decision_def command_decision_def request_deciding_def intro: Max_ge)
qed

lemma request_decision_fallback: "request_deciding env p c = {} \<Longrightarrow> request_decision env p req c = request_fallback env req c"
  by (simp add: request_decision_def command_decision_def request_deciding_def)

lemma request_decision_allow:
  assumes "request_deciding env p c \<noteq> {}" "\<forall>r \<in> request_deciding env p c. rule_decision r = Allow"
  shows "request_decision env p req c = Allow"
proof -
  have "rule_decision ` deciding (approval_paths env) p resolving c = {Allow}" using assms by (auto simp: request_deciding_def)
  then show ?thesis using assms(1) by (simp add: request_decision_def command_decision_def request_deciding_def)
qed

lemma fallback_licensed:
  assumes "request_fallback env req c = Allow"
  shows "dangerous_command_match (literal_commands env) c = None \<or>
    approval_policy req = UnlessTrusted \<and> is_known_safe_command (plain_commands env) (target_linux env) c"
  using assms
  by (auto simp: request_fallback_def render_decision_for_unmatched_command_def Let_def split: if_splits ask_for_approval.splits)


section \<open>Accepting an amendment\<close>

definition allow_rule :: "rstring list \<Rightarrow> prefix_rule" where
  "allow_rule a = \<lparr>rule_pattern = \<lparr>pattern_first = hd a, pattern_rest = map Single (tl a)\<rparr>, rule_decision = Allow, rule_justification = None\<rparr>"

lemma allow_rule_applies: "a \<noteq> [] \<Longrightarrow> applies (allow_rule a) a"
  by (cases a) (auto simp: allow_rule_def applies_def list_all2_map1 list.rel_refl)

lemma add_allow_rule:
  assumes "policy_ok p" and "add_prefix_rule p a Allow = Inr p'"
  shows "policy_ok p'" and "applying p' c = applying p c \<union> {r. r = allow_rule a \<and> applies r c}"
    and "host_executables_by_name p' = host_executables_by_name p"
proof -
  obtain x xs where a: "a = x # xs" using assms(2) by (cases a) (auto simp: add_prefix_rule_def)
  have p': "p' = p\<lparr>rules_by_program := multi_insert (rules_by_program p) x (allow_rule a)\<rparr>"
    using assms(2) a by (simp add: add_prefix_rule_def allow_rule_def)
  show "policy_ok p'" using assms(1) p' multi_insert_ok [of "rules_by_program p" "allow_rule a" x] a
    by (simp add: policy_ok_def rule_program_def allow_rule_def)
  have "rules_by_program p' = multi_insert (rules_by_program p) x (allow_rule a)" using p' by simp
  then have "set (all_rules p') = insert (allow_rule a) (set (all_rules p))"
    using multi_insert_rules [of "rules_by_program p" x "allow_rule a"] by (simp only: all_rules_def)
  then show "applying p' c = applying p c \<union> {r. r = allow_rule a \<and> applies r c}" by (auto simp: applying_def)
  show "host_executables_by_name p' = host_executables_by_name p" using p' by simp
qed

lemma deciding_add_allow:
  assumes "policy_ok p" and "add_prefix_rule p a Allow = Inr p'"
  shows "request_deciding env p' c \<subseteq> insert (allow_rule a) (request_deciding env p c)"
    and "request_deciding env p c \<noteq> {} \<Longrightarrow> request_deciding env p' c \<noteq> {}"
    and "a \<noteq> [] \<Longrightarrow> request_deciding env p' a \<noteq> {}"
proof -
  note add = add_allow_rule [OF assms]
  have res: "resolved_command e p' c = resolved_command e p c" for e by (simp only: resolved_command_def add(3))
  show "request_deciding env p' c \<subseteq> insert (allow_rule a) (request_deciding env p c)"
    unfolding request_deciding_def deciding_def res add(2) by (auto split: option.splits)
  show "request_deciding env p c \<noteq> {} \<Longrightarrow> request_deciding env p' c \<noteq> {}"
    unfolding request_deciding_def using deciding_mono [of p p'] add(2,3) by (metis Un_upper1)
  show "a \<noteq> [] \<Longrightarrow> request_deciding env p' a \<noteq> {}"
    using add(2) [of a] allow_rule_applies by (auto simp: request_deciding_def deciding_def)
qed

definition prompting :: "approval_env \<Rightarrow> policy \<Rightarrow> exec_approval_request \<Rightarrow> rstring list set" where
  "prompting env p req = {c \<in> set (request_commands env req). request_decision env p req c = Prompt}"

text \<open>No rule asks for a prompt or forbids: what is left to ask comes from the heuristics.\<close>

definition only_heuristics_ask :: "approval_env \<Rightarrow> policy \<Rightarrow> exec_approval_request \<Rightarrow> bool" where
  "only_heuristics_ask env p req \<longleftrightarrow>
     policy_ok p \<and>
     (\<forall>c \<in> set (request_commands env req).
        (\<forall>r \<in> request_deciding env p c. rule_decision r = Allow) \<and> request_decision env p req c \<noteq> Forbidden)"

lemma only_heuristics_requirement:
  assumes "only_heuristics_ask env p req" and "request_prefix_rule req = None"
    and "\<not> snd (commands_for_exec_policy env (request_command req))"
    and "prompt_is_rejected_by_policy (approval_policy req) False = None"
  shows "(\<exists>b a. prompting env p req = {} \<and> create_exec_approval_requirement_for_command env p req = Some (Skip b a)) \<or>
    (\<exists>reason a. create_exec_approval_requirement_for_command env p req = Some (NeedsApproval reason (Some a)) \<and>
       a \<in> prompting env p req \<and> request_deciding env p a = {})"
proof -
  have ok: "policy_ok p" using assms(1) by (simp add: only_heuristics_ask_def)
  let ?D = "request_decision env p req ` set (request_commands env req)"
  have D: "finite ?D" "?D \<noteq> {}" by simp_all
  have nf: "Max ?D \<noteq> Forbidden" using Max_in [OF D] assms(1) unfolding only_heuristics_ask_def by (metis (no_types, lifting) imageE)
  have nr: "\<not> prompt_is_rule env p req" using assms(1) by (auto simp: prompt_is_rule_def only_heuristics_ask_def)
  show ?thesis using ok
  proof (cases rule: requirement_cases [where env = env and req = req])
    case (prompt reason a)
    let ?f = "\<lambda>m. case m of HeuristicsRuleMatch command d \<Rightarrow> if d = Prompt then Some command else None | _ \<Rightarrow> None"
    have a: "a = find_map ?f (request_matches env p req)"
      using prompt(4) [OF assms(2)] assms(3) nr request_matched(1) [OF ok, of env req Prompt]
      by (simp add: try_derive_execpolicy_amendment_for_prompt_rules_def prompt_is_rule_def)
    obtain c where c: "c \<in> set (request_commands env req)" "request_decision env p req c = Prompt"
      using Max_in [OF D] prompt(2) by (metis (no_types, lifting) imageE)
    then have "request_deciding env p c = {}"
      using request_decision_allow [of env p c req] assms(1) by (fastforce simp: only_heuristics_ask_def)
    then have "HeuristicsRuleMatch c Prompt \<in> set (request_matches env p req)"
      using request_matched(2) [OF ok] c request_decision_fallback by metis
    then obtain a' where a': "a = Some a'" using find_map_hit [of _ _ ?f] a by fastforce
    then obtain m where m: "m \<in> set (request_matches env p req)" "?f m = Some a'" using find_map_Some [of ?f] a by metis
    have "m = HeuristicsRuleMatch a' Prompt" using m(2) by (auto split: rule_match.splits if_splits)
    then have "HeuristicsRuleMatch a' Prompt \<in> set (request_matches env p req)" using m(1) by simp
    then have "a' \<in> prompting env p req \<and> request_deciding env p a' = {}"
      using request_matched(2) [OF ok, of a' Prompt env req] request_decision_fallback [of env p a' req] by (simp add: prompting_def)
    then show ?thesis using prompt(1) a' by blast
  next
    case (skip b a)
    then have "prompting env p req = {}" using Max_decision_Allow [OF D] by (fastforce simp: prompting_def)
    then show ?thesis using skip(1) by blast
  qed (use nf nr assms(4) in auto)
qed


lemma accepted_amendment:
  assumes "only_heuristics_ask env p req" and "a \<in> prompting env p req" and "request_deciding env p a = {}" and "a \<noteq> []"
    and "blocking_append_allow_prefix_rule io s (default_policy_path home) a = (s', Inr ())"
  obtains p' where "append_amendment_and_update io (approval_paths env) home a (s, p) = ((s', p'), Inr ())"
    "only_heuristics_ask env p' req" "prompting env p' req \<subset> prompting env p req"
proof -
  have ok: "policy_ok p" using assms(1) by (simp add: only_heuristics_ask_def)
  obtain p' where p': "add_prefix_rule p a Allow = Inr p'" using assms(4) by (cases a) (auto simp: add_prefix_rule_def)
  note add = deciding_add_allow [OF ok p']
  have "command_decision (approval_paths env) p resolving (\<lambda>_. Forbidden) a = Forbidden"
    using assms(3) by (simp add: command_decision_def request_deciding_def)
  then have upd: "append_amendment_and_update io (approval_paths env) home a (s, p) = ((s', p'), Inr ())"
    using assms(5) p' by (simp add: append_amendment_and_update_def check_multiple_decides [OF ok])
  have allow: "rule_decision r = Allow" if "c \<in> set (request_commands env req)" "r \<in> request_deciding env p' c" for c r
    using that add(1) [of env c] assms(1) by (auto simp: only_heuristics_ask_def allow_rule_def)
  have same: "request_deciding env p' c = {} \<and> request_decision env p' req c = request_decision env p req c"
    if c: "c \<in> set (request_commands env req)" and "request_decision env p' req c \<noteq> Allow" for c
  proof -
    have e: "request_deciding env p' c = {}" using request_decision_allow [of env p' c req] allow [OF c] that(2) by blast
    then have "request_deciding env p c = {}" using add(2) [of env c] by blast
    then show ?thesis using e by (simp add: request_decision_fallback)
  qed
  have "request_decision env p' req c \<noteq> Forbidden" if "c \<in> set (request_commands env req)" for c
    using same [OF that] assms(1) that unfolding only_heuristics_ask_def by (metis decision.distinct(3))
  then have "only_heuristics_ask env p' req"
    unfolding only_heuristics_ask_def using add_allow_rule(1) [OF ok p'] allow by blast
  moreover have "prompting env p' req \<subseteq> prompting env p req" using same by (fastforce simp: prompting_def)
  moreover have "a \<notin> prompting env p' req" using same [of a] add(3) [OF assms(4)] by (auto simp: prompting_def)
  ultimately show thesis using that upd assms(2) by blast
qed

text \<open>Asking again and accepting what is proposed, at most a number of times.\<close>

fun accept_amendments ::
    "'s policy_file_io \<Rightarrow> approval_env \<Rightarrow> rstring \<Rightarrow> exec_approval_request \<Rightarrow> nat \<Rightarrow> 's \<times> policy \<Rightarrow> 's \<times> policy" where
  "accept_amendments io env home req 0 st = st"
| "accept_amendments io env home req (Suc n) st =
     (case create_exec_approval_requirement_for_command env (snd st) req of
        Some (NeedsApproval _ (Some a)) \<Rightarrow>
          (case append_amendment_and_update io (approval_paths env) home a st of
             (st', Inr _) \<Rightarrow> accept_amendments io env home req n st'
           | (st', Inl _) \<Rightarrow> st')
      | _ \<Rightarrow> st)"

definition appends_succeed :: "'s policy_file_io \<Rightarrow> rstring \<Rightarrow> bool" where
  "appends_succeed io home \<longleftrightarrow>
     (\<forall>s a. a \<noteq> [] \<longrightarrow> (\<exists>s'. blocking_append_allow_prefix_rule io s (default_policy_path home) a = (s', Inr ())))"

lemma accept_amendments_end:
  assumes "appends_succeed io home" and "[] \<notin> set (request_commands env req)" and "request_prefix_rule req = None"
    and "\<not> snd (commands_for_exec_policy env (request_command req))"
    and "prompt_is_rejected_by_policy (approval_policy req) False = None"
  shows "only_heuristics_ask env p req \<Longrightarrow> card (prompting env p req) \<le> n \<Longrightarrow>
    \<exists>b a. create_exec_approval_requirement_for_command env (snd (accept_amendments io env home req n (s, p))) req = Some (Skip b a)"
proof (induction n arbitrary: s p)
  case (0 s p)
  then have "prompting env p req = {}" by (simp add: prompting_def)
  then show ?case using only_heuristics_requirement [OF "0.prems"(1) assms(3-5)] by auto
next
  case (Suc n s p)
  from only_heuristics_requirement [OF Suc.prems(1) assms(3-5)] show ?case
  proof (elim disjE exE conjE)
    fix reason a
    assume r: "create_exec_approval_requirement_for_command env p req = Some (NeedsApproval reason (Some a))"
      and a: "a \<in> prompting env p req" "request_deciding env p a = {}"
    have ne: "a \<noteq> []" using a(1) assms(2) by (auto simp: prompting_def)
    have "\<exists>s'. blocking_append_allow_prefix_rule io s (default_policy_path home) a = (s', Inr ())"
      using assms(1) ne by (simp add: appends_succeed_def)
    then obtain s' where app: "blocking_append_allow_prefix_rule io s (default_policy_path home) a = (s', Inr ())" ..
    obtain p' where p': "append_amendment_and_update io (approval_paths env) home a (s, p) = ((s', p'), Inr ())"
      "only_heuristics_ask env p' req" "prompting env p' req \<subset> prompting env p req"
      by (rule accepted_amendment [OF Suc.prems(1) a ne app])
    have "card (prompting env p' req) < card (prompting env p req)" using p'(3) by (intro psubset_card_mono) (simp_all add: prompting_def)
    then show ?thesis using Suc.IH [OF p'(2), of s'] Suc.prems(2) r p'(1) by simp
  qed simp
qed

section \<open>Properties\<close>

text \<open>C3: when a request needs no approval, each of its commands is allowed by all rules that decide on it, or
  no rule decides and it is not dangerous or is known to be safe; and the sandbox is bypassed only if a rule
  decides on every command.\<close>

theorem skip_is_licensed:
  assumes "policy_ok p" and "create_exec_approval_requirement_for_command env p req = Some (Skip bypass am)"
    and "c \<in> set (request_commands env req)"
  shows "request_deciding env p c \<noteq> {} \<and> (\<forall>r \<in> request_deciding env p c. rule_decision r = Allow) \<or>
    \<not> bypass \<and> request_deciding env p c = {} \<and>
    (dangerous_command_match (literal_commands env) c = None \<or>
     approval_policy req = UnlessTrusted \<and> is_known_safe_command (plain_commands env) (target_linux env) c)"
using assms(1)
proof (cases rule: requirement_cases [where env = env and req = req])
  case (skip b a)
  then have b: "bypass \<longleftrightarrow> (\<forall>c \<in> set (request_commands env req). Allow \<in> rule_decision ` request_deciding env p c)"
    using assms(2) by simp
  have allow: "request_decision env p req c = Allow"
    by (rule Max_decision_Allow [OF _ _ skip(2)]) (use assms(3) in auto)
  have "rule_decision r = Allow" if "r \<in> request_deciding env p c" for r
    using request_decision_rules [OF that, of req] allow decision_le(2) [of "rule_decision r"] by simp
  moreover have "\<not> bypass" if "request_deciding env p c = {}" using b assms(3) that by auto
  moreover have "dangerous_command_match (literal_commands env) c = None \<or>
      approval_policy req = UnlessTrusted \<and> is_known_safe_command (plain_commands env) (target_linux env) c"
    if "request_deciding env p c = {}"
    using fallback_licensed [of env req c] request_decision_fallback [OF that] allow by simp
  ultimately show ?thesis by blast
qed (use assms(2) in auto)

definition example_approval_env :: approval_env where
  "example_approval_env =
     \<lparr>approval_paths = example_env,
      plain_commands = (\<lambda>c. if c = [lit ''bash'', lit ''-lc'', lit ''make && cargo test''] then Some [[lit ''make''], [lit ''cargo'', lit ''test'']] else None),
      literal_commands = (\<lambda>_. None), single_command_prefix = (\<lambda>_. None), join_words = (\<lambda>_. None), target_linux = True\<rparr>"

definition example_request :: "rstring list \<Rightarrow> ask_for_approval \<Rightarrow> exec_approval_request" where
  "example_request command approval =
     \<lparr>request_command = command, approval_policy = approval, profile_kind = Restricted, request_permissions_override = UseDefault,
      request_prefix_rule = None\<rparr>"

theorem skip_is_licensed_witness:
  "let req = example_request [lit ''git'', lit ''status''] OnRequest; c = [lit ''git'', lit ''status''] in
   create_exec_approval_requirement_for_command example_approval_env example_policy req = Some (Skip True None) \<and>
   request_deciding example_approval_env example_policy c \<noteq> {} \<and>
   (\<forall>r \<in> request_deciding example_approval_env example_policy c. rule_decision r = Allow)"
proof -
  let ?c = "[lit ''git'', lit ''status'']"
  let ?req = "example_request ?c OnRequest"
  have skip: "create_exec_approval_requirement_for_command example_approval_env example_policy ?req = Some (Skip True None)" by code_simp
  have "request_commands example_approval_env ?req = [?c]" by code_simp
  then have "?c \<in> set (request_commands example_approval_env ?req)" by simp
  then show ?thesis using skip_is_licensed [OF example_policy_ok skip] skip unfolding Let_def by blast
qed

text \<open>C6: a request always gets a requirement; a rule that forbids one of its commands forbids it; and approval is
  asked for only when the approval policy lets the user be asked for prompts of that kind.\<close>

theorem requirement_respects_policy:
  assumes "policy_ok p"
  shows "\<exists>requirement. create_exec_approval_requirement_for_command env p req = Some requirement \<and>
    ((\<exists>c \<in> set (request_commands env req). Forbidden \<in> rule_decision ` request_deciding env p c) \<longrightarrow>
       (\<exists>reason. requirement = RequirementForbidden reason)) \<and>
    (\<forall>reason am. requirement = NeedsApproval reason am \<longrightarrow>
       approval_policy req \<noteq> Never \<and>
       (\<forall>g. approval_policy req = Granular g \<longrightarrow> (if prompt_is_rule env p req then granular_rules g else sandbox_approval g)))"
proof -
  have forb: "Max (request_decision env p req ` set (request_commands env req)) = Forbidden"
    if r: "c \<in> set (request_commands env req)" "Forbidden \<in> rule_decision ` request_deciding env p c" for c
  proof (rule Max_decision_Forbidden)
    obtain r where "r \<in> request_deciding env p c" "rule_decision r = Forbidden" using r(2) by force
    then have "request_decision env p req c = Forbidden"
      using request_decision_rules [of r env p c req] decision_le(1) [of "request_decision env p req c"] by simp
    then show "Forbidden \<in> request_decision env p req ` set (request_commands env req)" using r(1) by force
  qed simp
  show ?thesis using assms
  proof (cases rule: requirement_cases [where env = env and req = req])
    case (prompt reason a)
    then show ?thesis using forb by (cases "approval_policy req") (auto split: if_splits)
  next
    case (skip b a)
    then show ?thesis using forb by auto
  qed auto
qed

theorem requirement_respects_policy_witness:
  "policy_ok example_policy \<and>
   (\<forall>reason am. create_exec_approval_requirement_for_command example_approval_env example_policy
      (example_request [lit ''git'', lit ''push''] Never) \<noteq> Some (NeedsApproval reason am))"
  using requirement_respects_policy [OF example_policy_ok, of example_approval_env "example_request [lit ''git'', lit ''push''] Never"]
    example_policy_ok by (auto simp: example_request_def)

text \<open>C8: when a request without a prefix rule of its own needs approval and an amendment is proposed, accepting
  the proposals, at most as often as it has commands that ask, leads to a policy under which it needs no approval.\<close>

theorem amendments_end_prompts:
  assumes "policy_ok p" and "appends_succeed io home" and "[] \<notin> set (request_commands env req)"
    and "request_prefix_rule req = None"
    and "create_exec_approval_requirement_for_command env p req = Some (NeedsApproval reason (Some a))"
  shows "\<exists>bypass am. create_exec_approval_requirement_for_command env
    (snd (accept_amendments io env home req (card (prompting env p req)) (s, p))) req = Some (Skip bypass am)"
using assms(1)
proof (cases rule: requirement_cases [where env = env and req = req])
  case (prompt reason' a')
  let ?D = "request_decision env p req ` set (request_commands env req)"
  have a: "Some a = (if snd (commands_for_exec_policy env (request_command req)) then None
      else try_derive_execpolicy_amendment_for_prompt_rules (request_matches env p req))"
    using prompt(1) prompt(4) [OF assms(4)] assms(5) by simp
  then have cx: "\<not> snd (commands_for_exec_policy env (request_command req))"
    and nr: "\<not> prompt_is_rule env p req"
    using request_matched(1) [OF assms(1), of env req Prompt]
    by (auto simp: try_derive_execpolicy_amendment_for_prompt_rules_def prompt_is_rule_def split: if_splits)
  have le: "request_decision env p req c \<le> Prompt" if "c \<in> set (request_commands env req)" for c
    using Max_ge [of ?D "request_decision env p req c"] that prompt(2) by simp
  have "only_heuristics_ask env p req"
    unfolding only_heuristics_ask_def
  proof (intro conjI ballI)
    fix c assume c: "c \<in> set (request_commands env req)"
    show "request_decision env p req c \<noteq> Forbidden" using le [OF c] by (auto simp: less_eq_decision_def)
    fix r assume r: "r \<in> request_deciding env p c"
    have "rule_decision r \<le> Prompt" using request_decision_rules [OF r, of req] le [OF c] by simp
    moreover have "rule_decision r \<noteq> Prompt" using nr c r by (force simp: prompt_is_rule_def)
    ultimately show "rule_decision r = Allow" by (cases "rule_decision r") (auto simp: less_eq_decision_def)
  qed (rule assms(1))
  then show ?thesis
    using accept_amendments_end [OF assms(2,3,4) cx, of p "card (prompting env p req)" s] prompt(3) nr by simp
qed (use assms(5) in auto)


definition total_policy_io :: "rstring policy_file_io" where
  "total_policy_io = mem_policy_io\<lparr>json_string := (\<lambda>t. Inr (lit ''\"'' @ filter (\<lambda>c. c \<ge> 32) t @ lit ''\"''))\<rparr>"

lemma total_policy_io_succeeds: "appends_succeed total_policy_io (lit ''/h'')"
proof -
  have tokens: "\<exists>ts. collect_results (json_string total_policy_io) a = Inr ts" for a
    by (induction a) (auto simp: total_policy_io_def bind_res_def)
  obtain dir where dir: "path_parent (default_policy_path (lit ''/h'')) = Some dir"
  proof -
    have "path_parent (default_policy_path (lit ''/h'')) \<noteq> None" by code_simp
    then show thesis using that by blast
  qed
  have "\<exists>s'. append_rule_line total_policy_io s (default_policy_path (lit ''/h'')) line = (s', Inr ())" for s line
    using dir by (simp add: append_rule_line_def append_locked_line_def total_policy_io_def mem_policy_io_def)
  then show ?thesis using tokens unfolding appends_succeed_def blocking_append_allow_prefix_rule_def
    by (metis (no_types, lifting) old.sum.simps(6))
qed

theorem amendments_end_prompts_witness:
  "let req = example_request [lit ''bash'', lit ''-lc'', lit ''make && cargo test''] UnlessTrusted in
   create_exec_approval_requirement_for_command example_approval_env empty_policy req = Some (NeedsApproval None (Some [lit ''make''])) \<and>
   (\<exists>bypass am. create_exec_approval_requirement_for_command example_approval_env
     (snd (accept_amendments total_policy_io example_approval_env (lit ''/h'') req
        (card (prompting example_approval_env empty_policy req)) ([], empty_policy))) req = Some (Skip bypass am))"
proof -
  let ?req = "example_request [lit ''bash'', lit ''-lc'', lit ''make && cargo test''] UnlessTrusted"
  have ok: "policy_ok empty_policy" by (simp add: policy_ok_def rule_map_ok_def empty_policy_def)
  have ask: "create_exec_approval_requirement_for_command example_approval_env empty_policy ?req = Some (NeedsApproval None (Some [lit ''make'']))"
    by code_simp
  have ne: "[] \<notin> set (request_commands example_approval_env ?req)" by code_simp
  have pr: "request_prefix_rule ?req = None" by (simp add: example_request_def)
  show ?thesis unfolding Let_def
    using ask amendments_end_prompts [OF ok total_policy_io_succeeds ne pr ask, of "[]"] by blast
qed

end
