(* ===== verification/Patch_Safety.thy ===== *)
theory Patch_Safety
  imports Patch_Invocation Sandbox_Roots Exec_Approval
begin

text \<open>
  Whether a patch may be applied without asking (\<^verbatim>\<open>core/src/safety.rs\<close> and \<^verbatim>\<open>core/src/apply_patch.rs\<close>), and the
  permission profiles of a session (\<^verbatim>\<open>protocol/src/models.rs\<close>).  The changes of a verified patch are given in
  the order in which its hash map is iterated; the host path of a URI is a parameter, and so is the
  operating system.

  The lemmas show when a patch is approved automatically, that the verified changes name every path the
  application touches, and that it touches no others.
\<close>

section \<open>Permission profiles\<close>

datatype managed_file_system_permissions =
    ManagedRestricted "file_system_sandbox_entry list" "nat option"
  | ManagedUnrestricted

datatype permission_profile =
    Managed managed_file_system_permissions network_sandbox_policy
  | Disabled
  | External network_sandbox_policy

datatype sandbox_enforcement = EnforcementManaged | EnforcementDisabled | EnforcementExternal

fun enforcement_from_legacy_sandbox_policy :: "sandbox_policy \<Rightarrow> sandbox_enforcement" where
  "enforcement_from_legacy_sandbox_policy DangerFullAccess = EnforcementDisabled"
| "enforcement_from_legacy_sandbox_policy (ExternalSandboxPolicy _) = EnforcementExternal"
| "enforcement_from_legacy_sandbox_policy (ReadOnly _) = EnforcementManaged"
| "enforcement_from_legacy_sandbox_policy (WorkspaceWrite _ _ _ _) = EnforcementManaged"

text \<open>\<open>NonZeroUsize::new\<close>.\<close>

definition non_zero :: "nat \<Rightarrow> nat option" where
  "non_zero n = (if n = 0 then None else Some n)"

text \<open>None is the unreachable case of an external policy.\<close>

definition from_sandbox_policy :: "file_system_sandbox_policy \<Rightarrow> managed_file_system_permissions option" where
  "from_sandbox_policy pol =
     (case policy_kind pol of
        Restricted \<Rightarrow> Some (ManagedRestricted (policy_entries pol) (Option.bind (glob_scan_max_depth pol) non_zero))
      | Unrestricted \<Rightarrow> Some ManagedUnrestricted
      | ExternalSandbox \<Rightarrow> None)"

fun to_sandbox_policy :: "managed_file_system_permissions \<Rightarrow> file_system_sandbox_policy" where
  "to_sandbox_policy (ManagedRestricted es depth) =
     \<lparr>policy_kind = Restricted, glob_scan_max_depth = depth, policy_entries = es\<rparr>"
| "to_sandbox_policy ManagedUnrestricted = unrestricted"

definition from_runtime_permissions_with_enforcement ::
    "sandbox_enforcement \<Rightarrow> file_system_sandbox_policy \<Rightarrow> network_sandbox_policy \<Rightarrow> permission_profile option" where
  "from_runtime_permissions_with_enforcement enforcement pol network =
     (if policy_kind pol = ExternalSandbox then Some (External network)
      else if policy_kind pol = Unrestricted \<and> enforcement = EnforcementDisabled then Some Disabled
      else map_option (\<lambda>file_system. Managed file_system network) (from_sandbox_policy pol))"

definition from_runtime_permissions ::
    "file_system_sandbox_policy \<Rightarrow> network_sandbox_policy \<Rightarrow> permission_profile option" where
  "from_runtime_permissions pol network =
     from_runtime_permissions_with_enforcement
       (case policy_kind pol of ExternalSandbox \<Rightarrow> EnforcementExternal | _ \<Rightarrow> EnforcementManaged) pol network"

definition profile_from_legacy_sandbox_policy_for_cwd :: "sandbox_env \<Rightarrow> sandbox_policy \<Rightarrow> rstring \<Rightarrow> permission_profile option" where
  "profile_from_legacy_sandbox_policy_for_cwd env p cwd =
     from_runtime_permissions_with_enforcement (enforcement_from_legacy_sandbox_policy p)
       (from_legacy_sandbox_policy_for_cwd env p cwd) (network_from_legacy p)"

fun enforcement :: "permission_profile \<Rightarrow> sandbox_enforcement" where
  "enforcement (Managed _ _) = EnforcementManaged"
| "enforcement Disabled = EnforcementDisabled"
| "enforcement (External _) = EnforcementExternal"

fun profile_file_system_sandbox_policy :: "permission_profile \<Rightarrow> file_system_sandbox_policy" where
  "profile_file_system_sandbox_policy (Managed file_system _) = to_sandbox_policy file_system"
| "profile_file_system_sandbox_policy Disabled = unrestricted"
| "profile_file_system_sandbox_policy (External _) = external_sandbox"

fun profile_network_sandbox_policy :: "permission_profile \<Rightarrow> network_sandbox_policy" where
  "profile_network_sandbox_policy (Managed _ network) = network"
| "profile_network_sandbox_policy (External network) = network"
| "profile_network_sandbox_policy Disabled = NetworkEnabled"

fun profile_to_legacy_sandbox_policy :: "sandbox_env \<Rightarrow> permission_profile \<Rightarrow> rstring \<Rightarrow> io_error + sandbox_policy" where
  "profile_to_legacy_sandbox_policy env (Managed file_system network) cwd =
     to_legacy_sandbox_policy env (to_sandbox_policy file_system) network cwd"
| "profile_to_legacy_sandbox_policy env Disabled cwd = Inr DangerFullAccess"
| "profile_to_legacy_sandbox_policy env (External network) cwd =
     Inr (ExternalSandboxPolicy (if network_is_enabled network then AccessEnabled else AccessRestricted))"

section \<open>The safety of a patch\<close>

datatype target_os = Macos | LinuxOs | WindowsOs | OtherOs

datatype sandbox_type = NoSandbox | MacosSeatbelt | LinuxSeccomp | WindowsRestrictedToken

definition get_platform_sandbox :: "target_os \<Rightarrow> bool \<Rightarrow> sandbox_type option" where
  "get_platform_sandbox os windows_sandbox_enabled =
     (case os of
        Macos \<Rightarrow> Some MacosSeatbelt
      | LinuxOs \<Rightarrow> Some LinuxSeccomp
      | WindowsOs \<Rightarrow> if windows_sandbox_enabled then Some WindowsRestrictedToken else None
      | OtherOs \<Rightarrow> None)"

datatype windows_sandbox_level = LevelDisabled | LevelRestrictedToken | LevelElevated

datatype safety_check =
    AutoApprove (approve_sandbox: sandbox_type) (user_explicitly_approved: bool)
  | AskUser
  | Reject (reject_reason: rstring)

definition PATCH_REJECTED_OUTSIDE_PROJECT_REASON :: rstring where
  "PATCH_REJECTED_OUTSIDE_PROJECT_REASON = lit ''writing outside of the project; rejected by user approval settings''"

definition PATCH_REJECTED_READ_ONLY_REASON :: rstring where
  "PATCH_REJECTED_READ_ONLY_REASON = lit ''writing is blocked by read-only sandbox; rejected by user approval settings''"

record 'u patch_env =
  patch_sandbox :: sandbox_env
  to_abs_path :: "'u \<Rightarrow> rstring option"
  patch_os :: target_os

definition patch_rejection_reason :: "'u patch_env \<Rightarrow> permission_profile \<Rightarrow> file_system_sandbox_policy \<Rightarrow> 'u \<Rightarrow> rstring" where
  "patch_rejection_reason env profile pol cwd =
     (let has_no_writable_roots =
            (case to_abs_path env cwd of
               Some cwd \<Rightarrow> get_writable_roots_with_cwd (patch_sandbox env) pol cwd = []
             | None \<Rightarrow> False)
      in case profile of
           Managed _ _ \<Rightarrow>
             if \<not> has_full_disk_write_access pol \<and> has_no_writable_roots then PATCH_REJECTED_READ_ONLY_REASON
             else PATCH_REJECTED_OUTSIDE_PROJECT_REASON
         | _ \<Rightarrow> PATCH_REJECTED_OUTSIDE_PROJECT_REASON)"

definition normalize_patch_path :: "rstring \<Rightarrow> rstring" where
  "normalize_patch_path path =
     (let (root, names) = fold (\<lambda>c b. push_component b c) (components path) (False, [])
      in (if root then [slash] else []) @ join [slash] names)"

definition is_uri_writable :: "'u patch_env \<Rightarrow> file_system_sandbox_policy \<Rightarrow> rstring \<Rightarrow> 'u \<Rightarrow> bool" where
  "is_uri_writable env pol native_cwd u \<longleftrightarrow>
     (case to_abs_path env u of
        None \<Rightarrow> False
      | Some path \<Rightarrow> can_write_path_with_cwd (patch_sandbox env) pol (normalize_patch_path path) native_cwd)"

definition is_change_writable ::
    "'u patch_env \<Rightarrow> file_system_sandbox_policy \<Rightarrow> rstring \<Rightarrow> 'u \<Rightarrow> 'u apply_patch_file_change \<Rightarrow> bool" where
  "is_change_writable env pol native_cwd u change \<longleftrightarrow>
     is_uri_writable env pol native_cwd u \<and>
     (case change of
        Update _ (Some dest) _ \<Rightarrow> is_uri_writable env pol native_cwd dest
      | _ \<Rightarrow> True)"

definition is_write_patch_constrained_to_writable_paths ::
    "'u patch_env \<Rightarrow> ('u \<times> 'u apply_patch_file_change) list \<Rightarrow> file_system_sandbox_policy \<Rightarrow> 'u \<Rightarrow> bool" where
  "is_write_patch_constrained_to_writable_paths env chs pol cwd \<longleftrightarrow>
     (if has_full_disk_write_access pol then True
      else case to_abs_path env cwd of
        None \<Rightarrow> False
      | Some native_cwd \<Rightarrow> \<forall>(u, change) \<in> set chs. is_change_writable env pol native_cwd u change)"

definition assess_patch_safety ::
    "'u patch_env \<Rightarrow> ('u \<times> 'u apply_patch_file_change) list \<Rightarrow> ask_for_approval \<Rightarrow> permission_profile \<Rightarrow>
     file_system_sandbox_policy \<Rightarrow> 'u \<Rightarrow> windows_sandbox_level \<Rightarrow> safety_check" where
  "assess_patch_safety env chs policy profile pol cwd level =
     (if chs = [] then Reject (lit ''empty patch'')
      else if policy = UnlessTrusted then AskUser
      else
        let rejects_sandbox_approval =
              (case policy of Never \<Rightarrow> True | Granular granular_config \<Rightarrow> \<not> sandbox_approval granular_config | _ \<Rightarrow> False)
        in if is_write_patch_constrained_to_writable_paths env chs pol cwd
           then (case profile of
                   Managed _ _ \<Rightarrow>
                     (case get_platform_sandbox (patch_os env) (level \<noteq> LevelDisabled) of
                        Some sandbox_type \<Rightarrow> AutoApprove sandbox_type False
                      | None \<Rightarrow>
                          if rejects_sandbox_approval then Reject (patch_rejection_reason env profile pol cwd) else AskUser)
                 | _ \<Rightarrow> AutoApprove NoSandbox False)
           else if rejects_sandbox_approval then Reject (patch_rejection_reason env profile pol cwd)
           else AskUser)"

section \<open>Delegating a patch\<close>

datatype ('u) internal_apply_patch_invocation =
    Output rstring
  | DelegateToRuntime "('u \<times> 'u apply_patch_file_change) list" bool exec_approval_requirement

definition delegate_apply_patch ::
    "'u patch_env \<Rightarrow> ask_for_approval \<Rightarrow> permission_profile \<Rightarrow> windows_sandbox_level \<Rightarrow> file_system_sandbox_policy \<Rightarrow>
     ('u \<times> 'u apply_patch_file_change) list \<Rightarrow> 'u \<Rightarrow> 'u internal_apply_patch_invocation" where
  "delegate_apply_patch env policy profile level pol chs cwd =
     (case assess_patch_safety env chs policy profile pol cwd level of
        AutoApprove _ explicitly \<Rightarrow> DelegateToRuntime chs (\<not> explicitly) (Skip False None)
      | AskUser \<Rightarrow> DelegateToRuntime chs False (NeedsApproval None None)
      | Reject reason \<Rightarrow> Output (lit ''patch rejected: '' @ reason))"

section \<open>When a patch is approved automatically\<close>

lemma auto_approved:
  assumes "assess_patch_safety env chs policy profile pol cwd level = AutoApprove t b"
  shows "chs \<noteq> []" "policy \<noteq> UnlessTrusted" "is_write_patch_constrained_to_writable_paths env chs pol cwd"
    and "(case profile of Managed _ _ \<Rightarrow> get_platform_sandbox (patch_os env) (level \<noteq> LevelDisabled) = Some t | _ \<Rightarrow> t = NoSandbox)"
  using assms by (auto simp: assess_patch_safety_def Let_def split: if_splits permission_profile.splits option.splits)

section \<open>The files that a patch touches\<close>

lemma verify_hunk_paths:
  "verify_hunk ops fs s cwd h = Inr (u, c) \<Longrightarrow> change_paths fs u c = set (hunk_paths fs cwd h) \<and> uri_join fs cwd (hunk_source_path h) = Inr u"
  by (cases h) (auto simp: verify_hunk_def hunk_paths_def bind_res_def join_path_def split: sum.splits option.splits)

lemma verify_loop_other:
  "verify_loop ops fs s cwd hs m = Inr m' \<Longrightarrow> to_path_buf fs u \<notin> set (touched fs cwd hs) \<Longrightarrow> m' u = m u"
proof (induction hs arbitrary: m)
  case (Cons h hs)
  obtain v c where h: "verify_hunk ops fs s cwd h = Inr (v, c)" "verify_loop ops fs s cwd hs (m(v \<mapsto> c)) = Inr m'"
    using Cons.prems(1) by (auto simp: result_iff)
  have "to_path_buf fs v \<in> set (hunk_paths fs cwd h)" using verify_hunk_paths [OF h(1)] by (auto simp: hunk_paths_def)
  then have "v \<noteq> u" using Cons.prems(2) by (auto simp: touched_def)
  then show ?case using Cons.IH [OF h(2)] Cons.prems(2) by (simp add: touched_def)
qed simp

text \<open>If no path is touched twice, the verified changes show every path that the hunks touch.\<close>

lemma verified_changes_complete:
  "verify_loop ops fs s cwd hs m = Inr m' \<Longrightarrow> distinct (touched fs cwd hs) \<Longrightarrow> p \<in> set (touched fs cwd hs) \<Longrightarrow>
     \<exists>u c. m' u = Some c \<and> p \<in> change_paths fs u c"
proof (induction hs arbitrary: m)
  case (Cons h hs)
  obtain v c where h: "verify_hunk ops fs s cwd h = Inr (v, c)" "verify_loop ops fs s cwd hs (m(v \<mapsto> c)) = Inr m'"
    using Cons.prems(1) by (auto simp: result_iff)
  have t: "touched fs cwd (h # hs) = hunk_paths fs cwd h @ touched fs cwd hs" by (simp add: touched_def)
  show ?case
  proof (cases "p \<in> set (touched fs cwd hs)")
    case True
    then show ?thesis using Cons.IH [OF h(2)] Cons.prems(2) t by simp
  next
    case False
    have v: "to_path_buf fs v \<in> set (hunk_paths fs cwd h)" using verify_hunk_paths [OF h(1)] by (auto simp: hunk_paths_def)
    then have "m' v = Some c" using verify_loop_other [OF h(2), of v] Cons.prems(2) t by auto
    moreover have "p \<in> change_paths fs v c" using False Cons.prems(3) t verify_hunk_paths [OF h(1)] by auto
    ultimately show ?thesis by blast
  qed
qed (simp add: touched_def)

lemma hunk_files_frame: "hunk_files fs cwd h v = Some v' \<Longrightarrow> p \<notin> set (hunk_paths fs cwd h) \<Longrightarrow> v' p = v p"
  by (cases h) (auto simp: hunk_paths_def split: sum.splits option.splits if_splits)

lemma hunks_files_frame: "hunks_files fs cwd hs v = (v', complete) \<Longrightarrow> p \<notin> set (touched fs cwd hs) \<Longrightarrow> v' p = v p"
proof (induction hs arbitrary: v)
  case (Cons h hs)
  show ?case
  proof (cases "hunk_files fs cwd h v")
    case (Some w)
    then show ?thesis using Cons hunk_files_frame [OF Some, of p] by (simp add: touched_def)
  qed (use Cons.prems in simp)
qed simp

lemma apply_patch_frame:
  assumes "regular_files fs view" and "parse_patch patch = Inr args" and "arg_hunks args \<noteq> []"
    and "apply_patch fs wr cwd patch s stdout stderr = (s', stdout', stderr', r)"
    and "p \<notin> set (touched fs cwd (arg_hunks args))"
  shows "view s' p = view s p"
proof -
  obtain s1 d1 r1 where h: "apply_hunks_to_files fs cwd (arg_hunks args) s empty_delta = (s1, d1, r1)" by (metis prod_cases3)
  obtain v complete where v: "hunks_files fs cwd (arg_hunks args) (view s) = (v, complete)" by fastforce
  have "view s1 = v" using hunks_refined [OF assms(1,3) h v] by blast
  moreover have "s' = s1"
    using assms(2,4) h by (auto simp: apply_patch_def apply_hunks_def split: prod.splits sum.splits)
  ultimately show ?thesis using hunks_files_frame [OF v assms(5)] by simp
qed

section \<open>An unchecked rename\<close>

definition example_patch_env :: "rstring patch_env" where
  "example_patch_env = \<lparr>patch_sandbox = example_sandbox, to_abs_path = (\<lambda>u. Some (if u = [] then [slash] else u)), patch_os = LinuxOs\<rparr>"

definition workspace_only :: file_system_sandbox_policy where
  "workspace_only = restricted [entry (Special Root) Read, entry (Path (lit ''/w'')) Write]"

definition rename_and_add :: "hunk list" where
  "rename_and_add =
     [UpdateFile (lit ''w/a'') (Some (lit ''etc/x''))
        [\<lparr>change_context = None, old_lines = [lit ''a''], new_lines = [lit ''b''], is_end_of_file = False\<rparr>],
      AddFile (lit ''w/a'') (lit ''c'')]"

definition rename_state :: mem_state where
  "rename_state = \<lparr>mem_dirs = [[], lit ''/w'', lit ''/etc''], mem_files = [lit ''/w/a'' \<mapsto> utf8_bytes (lit ''a'' @ [newline])]\<rparr>"

text \<open>A patch that renames a file out of the workspace and then adds the file again: the map of its changes
  keeps the addition only, which is writable, so that the patch is approved automatically; applying it
  writes the file outside of the workspace, for which a rename alone is not approved.\<close>

lemma rename_outside_approved:
  "verify_loop example_ops mem_fs rename_state [] rename_and_add Map.empty = Inr [lit ''/w/a'' \<mapsto> Add (lit ''c'')] \<and>
   assess_patch_safety example_patch_env [(lit ''/w/a'', Add (lit ''c''))] OnRequest (Managed ManagedUnrestricted NetworkEnabled)
     workspace_only [] LevelDisabled = AutoApprove LinuxSeccomp False \<and>
   mem_files (fst (apply_hunks_to_files mem_fs [] rename_and_add rename_state empty_delta)) (lit ''/etc/x'') =
     Some (utf8_bytes (lit ''b'' @ [newline])) \<and>
   \<not> is_uri_writable example_patch_env workspace_only [slash] (lit ''/etc/x'')"
proof (intro conjI)
  let ?h1 = "verify_hunk example_ops mem_fs rename_state [] (rename_and_add ! 0)"
  have h1: "case ?h1 of Inr (u, c) \<Rightarrow> u = lit ''/w/a'' | Inl _ \<Rightarrow> False" by code_simp
  then obtain c where h1: "?h1 = Inr (lit ''/w/a'', c)" by (auto simp del: lit_simps split: sum.splits)
  have h2: "verify_hunk example_ops mem_fs rename_state [] (rename_and_add ! 1) = Inr (lit ''/w/a'', Add (lit ''c''))" by code_simp
  have hs: "rename_and_add = [rename_and_add ! 0, rename_and_add ! 1]" by (simp add: rename_and_add_def)
  show "verify_loop example_ops mem_fs rename_state [] rename_and_add Map.empty = Inr [lit ''/w/a'' \<mapsto> Add (lit ''c'')]"
    by (subst hs) (simp only: verify_loop.simps h1 h2 bind_res_simps prod.case fun_upd_upd)
qed code_simp+

section \<open>A patch inside the workspace\<close>

definition safe_patch :: rstring where
  "safe_patch = join [newline]
     [lit ''*** Begin Patch'', lit ''*** Add File: b'', lit ''+x'', lit ''*** End Patch'']"

definition safe_args :: apply_patch_args where
  "safe_args = \<lparr>arg_patch = safe_patch, arg_hunks = [AddFile (lit ''b'') (lit ''x'' @ [newline])], arg_workdir = None,
     arg_environment_id = None\<rparr>"

lemma safe_patch_verified:
  "maybe_parse_apply_patch_verified example_ops mem_fs rename_state [lit ''apply_patch'', safe_patch] (lit ''/w'') =
     VerifiedBody \<lparr>action_changes = [lit ''/w/b'' \<mapsto> Add (lit ''x'' @ [newline])], action_patch = safe_patch, action_cwd = lit ''/w''\<rparr>"
proof -
  have p: "maybe_parse_apply_patch example_ops [lit ''apply_patch'', safe_patch] (lit ''/w'') = Body safe_args" by code_simp
  have s: "parse_shell_script example_ops [lit ''apply_patch'', safe_patch] (lit ''/w'') = None" by code_simp
  have h: "verify_hunk example_ops mem_fs rename_state (lit ''/w'') (AddFile (lit ''b'') (lit ''x'' @ [newline])) =
      Inr (lit ''/w/b'', Add (lit ''x'' @ [newline]))" by code_simp
  show ?thesis unfolding maybe_parse_apply_patch_verified_def p s
    by (simp del: lit_simps add: verify_apply_patch_args_def try_verify_apply_patch_args_def safe_args_def h)
qed

end
