(* ===== verification/Truncate.thy ===== *)
theory Truncate
  imports Prelude
begin

text \<open>
  Truncation of text in the middle, \<^verbatim>\<open>utils/string/src/truncate.rs\<close>, and the truncation of tool
  output under a policy, \<^verbatim>\<open>utils/output-truncation/src/lib.rs\<close> with \<open>TruncationPolicy\<close> of
  \<^verbatim>\<open>protocol/src/protocol.rs\<close>.  Slicing a string at a byte offset panics in Rust when the offset is
  not on a char boundary: the slices return \<open>None\<close> there, and the properties show that they never do.
\<close>

section \<open>Slices at byte offsets\<close>

fun slice_to :: "nat \<Rightarrow> rstring \<Rightarrow> rstring option" where
  "slice_to n [] = (if n = 0 then Some [] else None)"
| "slice_to n (c # s) =
     (if n = 0 then Some []
      else if len_utf8 c \<le> n then map_option (Cons c) (slice_to (n - len_utf8 c) s) else None)"

fun slice_from :: "nat \<Rightarrow> rstring \<Rightarrow> rstring option" where
  "slice_from n [] = (if n = 0 then Some [] else None)"
| "slice_from n (c # s) =
     (if n = 0 then Some (c # s)
      else if len_utf8 c \<le> n then slice_from (n - len_utf8 c) s else None)"

section \<open>Truncation of a string\<close>

definition APPROX_BYTES_PER_TOKEN :: nat where
  "APPROX_BYTES_PER_TOKEN = 4"

definition approx_token_count :: "rstring \<Rightarrow> nat" where
  "approx_token_count s =
     sat_add (str_len s) (sat_sub APPROX_BYTES_PER_TOKEN 1) div APPROX_BYTES_PER_TOKEN"

definition approx_bytes_for_tokens :: "nat \<Rightarrow> nat" where
  "approx_bytes_for_tokens tokens = sat_mul tokens APPROX_BYTES_PER_TOKEN"

definition approx_tokens_from_byte_count :: "nat \<Rightarrow> nat" where
  "approx_tokens_from_byte_count bytes =
     sat_add bytes (sat_sub APPROX_BYTES_PER_TOKEN 1) div APPROX_BYTES_PER_TOKEN"

definition split_budget :: "nat \<Rightarrow> nat \<times> nat" where
  "split_budget budget = (let left = budget div 2 in (left, budget - left))"

record split_state =
  sp_prefix_end :: nat
  sp_suffix_start :: nat
  sp_removed_chars :: nat
  sp_suffix_started :: bool

definition split_char_step :: "nat \<Rightarrow> nat \<Rightarrow> nat \<Rightarrow> rchar \<Rightarrow> split_state \<Rightarrow> split_state" where
  "split_char_step beginning_bytes tail_start_target idx ch st =
     (let char_end = idx + len_utf8 ch in
      if char_end \<le> beginning_bytes then st\<lparr>sp_prefix_end := char_end\<rparr>
      else if idx \<ge> tail_start_target then
        (if \<not> sp_suffix_started st then st\<lparr>sp_suffix_start := idx, sp_suffix_started := True\<rparr> else st)
      else st\<lparr>sp_removed_chars := sat_add (sp_removed_chars st) 1\<rparr>)"

text \<open>The loop over \<open>char_indices\<close>.\<close>

fun split_loop :: "nat \<Rightarrow> nat \<Rightarrow> nat \<Rightarrow> rstring \<Rightarrow> split_state \<Rightarrow> split_state" where
  "split_loop b t idx [] st = st"
| "split_loop b t idx (ch # s) st =
     split_loop b t (idx + len_utf8 ch) s (split_char_step b t idx ch st)"

definition split_string :: "rstring \<Rightarrow> nat \<Rightarrow> nat \<Rightarrow> (nat \<times> rstring \<times> rstring) option" where
  "split_string s beginning_bytes end_bytes =
     (if s = [] then Some (0, [], [])
      else
        let len = str_len s;
            tail_start_target = sat_sub len end_bytes;
            st = split_loop beginning_bytes tail_start_target 0 s
                   \<lparr>sp_prefix_end = 0, sp_suffix_start = len, sp_removed_chars = 0, sp_suffix_started = False\<rparr>;
            suffix = (if sp_suffix_start st < sp_prefix_end st then sp_prefix_end st else sp_suffix_start st)
        in case (slice_to (sp_prefix_end st) s, slice_from suffix s) of
             (Some before, Some after) \<Rightarrow> Some (sp_removed_chars st, before, after)
           | _ \<Rightarrow> None)"

definition format_truncation_marker :: "bool \<Rightarrow> nat \<Rightarrow> rstring" where
  "format_truncation_marker use_tokens removed_count =
     [8230] @ fmt_nat removed_count @
     (if use_tokens then lit '' tokens truncated'' else lit '' chars truncated'') @ [8230]"

definition removed_units :: "bool \<Rightarrow> nat \<Rightarrow> nat \<Rightarrow> nat" where
  "removed_units use_tokens removed_bytes removed_chars =
     (if use_tokens then approx_tokens_from_byte_count removed_bytes else removed_chars)"

definition assemble_truncated_output :: "rstring \<Rightarrow> rstring \<Rightarrow> rstring \<Rightarrow> rstring" where
  "assemble_truncated_output before after marker = before @ marker @ after"

definition truncate_with_byte_estimate :: "rstring \<Rightarrow> nat \<Rightarrow> bool \<Rightarrow> rstring option" where
  "truncate_with_byte_estimate s max_bytes use_tokens =
     (if s = [] then Some []
      else
        let total_chars = length s in
        if max_bytes = 0 then
          Some (format_truncation_marker use_tokens (removed_units use_tokens (str_len s) total_chars))
        else if str_len s \<le> max_bytes then Some s
        else
          let total_bytes = str_len s;
              (left_budget, right_budget) = split_budget max_bytes
          in map_option
               (\<lambda>(removed_chars, left, right).
                  assemble_truncated_output left right
                    (format_truncation_marker use_tokens
                       (removed_units use_tokens (sat_sub total_bytes max_bytes) removed_chars)))
               (split_string s left_budget right_budget))"

definition truncate_middle_chars :: "rstring \<Rightarrow> nat \<Rightarrow> rstring option" where
  "truncate_middle_chars s max_bytes = truncate_with_byte_estimate s max_bytes False"

definition truncate_middle_with_token_budget :: "rstring \<Rightarrow> nat \<Rightarrow> (rstring \<times> nat option) option" where
  "truncate_middle_with_token_budget s max_tokens =
     (if s = [] then Some ([], None)
      else if max_tokens > 0 \<and> str_len s \<le> approx_bytes_for_tokens max_tokens then Some (s, None)
      else map_option
        (\<lambda>truncated.
           let total_tokens = approx_token_count s
           in if truncated = s then (truncated, None) else (truncated, Some total_tokens))
        (truncate_with_byte_estimate s (approx_bytes_for_tokens max_tokens) True))"

section \<open>Truncation under a policy\<close>

datatype truncation_policy = Bytes nat | Tokens nat

fun token_budget :: "truncation_policy \<Rightarrow> nat" where
  "token_budget (Bytes bytes) = approx_tokens_from_byte_count bytes"
| "token_budget (Tokens tokens) = tokens"

fun byte_budget :: "truncation_policy \<Rightarrow> nat" where
  "byte_budget (Bytes bytes) = bytes"
| "byte_budget (Tokens tokens) = approx_bytes_for_tokens tokens"

datatype image_detail = Auto | Low | High | Original

datatype function_call_output_content_item =
    InputText rstring
  | InputImage rstring "image_detail option"
  | EncryptedContent rstring

fun truncate_text :: "rstring \<Rightarrow> truncation_policy \<Rightarrow> rstring option" where
  "truncate_text content (Bytes bytes) = truncate_middle_chars content bytes"
| "truncate_text content (Tokens tokens) =
     map_option fst (truncate_middle_with_token_budget content tokens)"

definition formatted_truncate_text :: "rstring \<Rightarrow> truncation_policy \<Rightarrow> rstring option" where
  "formatted_truncate_text content policy =
     (if str_len content \<le> byte_budget policy then Some content
      else
        let original_token_count = approx_token_count content;
            total_lines = length (lines content)
        in map_option
             (\<lambda>result. lit ''Warning: truncated output (original token count: '' @
                fmt_nat original_token_count @ lit '')'' @ [newline] @ lit ''Total output lines: '' @
                fmt_nat total_lines @ [newline, newline] @ result)
             (truncate_text content policy))"

fun item_text :: "function_call_output_content_item \<Rightarrow> rstring option" where
  "item_text (InputText t) = Some t"
| "item_text _ = None"

text \<open>The loop that joins the text segments with line feeds: no line feed while nothing was added.\<close>

definition combine_segments :: "rstring list \<Rightarrow> rstring" where
  "combine_segments segs =
     foldl (\<lambda>combined t. (if combined \<noteq> [] then combined @ [newline] else combined) @ t) [] segs"

definition formatted_truncate_text_content_items_with_policy ::
    "function_call_output_content_item list \<Rightarrow> truncation_policy \<Rightarrow>
     (function_call_output_content_item list \<times> nat option) option" where
  "formatted_truncate_text_content_items_with_policy items policy =
     (let text_segments = List.map_filter item_text items in
      if text_segments = [] then Some (items, None)
      else
        let combined = combine_segments text_segments in
        if str_len combined \<le> byte_budget policy then Some (items, None)
        else map_option
          (\<lambda>t. (InputText t # filter (\<lambda>item. item_text item = None) items,
                Some (approx_token_count combined)))
          (formatted_truncate_text combined policy))"

text \<open>The cost of a text, and the policy with another budget, as the two \<open>match policy\<close>
  expressions of the loop.\<close>

fun text_cost :: "truncation_policy \<Rightarrow> rstring \<Rightarrow> nat" where
  "text_cost (Bytes _) t = str_len t"
| "text_cost (Tokens _) t = approx_token_count t"

fun snippet_policy :: "truncation_policy \<Rightarrow> nat \<Rightarrow> truncation_policy" where
  "snippet_policy (Bytes _) n = Bytes n"
| "snippet_policy (Tokens _) n = Tokens n"

fun initial_budget :: "truncation_policy \<Rightarrow> nat" where
  "initial_budget (Bytes b) = byte_budget (Bytes b)"
| "initial_budget (Tokens t) = token_budget (Tokens t)"

fun truncate_items_loop :: "truncation_policy \<Rightarrow> function_call_output_content_item list \<Rightarrow>
    function_call_output_content_item list \<Rightarrow> nat \<Rightarrow> nat \<Rightarrow>
    (function_call_output_content_item list \<times> nat) option" where
  "truncate_items_loop policy [] out remaining_budget omitted = Some (out, omitted)"
| "truncate_items_loop policy (InputText t # items) out remaining_budget omitted =
     (if remaining_budget = 0 then truncate_items_loop policy items out remaining_budget (omitted + 1)
      else
        let cost = text_cost policy t in
        if cost \<le> remaining_budget
        then truncate_items_loop policy items (out @ [InputText t]) (sat_sub remaining_budget cost) omitted
        else
          case truncate_text t (snippet_policy policy remaining_budget) of
            None \<Rightarrow> None
          | Some snippet \<Rightarrow>
              if snippet = [] then truncate_items_loop policy items out 0 (omitted + 1)
              else truncate_items_loop policy items (out @ [InputText snippet]) 0 omitted)"
| "truncate_items_loop policy (item # items) out remaining_budget omitted =
     truncate_items_loop policy items (out @ [item]) remaining_budget omitted"

definition truncate_function_output_items_with_policy ::
    "function_call_output_content_item list \<Rightarrow> truncation_policy \<Rightarrow>
     function_call_output_content_item list option" where
  "truncate_function_output_items_with_policy items policy =
     map_option
       (\<lambda>(out, omitted).
          if omitted > 0
          then out @ [InputText (lit ''[omitted '' @ fmt_nat omitted @ lit '' text items ...]'')]
          else out)
       (truncate_items_loop policy items [] (initial_budget policy) 0)"

definition i64_max :: int where
  "i64_max = 2 ^ 63 - 1"

definition approx_tokens_from_byte_count_i64 :: "int \<Rightarrow> int" where
  "approx_tokens_from_byte_count_i64 bytes =
     (if bytes \<le> 0 then 0
      else
        let bytes = (if bytes \<le> int usize_max then nat bytes else usize_max);
            tokens = int (approx_tokens_from_byte_count bytes)
        in if tokens \<le> i64_max then tokens else i64_max)"

section \<open>The split loop\<close>

lemma slice_0 [simp]: "slice_to 0 s = Some []" "slice_from 0 s = Some s"
  by (cases s; simp)+

lemma slice_to_prefix: "slice_to (str_len u) (u @ v) = Some u"
  by (induction u) simp_all

lemma slice_from_prefix: "slice_from (str_len u) (u @ v) = Some v"
  by (induction u) simp_all

lemma split_loop_append:
  "split_loop b t idx (u @ v) st = split_loop b t (idx + str_len u) v (split_loop b t idx u st)"
  by (induction u arbitrary: idx st) (simp_all add: add.assoc)

lemma split_loop_prefix:
  "idx + str_len u \<le> b \<Longrightarrow>
     split_loop b t idx u st = (if u = [] then st else st\<lparr>sp_prefix_end := idx + str_len u\<rparr>)"
  by (induction u arbitrary: idx st) (auto simp: split_char_step_def add.assoc)

lemma split_loop_removed:
  assumes "\<forall>u c v. s = u @ c # v \<longrightarrow> idx + str_len u < t \<and> b < idx + str_len u + len_utf8 c"
    and "sp_removed_chars st \<le> usize_max"
  shows "split_loop b t idx s st =
    st\<lparr>sp_removed_chars := min (sp_removed_chars st + length s) usize_max\<rparr>"
  using assms
proof (induction s arbitrary: idx st)
  case (Cons c s)
  have "idx < t \<and> b < idx + len_utf8 c" using Cons.prems(1) by force
  then have step: "split_char_step b t idx c st = st\<lparr>sp_removed_chars := sat_add (sp_removed_chars st) 1\<rparr>"
    by (simp add: split_char_step_def)
  have "\<forall>u d v. s = u @ d # v \<longrightarrow> idx + len_utf8 c + str_len u < t \<and>
      b < idx + len_utf8 c + str_len u + len_utf8 d"
    using Cons.prems(1) by (metis append_Cons add.assoc str_len_simps(2))
  from Cons.IH [OF this] Cons.prems(2) show ?case
    by (simp add: step sat_add_def)
qed (simp add: min_def)

lemma split_loop_suffix:
  assumes "t \<le> idx" and "s = [] \<or> b < idx + len_utf8 (hd s)"
  shows "split_loop b t idx s st =
    (if s = [] \<or> sp_suffix_started st then st
     else st\<lparr>sp_suffix_start := idx, sp_suffix_started := True\<rparr>)"
  using assms
proof (induction s arbitrary: idx st)
  case (Cons c s)
  then have "split_char_step b t idx c st = (if sp_suffix_started st then st
      else st\<lparr>sp_suffix_start := idx, sp_suffix_started := True\<rparr>)"
    by (simp add: split_char_step_def)
  moreover have "t \<le> idx + len_utf8 c" "s = [] \<or> b < idx + len_utf8 c + len_utf8 (hd s)"
    using Cons.prems by auto
  ultimately show ?case by (simp add: Cons.IH)
qed simp

text \<open>The parts of a string: the longest beginning within \<open>b\<close> bytes, then the chars that start before
  \<open>t\<close>.\<close>

lemma prefix_parts:
  obtains u v where "s = u @ v" and "str_len u \<le> b" and "v = [] \<or> b < str_len u + len_utf8 (hd v)"
proof (induction s arbitrary: b thesis)
  case (Cons c s)
  show ?case
  proof (cases "len_utf8 c \<le> b")
    case True
    obtain u v where "s = u @ v" "str_len u \<le> b - len_utf8 c"
      "v = [] \<or> b - len_utf8 c < str_len u + len_utf8 (hd v)" by (rule Cons.IH)
    then show ?thesis using True by (intro Cons.prems [of "c # u" v]) auto
  next
    case False
    then show ?thesis by (intro Cons.prems [of "[]" "c # s"]) auto
  qed
qed simp

lemma middle_parts:
  obtains u v where "s = u @ v" and "u = [] \<or> idx + str_len (butlast u) < t" and "v = [] \<or> t \<le> idx + str_len u"
proof (induction s arbitrary: idx thesis)
  case (Cons c s)
  show ?case
  proof (cases "idx < t")
    case True
    obtain u v where uv: "s = u @ v" "u = [] \<or> idx + len_utf8 c + str_len (butlast u) < t"
      "v = [] \<or> t \<le> idx + len_utf8 c + str_len u" by (rule Cons.IH)
    then show ?thesis using True by (intro Cons.prems [of "c # u" v]) auto
  next
    case False
    then show ?thesis by (intro Cons.prems [of "[]" "c # s"]) auto
  qed
qed simp

text \<open>The state after the loop over the three parts.\<close>

lemma split_loop_parts:
  assumes "str_len left \<le> b" and "mid \<noteq> []" and hd: "b < str_len left + len_utf8 (hd mid)"
    and mid: "str_len left + str_len (butlast mid) < t"
    and right: "right = [] \<or> t \<le> str_len left + str_len mid"
    and len: "len = str_len (left @ mid @ right)"
    and st: "st = \<lparr>sp_prefix_end = 0, sp_suffix_start = len, sp_removed_chars = 0, sp_suffix_started = False\<rparr>"
  shows "split_loop b t 0 (left @ mid @ right) st =
    \<lparr>sp_prefix_end = str_len left, sp_suffix_start = str_len left + str_len mid,
     sp_removed_chars = min (length mid) usize_max, sp_suffix_started = (right \<noteq> [])\<rparr>"
proof -
  have in_mid: "str_len left + str_len u < t \<and> b < str_len left + str_len u + len_utf8 c"
    if "mid = u @ c # v" for u c v
  proof -
    have "prefix u (butlast mid)" using that by (simp add: butlast_append)
    then have "str_len u \<le> str_len (butlast mid)" by (auto simp: prefix_def)
    moreover have "b < str_len left + str_len u + len_utf8 c" using hd that by (cases u) auto
    ultimately show ?thesis using mid by auto
  qed
  have 1: "split_loop b t 0 left st = st\<lparr>sp_prefix_end := str_len left\<rparr>"
    using split_loop_prefix [of 0 left b t st] assms(1) by (cases left) (simp_all add: st)
  have 2: "split_loop b t (str_len left) mid (st\<lparr>sp_prefix_end := str_len left\<rparr>) =
      st\<lparr>sp_prefix_end := str_len left, sp_removed_chars := min (length mid) usize_max\<rparr>"
    using in_mid by (subst split_loop_removed) (auto simp: st)
  have "len_utf8 (hd mid) \<le> str_len mid" using assms(2) by (cases mid) simp_all
  then have 3: "right = [] \<or> b < str_len left + str_len mid + len_utf8 (hd right)"
    using hd by linarith
  show ?thesis
  proof (cases "right = []")
    case True
    then show ?thesis by (simp add: split_loop_append 1 2) (simp add: st len)
  next
    case False
    with right have t: "t \<le> str_len left + str_len mid" by simp
    show ?thesis
      using False by (simp add: split_loop_append 1 2 split_loop_suffix [OF t 3]) (simp add: st)
  qed
qed

lemma split_string_parts:
  assumes "b + e < str_len s"
  obtains left mid right where "s = left @ mid @ right" and "mid \<noteq> []"
    and "str_len left \<le> b" and "b < str_len left + len_utf8 (hd mid)"
    and "str_len right \<le> e" and "e < len_utf8 (last mid) + str_len right"
    and "split_string s b e = Some (min (length mid) usize_max, left, right)"
proof -
  obtain left r where r: "s = left @ r" "str_len left \<le> b" "r = [] \<or> b < str_len left + len_utf8 (hd r)"
    by (rule prefix_parts)
  obtain mid right where mid: "r = mid @ right"
    "mid = [] \<or> str_len left + str_len (butlast mid) < str_len s - e"
    "right = [] \<or> str_len s - e \<le> str_len left + str_len mid" by (rule middle_parts)
  have ne: "mid \<noteq> []" using assms r mid by auto
  have hd: "b < str_len left + len_utf8 (hd mid)" using ne r mid by simp
  have last: "str_len mid = str_len (butlast mid) + len_utf8 (last mid)"
    using ne by (metis append_butlast_last_id str_len_simps add_0_right)
  have s: "s = left @ mid @ right" using r mid by simp
  define st where "st = split_loop b (str_len s - e) 0 s
    \<lparr>sp_prefix_end = 0, sp_suffix_start = str_len s, sp_removed_chars = 0, sp_suffix_started = False\<rparr>"
  have st: "st = \<lparr>sp_prefix_end = str_len left, sp_suffix_start = str_len left + str_len mid,
      sp_removed_chars = min (length mid) usize_max, sp_suffix_started = (right \<noteq> [])\<rparr>"
    using split_loop_parts [OF r(2) ne hd _ mid(3)] mid(2) ne unfolding st_def by (simp add: s)
  have "split_string s b e =
      (case (slice_to (sp_prefix_end st) s,
             slice_from (if sp_suffix_start st < sp_prefix_end st then sp_prefix_end st
                         else sp_suffix_start st) s) of
         (Some before, Some after) \<Rightarrow> Some (sp_removed_chars st, before, after) | _ \<Rightarrow> None)"
    using ne s unfolding split_string_def Let_def st_def by simp
  also have "\<dots> = Some (min (length mid) usize_max, left, right)"
    using slice_to_prefix [of left "mid @ right"] slice_from_prefix [of "left @ mid" right]
    by (simp add: st s)
  finally have "split_string s b e = Some (min (length mid) usize_max, left, right)" .
  moreover have "str_len right \<le> e" "e < len_utf8 (last mid) + str_len right"
    using assms mid ne last s by auto
  ultimately show ?thesis using that s ne r(2) hd by blast
qed

section \<open>Tool output items\<close>

abbreviation texts :: "function_call_output_content_item list \<Rightarrow> rstring list" where
  "texts items \<equiv> List.map_filter item_text items"

abbreviation non_texts :: "function_call_output_content_item list \<Rightarrow> function_call_output_content_item list" where
  "non_texts items \<equiv> filter (\<lambda>item. item_text item = None) items"

lemma texts_simps [simp]:
  "texts [] = []" "texts (item # items) = (case item_text item of None \<Rightarrow> texts items | Some t \<Rightarrow> t # texts items)"
  "texts (items @ items') = texts items @ texts items'"
  by (simp_all add: List.map_filter_def split: option.split)

lemma texts_non_texts [simp]: "texts (non_texts items) = []"
  by (induction items) simp_all

lemma truncate_with_byte_estimate_total: "\<exists>r. truncate_with_byte_estimate s m u = Some r"
proof (cases "s = [] \<or> m = 0 \<or> str_len s \<le> m")
  case False
  then have "m div 2 + (m - m div 2) < str_len s" by auto
  then obtain x where "split_string s (m div 2) (m - m div 2) = Some x"
    by (rule split_string_parts) blast
  with False show ?thesis by (simp add: truncate_with_byte_estimate_def split_budget_def Let_def)
qed (auto simp: truncate_with_byte_estimate_def)

lemma truncate_text_total: "\<exists>r. truncate_text s policy = Some r"
proof (cases policy)
  case (Bytes n)
  then show ?thesis using truncate_with_byte_estimate_total by (simp add: truncate_middle_chars_def)
next
  case (Tokens n)
  obtain r where "truncate_with_byte_estimate s (approx_bytes_for_tokens n) True = Some r"
    using truncate_with_byte_estimate_total by blast
  then show ?thesis by (simp add: Tokens truncate_middle_with_token_budget_def)
qed

lemma truncate_items_no_budget:
  "truncate_items_loop policy items out 0 n = Some (out @ non_texts items, n + length (texts items))"
proof (induction items arbitrary: out n)
  case (Cons item items)
  then show ?case by (cases item) simp_all
qed simp

text \<open>What the loop adds: the texts that fit, at most one snippet, and all other items.\<close>

lemma truncate_items_loop_parts:
  "\<exists>out' k snippet n'. truncate_items_loop policy items out budget n = Some (out @ out', n + n') \<and>
     non_texts out' = non_texts items \<and>
     texts out' = take k (texts items) @ (case snippet of None \<Rightarrow> [] | Some t \<Rightarrow> [t]) \<and>
     k + (case snippet of None \<Rightarrow> 0 | Some t \<Rightarrow> 1) + n' = length (texts items) \<and>
     sum_list (map (text_cost policy) (take k (texts items))) \<le> budget \<and>
     pred_option (\<lambda>t. truncate_text (texts items ! k) (snippet_policy policy
       (budget - sum_list (map (text_cost policy) (take k (texts items))))) = Some t) snippet"
  (is "\<exists>out' k snippet n'. ?P items out budget n out' k snippet n'")
proof (induction items arbitrary: out budget n)
  case Nil
  have "?P [] out budget n [] 0 None 0" by simp
  then show ?case by blast
next
  case (Cons item items)
  show ?case
  proof (cases "item_text item")
    case None
    from Cons [of "out @ [item]" budget n] obtain out' k snippet n' where
      "?P items (out @ [item]) budget n out' k snippet n'" by blast
    with None have "?P (item # items) out budget n (item # out') k snippet n'"
      by (cases item) simp_all
    then show ?thesis by blast
  next
    case (Some t)
    then have item: "item = InputText t" by (cases item) simp_all
    consider "budget = 0" | "0 < budget" "text_cost policy t \<le> budget" | "0 < budget" "budget < text_cost policy t"
      by linarith
    then show ?thesis
    proof cases
      case 1
      then have "?P (item # items) out budget n (non_texts items) 0 None (Suc (length (texts items)))"
        by (simp add: item truncate_items_no_budget)
      then show ?thesis by blast
    next
      case 2
      from Cons [of "out @ [item]" "budget - text_cost policy t" n] obtain out' k snippet n' where
        "?P items (out @ [item]) (budget - text_cost policy t) n out' k snippet n'" by blast
      with 2 have "?P (item # items) out budget n (item # out') (Suc k) snippet n'"
        by (auto simp: item)
      then show ?thesis by blast
    next
      case 3
      obtain r where r: "truncate_text t (snippet_policy policy budget) = Some r"
        using truncate_text_total by blast
      show ?thesis
      proof (cases "r = []")
        case True
        then have "?P (item # items) out budget n (non_texts items) 0 None (Suc (length (texts items)))"
          using 3 r by (simp add: item truncate_items_no_budget)
        then show ?thesis by blast
      next
        case False
        then have "?P (item # items) out budget n (InputText r # non_texts items) 0 (Some r) (length (texts items))"
          using 3 r by (simp add: item truncate_items_no_budget)
        then show ?thesis by blast
      qed
    qed
  qed
qed

lemma truncate_items_loop_fits:
  assumes "sum_list (map (text_cost policy) (texts items)) \<le> budget" and "[] \<notin> set (texts items)"
  shows "truncate_items_loop policy items out budget n = Some (out @ items, n)"
  using assms
proof (induction items arbitrary: out budget)
  case (Cons item items)
  then show ?case
  proof (cases item)
    case (InputText t)
    have "0 < text_cost policy t"
      using Cons.prems(2) InputText length_le_str_len [of t]
      by (cases policy; cases t) (auto simp: approx_token_count_def sat_add_def APPROX_BYTES_PER_TOKEN_def usize_max_def)
    then show ?thesis using Cons InputText by simp
  qed simp_all
qed simp

section \<open>Properties\<close>

text \<open>C32: a string longer than the budget is cut on char boundaries into the longest beginning within
  half of the budget, the longest end within the other half, and a removed middle that is not empty;
  the result is beginning, marker, end, and the marker counts the removed chars, or the tokens of
  the removed bytes.\<close>

theorem truncate_middle_parts:
  assumes "0 < max_bytes" and "max_bytes < str_len s"
  shows "\<exists>left mid right. s = left @ mid @ right \<and> mid \<noteq> [] \<and>
    str_len left \<le> max_bytes div 2 \<and> max_bytes div 2 < str_len left + len_utf8 (hd mid) \<and>
    str_len right \<le> max_bytes - max_bytes div 2 \<and>
    max_bytes - max_bytes div 2 < len_utf8 (last mid) + str_len right \<and>
    truncate_with_byte_estimate s max_bytes use_tokens =
      Some (left @ format_truncation_marker use_tokens
        (if use_tokens then approx_tokens_from_byte_count (str_len s - max_bytes)
         else min (length mid) usize_max) @ right)"
proof -
  from assms have "max_bytes div 2 + (max_bytes - max_bytes div 2) < str_len s" by simp
  then obtain left mid right where "s = left @ mid @ right" "mid \<noteq> []"
    "str_len left \<le> max_bytes div 2" "max_bytes div 2 < str_len left + len_utf8 (hd mid)"
    "str_len right \<le> max_bytes - max_bytes div 2"
    "max_bytes - max_bytes div 2 < len_utf8 (last mid) + str_len right"
    and split: "split_string s (max_bytes div 2) (max_bytes - max_bytes div 2) =
      Some (min (length mid) usize_max, left, right)"
    by (rule split_string_parts)
  moreover have "truncate_with_byte_estimate s max_bytes use_tokens =
      Some (left @ format_truncation_marker use_tokens
        (if use_tokens then approx_tokens_from_byte_count (str_len s - max_bytes)
         else min (length mid) usize_max) @ right)"
    using assms split
    by (auto simp: truncate_with_byte_estimate_def split_budget_def Let_def removed_units_def
        assemble_truncated_output_def)
  ultimately show ?thesis by blast
qed

theorem truncate_middle_parts_witness:
  "\<exists>left mid right. lit ''0123456789'' = left @ mid @ right \<and> mid \<noteq> [] \<and>
    str_len left \<le> 2 \<and> str_len right \<le> 3 \<and>
    truncate_with_byte_estimate (lit ''0123456789'') 5 False =
      Some (left @ format_truncation_marker False (min (length mid) usize_max) @ right)"
  using truncate_middle_parts [of 5 "lit ''0123456789''" False] by (auto simp: len_utf8_def)

text \<open>Truncating tool output items never panics and keeps every image and encrypted item in
  order.  The texts of the result are the first texts that fit the budget together, unchanged, then
  at most one snippet of the next text cut to what is left of the budget, and, if texts were left
  out, a note with their number.\<close>

theorem truncate_items_parts:
  "\<exists>out k snippet omitted. truncate_function_output_items_with_policy items policy = Some out \<and>
     non_texts out = non_texts items \<and>
     texts out = take k (texts items) @ (case snippet of None \<Rightarrow> [] | Some t \<Rightarrow> [t]) @
       (if omitted > 0 then [lit ''[omitted '' @ fmt_nat omitted @ lit '' text items ...]''] else []) \<and>
     k + (case snippet of None \<Rightarrow> 0 | Some t \<Rightarrow> 1) + omitted = length (texts items) \<and>
     sum_list (map (text_cost policy) (take k (texts items))) \<le> initial_budget policy \<and>
     pred_option (\<lambda>t. truncate_text (texts items ! k) (snippet_policy policy
       (initial_budget policy - sum_list (map (text_cost policy) (take k (texts items))))) = Some t) snippet"
proof -
  from truncate_items_loop_parts [of policy items "[]" "initial_budget policy" 0]
  obtain out k snippet n where loop:
      "truncate_items_loop policy items [] (initial_budget policy) 0 = Some (out, n)"
    and rest: "non_texts out = non_texts items"
      "texts out = take k (texts items) @ (case snippet of None \<Rightarrow> [] | Some t \<Rightarrow> [t])"
      "k + (case snippet of None \<Rightarrow> 0 | Some t \<Rightarrow> 1) + n = length (texts items)"
      "sum_list (map (text_cost policy) (take k (texts items))) \<le> initial_budget policy"
      "pred_option (\<lambda>t. truncate_text (texts items ! k) (snippet_policy policy
       (initial_budget policy - sum_list (map (text_cost policy) (take k (texts items))))) = Some t) snippet"
    by auto
  let ?out = "out @ (if n > 0 then [InputText (lit ''[omitted '' @ fmt_nat n @ lit '' text items ...]'')] else [])"
  have "truncate_function_output_items_with_policy items policy = Some ?out"
    by (simp add: truncate_function_output_items_with_policy_def loop)
  moreover have "non_texts ?out = non_texts items" using rest(1) by simp
  moreover have "texts ?out = take k (texts items) @ (case snippet of None \<Rightarrow> [] | Some t \<Rightarrow> [t]) @
       (if n > 0 then [lit ''[omitted '' @ fmt_nat n @ lit '' text items ...]''] else [])"
    using rest(2) by simp
  ultimately show ?thesis using rest(3-5) by blast
qed

text \<open>Items whose texts are not empty and fit the budget together are returned unchanged.\<close>

theorem truncate_items_fits:
  assumes "sum_list (map (text_cost policy) (texts items)) \<le> initial_budget policy"
    and "[] \<notin> set (texts items)"
  shows "truncate_function_output_items_with_policy items policy = Some items"
  by (simp add: truncate_function_output_items_with_policy_def truncate_items_loop_fits [OF assms])

theorem truncate_items_fits_witness:
  "truncate_function_output_items_with_policy
     [InputText (lit ''ab''), InputImage (lit ''u'') None, InputText (lit ''cd'')] (Bytes 4) =
   Some [InputText (lit ''ab''), InputImage (lit ''u'') None, InputText (lit ''cd'')]"
  by (rule truncate_items_fits) (simp_all add: len_utf8_def)

end
