(* ===== verification/Response_Item.thy ===== *)
theory Response_Item
  imports Truncate
begin

text \<open>
  The items of a conversation (\<^verbatim>\<open>ResponseItem\<close> of \<^verbatim>\<open>protocol/src/models.rs\<close>).  Parts of an item that the history only
  carries along (JSON values, metadata, message phases, actions, summaries) have the type parameter.

  Calls and outputs are named by a key, the kind of the call and its identifier: a local shell call is answered by a
  function call output.  The lemmas say which items have a key.
\<close>

datatype content_item =
    InputTextContent rstring
  | InputImageContent rstring "image_detail option"
  | OutputTextContent rstring

datatype function_call_output_body = TextBody rstring | ContentItemsBody "function_call_output_content_item list"

record function_call_output_payload =
  payload_body :: function_call_output_body
  payload_success :: "bool option"

definition payload_from_text :: "rstring \<Rightarrow> function_call_output_payload" where
  "payload_from_text content = \<lparr>payload_body = TextBody content, payload_success = None\<rparr>"

type_synonym item_id = "rstring option"

datatype 'j response_item =
    AdditionalTools item_id rstring "'j list"
  | Message item_id rstring "content_item list" "'j option" "'j option"
  | AgentMessage item_id rstring rstring "'j list" "'j option"
  | Reasoning item_id "'j list" "'j list option" "rstring option" "'j option"
  | LocalShellCall item_id "rstring option" 'j 'j "'j option"
  | FunctionCall item_id rstring "rstring option" rstring rstring "'j option"
  | ToolSearchCall item_id "rstring option" "rstring option" rstring 'j "'j option"
  | FunctionCallOutput item_id rstring function_call_output_payload "'j option"
  | CustomToolCall item_id "rstring option" rstring rstring "rstring option" rstring "'j option"
  | CustomToolCallOutput item_id rstring "rstring option" function_call_output_payload "'j option"
  | ToolSearchOutput item_id "rstring option" rstring rstring "'j list" "'j option"
  | WebSearchCall item_id "rstring option" "'j option" "'j option"
  | ImageGenerationCall item_id rstring "rstring option" rstring "'j option"
  | Compaction item_id rstring "'j option"
  | CompactionTrigger
  | ContextCompaction item_id "rstring option" "'j option"
  | OtherItem

section \<open>Calls and outputs\<close>

datatype call_kind = FunctionKind | ToolSearchKind | CustomKind

type_synonym call_key = "call_kind \<times> rstring"

fun call_of :: "'j response_item \<Rightarrow> call_key option" where
  "call_of (FunctionCall _ _ _ _ c _) = Some (FunctionKind, c)"
| "call_of (LocalShellCall _ (Some c) _ _ _) = Some (FunctionKind, c)"
| "call_of (ToolSearchCall _ (Some c) _ _ _ _) = Some (ToolSearchKind, c)"
| "call_of (CustomToolCall _ _ c _ _ _ _) = Some (CustomKind, c)"
| "call_of _ = None"

fun output_of :: "'j response_item \<Rightarrow> call_key option" where
  "output_of (FunctionCallOutput _ c _ _) = Some (FunctionKind, c)"
| "output_of (ToolSearchOutput _ (Some c) _ _ _ _) = Some (ToolSearchKind, c)"
| "output_of (CustomToolCallOutput _ c _ _ _) = Some (CustomKind, c)"
| "output_of _ = None"

text \<open>The output of a tool search that the server ran stands without a call.\<close>

fun server_output :: "'j response_item \<Rightarrow> bool" where
  "server_output (ToolSearchOutput _ _ _ e _ _) \<longleftrightarrow> e = lit ''server''"
| "server_output _ \<longleftrightarrow> False"

definition call_keys :: "'j response_item list \<Rightarrow> call_key list" where
  "call_keys items = List.map_filter call_of items"

definition output_keys :: "'j response_item list \<Rightarrow> call_key list" where
  "output_keys items = List.map_filter output_of items"

text \<open>Every call has an output, and every output but those of the server a call.\<close>

definition paired :: "'j response_item list \<Rightarrow> bool" where
  "paired items \<longleftrightarrow>
     set (call_keys items) \<subseteq> set (output_keys items) \<and>
     (\<forall>i \<in> set items. \<forall>k. output_of i = Some k \<longrightarrow> server_output i \<or> k \<in> set (call_keys items))"

lemma keys_simps [simp]:
  "call_keys [] = []"
  "output_keys [] = []"
  "call_keys (i # items) = (case call_of i of Some k \<Rightarrow> k # call_keys items | None \<Rightarrow> call_keys items)"
  "output_keys (i # items) = (case output_of i of Some k \<Rightarrow> k # output_keys items | None \<Rightarrow> output_keys items)"
  "call_keys (xs @ ys) = call_keys xs @ call_keys ys"
  "output_keys (xs @ ys) = output_keys xs @ output_keys ys"
  by (simp_all add: call_keys_def output_keys_def List.map_filter_def split: option.splits)

lemma in_call_keys: "k \<in> set (call_keys items) \<longleftrightarrow> (\<exists>i \<in> set items. call_of i = Some k)"
  by (simp add: call_keys_def)

lemma in_output_keys: "k \<in> set (output_keys items) \<longleftrightarrow> (\<exists>i \<in> set items. output_of i = Some k)"
  by (simp add: output_keys_def)

lemma call_no_output: "call_of i = Some k \<Longrightarrow> output_of i = None"
  by (cases i rule: call_of.cases) simp_all

end
