(* ===== verification/History_Normalize.thy ===== *)
theory History_Normalize
  imports Response_Item
begin

text \<open>
  Normalisation of a history (\<^verbatim>\<open>core/src/context_manager/normalize.rs\<close>).  The UUID of a synthetic output is a parameter.
  \<open>error_or_panic\<close> panics in a build with debug assertions: the result is \<open>None\<close> there, as it is for an insertion
  out of range.

  The lemmas show that the insertion by index from the back puts every missing output behind its call, that
  the result pairs calls with outputs and loses nothing else, and that a second pass changes nothing.
\<close>

record history_env =
  uuid_id :: "rstring \<Rightarrow> rstring \<Rightarrow> rstring"
  debug_assertions :: bool

datatype input_modality = TextModality | ImageModality

definition IMAGE_CONTENT_OMITTED_PLACEHOLDER :: rstring where
  "IMAGE_CONTENT_OMITTED_PLACEHOLDER = lit ''image content omitted because you do not support image input''"

section \<open>Missing outputs\<close>

definition synthetic_output_id :: "history_env \<Rightarrow> rstring \<Rightarrow> item_id \<Rightarrow> item_id" where
  "synthetic_output_id env pfx item_id =
     (case item_id of
        None \<Rightarrow> None
      | Some source_id \<Rightarrow> if source_id = [] then None else Some (uuid_id env pfx (pfx @ lit '':'' @ source_id)))"

fun function_output_id :: "'j response_item \<Rightarrow> rstring option" where
  "function_output_id (FunctionCallOutput _ call_id _ _) = Some call_id"
| "function_output_id _ = None"

fun tool_search_output_id :: "'j response_item \<Rightarrow> rstring option" where
  "tool_search_output_id (ToolSearchOutput _ (Some call_id) _ _ _ _) = Some call_id"
| "tool_search_output_id _ = None"

fun custom_tool_output_id :: "'j response_item \<Rightarrow> rstring option" where
  "custom_tool_output_id (CustomToolCallOutput _ call_id _ _ _) = Some call_id"
| "custom_tool_output_id _ = None"

text \<open>The identifiers of the outputs, for the three kinds.\<close>

record output_ids =
  function_output_ids :: "rstring list"
  tool_search_output_ids :: "rstring list"
  custom_tool_output_ids :: "rstring list"

definition collect_output_ids :: "'j response_item list \<Rightarrow> output_ids" where
  "collect_output_ids items =
     \<lparr>function_output_ids = List.map_filter function_output_id items,
      tool_search_output_ids = List.map_filter tool_search_output_id items,
      custom_tool_output_ids = List.map_filter custom_tool_output_id items\<rparr>"

text \<open>The output to insert behind an item, and whether its lack is reported as an error.\<close>

fun missing_output :: "history_env \<Rightarrow> output_ids \<Rightarrow> 'j response_item \<Rightarrow> (bool \<times> 'j response_item) option" where
  "missing_output env ids (FunctionCall iid _ _ _ call_id _) =
     (if call_id \<notin> set (function_output_ids ids)
      then Some (False, FunctionCallOutput (synthetic_output_id env (lit ''fco'') iid) call_id (payload_from_text (lit ''aborted'')) None)
      else None)"
| "missing_output env ids (ToolSearchCall iid (Some call_id) _ _ _ _) =
     (if call_id \<notin> set (tool_search_output_ids ids)
      then Some (False, ToolSearchOutput (synthetic_output_id env (lit ''tso'') iid) (Some call_id) (lit ''completed'') (lit ''client'') [] None)
      else None)"
| "missing_output env ids (CustomToolCall iid _ call_id _ _ _ _) =
     (if call_id \<notin> set (custom_tool_output_ids ids)
      then Some (True, CustomToolCallOutput (synthetic_output_id env (lit ''ctco'') iid) call_id None (payload_from_text (lit ''aborted'')) None)
      else None)"
| "missing_output env ids (LocalShellCall iid (Some call_id) _ _ _) =
     (if call_id \<notin> set (function_output_ids ids)
      then Some (True, FunctionCallOutput (synthetic_output_id env (lit ''fco'') iid) call_id (payload_from_text (lit ''aborted'')) None)
      else None)"
| "missing_output env ids _ = None"

fun missing_outputs_to_insert ::
    "history_env \<Rightarrow> output_ids \<Rightarrow> nat \<Rightarrow> 'j response_item list \<Rightarrow> (nat \<times> 'j response_item) list" where
  "missing_outputs_to_insert env ids idx [] = []"
| "missing_outputs_to_insert env ids idx (item # items) =
     (case missing_output env ids item of
        Some (_, out) \<Rightarrow> (idx, out) # missing_outputs_to_insert env ids (idx + 1) items
      | None \<Rightarrow> missing_outputs_to_insert env ids (idx + 1) items)"

definition vec_insert :: "nat \<Rightarrow> 'a \<Rightarrow> 'a list \<Rightarrow> 'a list option" where
  "vec_insert i x xs = (if i \<le> length xs then Some (take i xs @ x # drop i xs) else None)"

fun insert_outputs :: "(nat \<times> 'a) list \<Rightarrow> 'a list \<Rightarrow> 'a list option" where
  "insert_outputs [] items = Some items"
| "insert_outputs ((idx, out) # rest) items =
     (case vec_insert (idx + 1) out items of None \<Rightarrow> None | Some items \<Rightarrow> insert_outputs rest items)"

definition reports_missing :: "history_env \<Rightarrow> output_ids \<Rightarrow> 'j response_item \<Rightarrow> bool" where
  "reports_missing env ids item \<longleftrightarrow> (case missing_output env ids item of Some (reported, _) \<Rightarrow> reported | None \<Rightarrow> False)"

definition ensure_call_outputs_present :: "history_env \<Rightarrow> 'j response_item list \<Rightarrow> 'j response_item list option" where
  "ensure_call_outputs_present env items =
     (let ids = collect_output_ids items in
      if debug_assertions env \<and> (\<exists>item \<in> set items. reports_missing env ids item) then None
      else insert_outputs (rev (missing_outputs_to_insert env ids 0 items)) items)"

section \<open>Orphan outputs\<close>

fun function_call_id :: "'j response_item \<Rightarrow> rstring option" where
  "function_call_id (FunctionCall _ _ _ _ call_id _) = Some call_id"
| "function_call_id _ = None"

fun tool_search_call_id :: "'j response_item \<Rightarrow> rstring option" where
  "tool_search_call_id (ToolSearchCall _ (Some call_id) _ _ _ _) = Some call_id"
| "tool_search_call_id _ = None"

fun local_shell_call_id :: "'j response_item \<Rightarrow> rstring option" where
  "local_shell_call_id (LocalShellCall _ (Some call_id) _ _ _) = Some call_id"
| "local_shell_call_id _ = None"

fun custom_tool_call_id :: "'j response_item \<Rightarrow> rstring option" where
  "custom_tool_call_id (CustomToolCall _ _ call_id _ _ _ _) = Some call_id"
| "custom_tool_call_id _ = None"

fun has_match :: "'j response_item list \<Rightarrow> 'j response_item \<Rightarrow> bool" where
  "has_match items (FunctionCallOutput _ call_id _ _) \<longleftrightarrow>
     call_id \<in> set (List.map_filter function_call_id items) \<or> call_id \<in> set (List.map_filter local_shell_call_id items)"
| "has_match items (CustomToolCallOutput _ call_id _ _ _) \<longleftrightarrow> call_id \<in> set (List.map_filter custom_tool_call_id items)"
| "has_match items (ToolSearchOutput _ (Some call_id) _ execution _ _) \<longleftrightarrow>
     execution = lit ''server'' \<or> call_id \<in> set (List.map_filter tool_search_call_id items)"
| "has_match items (ToolSearchOutput _ None _ _ _ _) \<longleftrightarrow> True"
| "has_match items _ \<longleftrightarrow> True"

text \<open>Each output that is dropped is reported.\<close>

definition remove_orphan_outputs :: "history_env \<Rightarrow> 'j response_item list \<Rightarrow> 'j response_item list option" where
  "remove_orphan_outputs env items =
     (if debug_assertions env \<and> (\<exists>item \<in> set items. \<not> has_match items item) then None
      else Some (filter (has_match items) items))"

section \<open>Counterparts\<close>

fun remove_first_matching :: "('a \<Rightarrow> bool) \<Rightarrow> 'a list \<Rightarrow> 'a list" where
  "remove_first_matching p [] = []"
| "remove_first_matching p (x # xs) = (if p x then xs else x # remove_first_matching p xs)"

fun remove_corresponding_for :: "'j response_item list \<Rightarrow> 'j response_item \<Rightarrow> 'j response_item list" where
  "remove_corresponding_for items (FunctionCall _ _ _ _ call_id _) =
     remove_first_matching (\<lambda>i. function_output_id i = Some call_id) items"
| "remove_corresponding_for items (FunctionCallOutput _ call_id _ _) =
     (if \<exists>i \<in> set items. function_call_id i = Some call_id
      then remove_first_matching (\<lambda>i. function_call_id i = Some call_id) items
      else remove_first_matching (\<lambda>i. local_shell_call_id i = Some call_id) items)"
| "remove_corresponding_for items (ToolSearchCall _ (Some call_id) _ _ _ _) =
     remove_first_matching (\<lambda>i. tool_search_output_id i = Some call_id) items"
| "remove_corresponding_for items (ToolSearchOutput _ (Some call_id) _ _ _ _) =
     remove_first_matching (\<lambda>i. tool_search_call_id i = Some call_id) items"
| "remove_corresponding_for items (CustomToolCall _ _ call_id _ _ _ _) =
     remove_first_matching (\<lambda>i. custom_tool_output_id i = Some call_id) items"
| "remove_corresponding_for items (CustomToolCallOutput _ call_id _ _ _) =
     remove_first_matching (\<lambda>i. custom_tool_call_id i = Some call_id) items"
| "remove_corresponding_for items (LocalShellCall _ (Some call_id) _ _ _) =
     remove_first_matching (\<lambda>i. function_output_id i = Some call_id) items"
| "remove_corresponding_for items _ = items"

section \<open>Images\<close>

fun strip_content :: "content_item \<Rightarrow> content_item" where
  "strip_content (InputImageContent _ _) = InputTextContent IMAGE_CONTENT_OMITTED_PLACEHOLDER"
| "strip_content c = c"

fun strip_output_content :: "function_call_output_content_item \<Rightarrow> function_call_output_content_item" where
  "strip_output_content (InputImage _ _) = InputText IMAGE_CONTENT_OMITTED_PLACEHOLDER"
| "strip_output_content c = c"

definition strip_payload :: "function_call_output_payload \<Rightarrow> function_call_output_payload" where
  "strip_payload out =
     (case payload_body out of
        TextBody _ \<Rightarrow> out
      | ContentItemsBody cs \<Rightarrow> out\<lparr>payload_body := ContentItemsBody (map strip_output_content cs)\<rparr>)"

fun strip_item :: "'j response_item \<Rightarrow> 'j response_item" where
  "strip_item (Message iid role content phase m) = Message iid role (map strip_content content) phase m"
| "strip_item (FunctionCallOutput iid call_id out m) = FunctionCallOutput iid call_id (strip_payload out) m"
| "strip_item (CustomToolCallOutput iid call_id name out m) = CustomToolCallOutput iid call_id name (strip_payload out) m"
| "strip_item (ImageGenerationCall iid status revised _ m) = ImageGenerationCall iid status revised [] m"
| "strip_item i = i"

definition strip_images_when_unsupported :: "input_modality list \<Rightarrow> 'j response_item list \<Rightarrow> 'j response_item list" where
  "strip_images_when_unsupported input_modalities items =
     (if ImageModality \<in> set input_modalities then items else map strip_item items)"

text \<open>\<open>ContextManager::normalize_history\<close>.\<close>

definition normalize_history ::
    "history_env \<Rightarrow> input_modality list \<Rightarrow> 'j response_item list \<Rightarrow> 'j response_item list option" where
  "normalize_history env input_modalities items =
     (case ensure_call_outputs_present env items of
        None \<Rightarrow> None
      | Some items \<Rightarrow>
          (case remove_orphan_outputs env items of
             None \<Rightarrow> None
           | Some items \<Rightarrow> Some (strip_images_when_unsupported input_modalities items)))"


section \<open>Insertion from the back\<close>

definition output_behind :: "history_env \<Rightarrow> output_ids \<Rightarrow> 'j response_item \<Rightarrow> 'j response_item list" where
  "output_behind env ids item = (case missing_output env ids item of Some (_, out) \<Rightarrow> [out] | None \<Rightarrow> [])"

definition with_outputs :: "history_env \<Rightarrow> output_ids \<Rightarrow> 'j response_item list \<Rightarrow> 'j response_item list" where
  "with_outputs env ids items = concat (map (\<lambda>i. i # output_behind env ids i) items)"

lemma insert_outputs_append:
  "insert_outputs (xs @ ys) items = (case insert_outputs xs items of None \<Rightarrow> None | Some items \<Rightarrow> insert_outputs ys items)"
  by (induction xs items rule: insert_outputs.induct) (auto split: option.splits)

lemma insert_outputs_behind:
  "length pre = n \<Longrightarrow>
   insert_outputs (rev (missing_outputs_to_insert env ids n items)) (pre @ items) = Some (pre @ with_outputs env ids items)"
proof (induction items arbitrary: n pre)
  case Nil
  then show ?case by (simp add: with_outputs_def)
next
  case (Cons i items)
  have "insert_outputs (rev (missing_outputs_to_insert env ids (n + 1) items)) ((pre @ [i]) @ items) =
      Some ((pre @ [i]) @ with_outputs env ids items)"
    using Cons.prems by (intro Cons.IH) simp
  moreover have "vec_insert (n + 1) out (pre @ i # ys) = Some (pre @ i # out # ys)" for out ys
    using Cons.prems by (simp add: vec_insert_def)
  ultimately show ?case
    by (auto simp: insert_outputs_append with_outputs_def output_behind_def split: option.splits)
qed

lemma ensure_release:
  "\<not> debug_assertions env \<Longrightarrow>
   ensure_call_outputs_present env items = Some (with_outputs env (collect_output_ids items) items)"
  using insert_outputs_behind [of "[]" 0 env "collect_output_ids items" items] by (simp add: ensure_call_outputs_present_def Let_def)

section \<open>Keys\<close>

lemma output_id_keys:
  "(FunctionKind, c) \<in> set (output_keys items) \<longleftrightarrow> c \<in> set (function_output_ids (collect_output_ids items))"
  "(ToolSearchKind, c) \<in> set (output_keys items) \<longleftrightarrow> c \<in> set (tool_search_output_ids (collect_output_ids items))"
  "(CustomKind, c) \<in> set (output_keys items) \<longleftrightarrow> c \<in> set (custom_tool_output_ids (collect_output_ids items))"
proof -
  have "output_of i = Some (FunctionKind, c) \<longleftrightarrow> function_output_id i = Some c"
    "output_of i = Some (ToolSearchKind, c) \<longleftrightarrow> tool_search_output_id i = Some c"
    "output_of i = Some (CustomKind, c) \<longleftrightarrow> custom_tool_output_id i = Some c" for i :: "'a response_item"
    by (cases i rule: output_of.cases; simp)+
  then show
    "(FunctionKind, c) \<in> set (output_keys items) \<longleftrightarrow> c \<in> set (function_output_ids (collect_output_ids items))"
    "(ToolSearchKind, c) \<in> set (output_keys items) \<longleftrightarrow> c \<in> set (tool_search_output_ids (collect_output_ids items))"
    "(CustomKind, c) \<in> set (output_keys items) \<longleftrightarrow> c \<in> set (custom_tool_output_ids (collect_output_ids items))"
    by (simp_all add: in_output_keys collect_output_ids_def)
qed

lemma call_id_keys:
  "(FunctionKind, c) \<in> set (call_keys items) \<longleftrightarrow>
     c \<in> set (List.map_filter function_call_id items) \<or> c \<in> set (List.map_filter local_shell_call_id items)"
  "(ToolSearchKind, c) \<in> set (call_keys items) \<longleftrightarrow> c \<in> set (List.map_filter tool_search_call_id items)"
  "(CustomKind, c) \<in> set (call_keys items) \<longleftrightarrow> c \<in> set (List.map_filter custom_tool_call_id items)"
proof -
  have "call_of i = Some (FunctionKind, c) \<longleftrightarrow> function_call_id i = Some c \<or> local_shell_call_id i = Some c"
    "call_of i = Some (ToolSearchKind, c) \<longleftrightarrow> tool_search_call_id i = Some c"
    "call_of i = Some (CustomKind, c) \<longleftrightarrow> custom_tool_call_id i = Some c" for i :: "'a response_item"
    by (cases i rule: call_of.cases; simp)+
  then show
    "(FunctionKind, c) \<in> set (call_keys items) \<longleftrightarrow>
       c \<in> set (List.map_filter function_call_id items) \<or> c \<in> set (List.map_filter local_shell_call_id items)"
    "(ToolSearchKind, c) \<in> set (call_keys items) \<longleftrightarrow> c \<in> set (List.map_filter tool_search_call_id items)"
    "(CustomKind, c) \<in> set (call_keys items) \<longleftrightarrow> c \<in> set (List.map_filter custom_tool_call_id items)"
    by (auto simp: in_call_keys)
qed

text \<open>An output is inserted behind a call whose key no output has, and it has that key.\<close>

lemma missing_output_key:
  assumes "missing_output env (collect_output_ids items) i = Some (r, out)"
  shows "\<exists>k. call_of i = Some k \<and> k \<notin> set (output_keys items) \<and> output_of out = Some k \<and> \<not> server_output out \<and> call_of out = None"
  using assms by (cases i rule: call_of.cases) (auto simp: output_id_keys split: if_splits)

lemma not_missing_output:
  assumes "missing_output env (collect_output_ids items) i = None" and "call_of i = Some k"
  shows "k \<in> set (output_keys items)"
  using assms by (cases i rule: call_of.cases) (auto simp: output_id_keys split: if_splits)

lemma has_match_key: "has_match items i \<longleftrightarrow> (\<forall>k. output_of i = Some k \<longrightarrow> server_output i \<or> k \<in> set (call_keys items))"
  by (cases "(items, i)" rule: has_match.cases) (auto simp: call_id_keys)

lemma strip_item_keys [simp]:
  "call_of (strip_item i) = call_of i" "output_of (strip_item i) = output_of i" "server_output (strip_item i) \<longleftrightarrow> server_output i"
proof -
  show "call_of (strip_item i) = call_of i" by (cases i rule: strip_item.cases; cases i rule: call_of.cases) simp_all
  show "output_of (strip_item i) = output_of i" by (cases i rule: strip_item.cases; cases i rule: output_of.cases) simp_all
  show "server_output (strip_item i) \<longleftrightarrow> server_output i" by (cases i rule: strip_item.cases) simp_all
qed

lemma strip_item_idem [simp]: "strip_item (strip_item i) = strip_item i"
proof -
  have "strip_content (strip_content c) = strip_content c" for c by (cases c) simp_all
  moreover have "strip_output_content (strip_output_content c) = strip_output_content c" for c by (cases c) simp_all
  ultimately show ?thesis
    by (cases i rule: strip_item.cases) (auto simp: strip_payload_def split: function_call_output_body.splits)
qed


section \<open>The passes\<close>

lemma in_output_behind: "x \<in> set (output_behind env ids i) \<longleftrightarrow> (\<exists>r. missing_output env ids i = Some (r, x))"
  by (cases "missing_output env ids i") (auto simp: output_behind_def)

lemma in_with_outputs:
  "x \<in> set (with_outputs env ids items) \<longleftrightarrow>
     x \<in> set items \<or> (\<exists>i \<in> set items. \<exists>r. missing_output env ids i = Some (r, x))"
  by (auto simp: with_outputs_def in_output_behind)

lemma with_outputs_keys:
  fixes env :: history_env and items :: "'j response_item list"
  defines "w \<equiv> with_outputs env (collect_output_ids items) items"
  shows "set (call_keys (w)) = set (call_keys items)"
    and "set (output_keys (w)) = set (output_keys items) \<union> set (call_keys items)"
proof -
  show "set (call_keys (w)) = set (call_keys items)"
    using missing_output_key unfolding w_def by (fastforce simp: in_call_keys in_with_outputs)
  have "k \<in> set (output_keys (w)) \<longleftrightarrow> k \<in> set (output_keys items) \<union> set (call_keys items)" for k
  proof
    assume "k \<in> set (output_keys (w))"
    then show "k \<in> set (output_keys items) \<union> set (call_keys items)"
      using missing_output_key unfolding w_def by (fastforce simp: in_call_keys in_output_keys in_with_outputs)
  next
    assume k: "k \<in> set (output_keys items) \<union> set (call_keys items)"
    show "k \<in> set (output_keys (w))"
    proof (cases "k \<in> set (output_keys items)")
      case False
      then obtain i where i: "i \<in> set items" "call_of i = Some k" using k by (auto simp: in_call_keys)
      then obtain r out where m: "missing_output env (collect_output_ids items) i = Some (r, out)"
        using not_missing_output [of env items i k] False by fastforce
      then have "output_of out = Some k" using missing_output_key [OF m] i(2) by auto
      moreover have "out \<in> set w" using i(1) m unfolding w_def in_with_outputs by blast
      ultimately show ?thesis unfolding in_output_keys by blast
    qed (auto simp: w_def in_output_keys in_with_outputs)
  qed
  then show "set (output_keys (w)) = set (output_keys items) \<union> set (call_keys items)" by blast
qed

lemma filter_match_keys:
  assumes "set (call_keys items) \<subseteq> set (output_keys items)"
  shows "paired (filter (has_match items) items)"
proof -
  let ?f = "filter (has_match items) items"
  have calls: "set (call_keys ?f) = set (call_keys items)"
    using call_no_output by (fastforce simp: in_call_keys has_match_key)
  have "k \<in> set (output_keys ?f)" if "k \<in> set (call_keys items)" for k
  proof -
    have "k \<in> set (output_keys items)" using assms that by blast
    then obtain i where "i \<in> set items" "output_of i = Some k" by (auto simp: in_output_keys)
    then show ?thesis using that by (auto simp: in_output_keys has_match_key)
  qed
  then show ?thesis using calls by (auto simp: paired_def has_match_key)
qed

lemma paired_map: "(\<And>i. call_of (g i) = call_of i \<and> output_of (g i) = output_of i \<and> server_output (g i) = server_output i) \<Longrightarrow>
  paired (map g items) \<longleftrightarrow> paired items"
proof -
  assume g: "\<And>i. call_of (g i) = call_of i \<and> output_of (g i) = output_of i \<and> server_output (g i) = server_output i"
  have "call_keys (map g items) = call_keys items" "output_keys (map g items) = output_keys items"
    using g by (induction items) (simp_all split: option.splits)
  then show ?thesis using g by (simp add: paired_def)
qed

lemma paired_strip [simp]: "paired (strip_images_when_unsupported ms items) \<longleftrightarrow> paired items"
  by (simp add: strip_images_when_unsupported_def paired_map)

definition normalized :: "history_env \<Rightarrow> input_modality list \<Rightarrow> 'j response_item list \<Rightarrow> 'j response_item list" where
  "normalized env ms items =
     (let w = with_outputs env (collect_output_ids items) items
      in strip_images_when_unsupported ms (filter (has_match w) w))"

lemma normalize_release: "\<not> debug_assertions env \<Longrightarrow> normalize_history env ms items = Some (normalized env ms items)"
  by (simp add: normalize_history_def ensure_release remove_orphan_outputs_def normalized_def Let_def)

lemma normalized_paired: "paired (normalized env ms items)"
  using with_outputs_keys [where env = env and items = items] by (auto simp: normalized_def Let_def intro: filter_match_keys)

lemma normalized_fixed:
  assumes "paired items"
  shows "normalized env ms items = strip_images_when_unsupported ms items"
proof -
  have "output_behind env (collect_output_ids items) i = []" if "i \<in> set items" for i
  proof (cases "missing_output env (collect_output_ids items) i")
    case (Some m)
    then obtain k where "call_of i = Some k" "k \<notin> set (output_keys items)"
      using missing_output_key [of env items i "fst m" "snd m"] by auto
    moreover then have "k \<in> set (call_keys items)" using that in_call_keys by blast
    ultimately show ?thesis using assms unfolding paired_def by blast
  qed (simp add: output_behind_def)
  then have w: "with_outputs env (collect_output_ids items) items = items"
    by (simp add: with_outputs_def cong: map_cong)
  have "filter (has_match items) items = items" using assms by (auto simp: paired_def has_match_key intro!: filter_True)
  then show ?thesis by (simp add: normalized_def w)
qed

lemma strip_strip [simp]:
  "strip_images_when_unsupported ms (strip_images_when_unsupported ms items) = strip_images_when_unsupported ms items"
  by (simp add: strip_images_when_unsupported_def)

lemma normalized_idem: "normalized env ms (normalized env ms items) = normalized env ms items"
proof -
  have "strip_images_when_unsupported ms (normalized env ms items) = normalized env ms items"
    by (simp add: normalized_def Let_def)
  then show ?thesis by (simp add: normalized_fixed [OF normalized_paired])
qed

lemma with_outputs_others:
  "filter (\<lambda>i. output_of i = None) (with_outputs env (collect_output_ids xs) items) = filter (\<lambda>i. output_of i = None) items"
  using missing_output_key [of env xs]
  by (induction items) (fastforce simp: with_outputs_def output_behind_def split: option.splits)+

lemma normalized_others:
  "filter (\<lambda>i. output_of i = None) (normalized env ms items) =
   strip_images_when_unsupported ms (filter (\<lambda>i. output_of i = None) items)"
proof -
  let ?w = "with_outputs env (collect_output_ids items) items"
  have "filter (\<lambda>i. output_of i = None) (filter (has_match ?w) ?w) = filter (\<lambda>i. output_of i = None) ?w"
    by (auto simp: has_match_key intro: filter_cong)
  then show ?thesis
    by (simp add: normalized_def Let_def with_outputs_others strip_images_when_unsupported_def filter_map o_def)
qed

section \<open>Removing a pair\<close>

text \<open>No two calls and no two outputs have the same key.\<close>

definition unique_keys :: "'j response_item list \<Rightarrow> bool" where
  "unique_keys items \<longleftrightarrow> distinct (call_keys items) \<and> distinct (output_keys items)"

lemma remove_first_matching_split:
  "(\<forall>x \<in> set xs. \<not> p x) \<and> remove_first_matching p xs = xs \<or>
   (\<exists>ys x zs. xs = ys @ x # zs \<and> p x \<and> remove_first_matching p xs = ys @ zs)"
proof (induction xs)
  case (Cons x xs)
  show ?case
  proof (cases "p x")
    case True
    then show ?thesis by (intro disjI2 exI [of _ "[]"]) simp
  next
    case False
    from Cons.IH show ?thesis
    proof
      assume "\<exists>ys y zs. xs = ys @ y # zs \<and> p y \<and> remove_first_matching p xs = ys @ zs"
      then obtain ys y zs where "xs = ys @ y # zs" "p y" "remove_first_matching p xs = ys @ zs" by blast
      then show ?thesis using False by (intro disjI2 exI [of _ "x # ys"] exI [of _ y] exI [of _ zs]) simp
    qed (use False in simp)
  qed
qed simp


lemma remove_first_matching_cong:
  "(\<And>x. x \<in> set xs \<Longrightarrow> p x \<longleftrightarrow> q x) \<Longrightarrow> remove_first_matching p xs = remove_first_matching q xs"
  by (induction xs) auto

lemma remove_first_matching_none: "\<forall>x \<in> set xs. \<not> p x \<Longrightarrow> remove_first_matching p xs = xs"
  by (induction xs) auto

lemma id_output_of:
  "function_output_id i = Some c \<longleftrightarrow> output_of i = Some (FunctionKind, c)"
  "tool_search_output_id i = Some c \<longleftrightarrow> output_of i = Some (ToolSearchKind, c)"
  "custom_tool_output_id i = Some c \<longleftrightarrow> output_of i = Some (CustomKind, c)"
  by (cases i rule: output_of.cases; simp)+

lemma id_call_of:
  "tool_search_call_id i = Some c \<longleftrightarrow> call_of i = Some (ToolSearchKind, c)"
  "custom_tool_call_id i = Some c \<longleftrightarrow> call_of i = Some (CustomKind, c)"
  "function_call_id i = Some c \<or> local_shell_call_id i = Some c \<longleftrightarrow> call_of i = Some (FunctionKind, c)"
  by (cases i rule: call_of.cases; simp)+

lemma distinct_call_unique:
  assumes "distinct (call_keys items)" "i \<in> set items" "j \<in> set items" "call_of i = Some k" "call_of j = Some k"
  shows "i = j"
  using assms by (induction items) (auto simp: in_call_keys split: option.splits)

lemma remove_function_call:
  assumes "distinct (call_keys items)"
  shows "(if \<exists>i \<in> set items. function_call_id i = Some c
      then remove_first_matching (\<lambda>i. function_call_id i = Some c) items
      else remove_first_matching (\<lambda>i. local_shell_call_id i = Some c) items) =
    remove_first_matching (\<lambda>i. call_of i = Some (FunctionKind, c)) items"
proof (cases "\<exists>i \<in> set items. function_call_id i = Some c")
  case True
  then obtain i where i: "i \<in> set items" "function_call_id i = Some c" by blast
  have ci: "call_of i = Some (FunctionKind, c)" using i(2) id_call_of(3) by blast
  have "function_call_id j = Some c \<longleftrightarrow> call_of j = Some (FunctionKind, c)" if "j \<in> set items" for j
    using distinct_call_unique [OF assms i(1) that ci] i(2) id_call_of(3) [of j c] by blast
  then have "remove_first_matching (\<lambda>i. function_call_id i = Some c) items =
      remove_first_matching (\<lambda>i. call_of i = Some (FunctionKind, c)) items"
    by (rule remove_first_matching_cong)
  then show ?thesis using True by simp
next
  case False
  then have "local_shell_call_id j = Some c \<longleftrightarrow> call_of j = Some (FunctionKind, c)" if "j \<in> set items" for j
    using that id_call_of(3) [of j c] by blast
  then have "remove_first_matching (\<lambda>i. local_shell_call_id i = Some c) items =
      remove_first_matching (\<lambda>i. call_of i = Some (FunctionKind, c)) items"
    by (rule remove_first_matching_cong)
  then show ?thesis using False by simp
qed

text \<open>The counterpart of an item, by its key.\<close>

lemma remove_corresponding_key:
  assumes "distinct (call_keys items)"
  shows "remove_corresponding_for items i =
    (case call_of i of
       Some k \<Rightarrow> remove_first_matching (\<lambda>j. output_of j = Some k) items
     | None \<Rightarrow> (case output_of i of Some k \<Rightarrow> remove_first_matching (\<lambda>j. call_of j = Some k) items | None \<Rightarrow> items))"
  using remove_function_call [OF assms]
  by (cases "(items, i)" rule: remove_corresponding_for.cases) (simp_all add: id_output_of id_call_of(1,2))

lemma pairedD:
  assumes "paired items"
  shows "set (call_keys items) \<subseteq> set (output_keys items)"
    and "i \<in> set items \<Longrightarrow> output_of i = Some k \<Longrightarrow> server_output i \<or> k \<in> set (call_keys items)"
  using assms unfolding paired_def by blast+

lemma pairedI:
  assumes "set (call_keys items) \<subseteq> set (output_keys items)"
    and "\<And>i k. i \<in> set items \<Longrightarrow> output_of i = Some k \<Longrightarrow> server_output i \<or> k \<in> set (call_keys items)"
  shows "paired items"
  using assms unfolding paired_def by blast

lemma subset_without: "insert k A \<subseteq> insert k B \<Longrightarrow> k \<notin> A \<Longrightarrow> A \<subseteq> B"
  by blast

lemma paired_without_pair:
  assumes "paired (i # ys @ x # zs)" and "unique_keys (i # ys @ x # zs)"
    and "call_of i = Some k \<and> output_of x = Some k \<or> output_of i = Some k \<and> call_of x = Some k"
  shows "paired (ys @ zs) \<and> unique_keys (ys @ zs)"
proof -
  let ?all = "i # ys @ x # zs" and ?rest = "ys @ zs"
  have one: "call_of i = Some k \<and> output_of i = None \<and> output_of x = Some k \<and> call_of x = None \<or>
      output_of i = Some k \<and> call_of i = None \<and> call_of x = Some k \<and> output_of x = None"
    using assms(3) call_no_output by (metis option.exhaust option.simps(3))
  have du: "distinct (call_keys ?all)" "distinct (output_keys ?all)" using assms(2) unfolding unique_keys_def by blast+
  have calls: "set (call_keys ?all) = insert k (set (call_keys ?rest))" "k \<notin> set (call_keys ?rest)" "distinct (call_keys ?rest)"
    using one du(1) by (elim disjE conjE; simp)+
  have outs: "set (output_keys ?all) = insert k (set (output_keys ?rest))" "k \<notin> set (output_keys ?rest)" "distinct (output_keys ?rest)"
    using one du(2) by (elim disjE conjE; simp)+
  have uniq: "unique_keys ?rest" using calls(3) outs(3) by (simp only: unique_keys_def)
  have sub: "set (call_keys ?rest) \<subseteq> set (output_keys ?rest)"
    by (rule subset_without [OF pairedD(1) [OF assms(1), unfolded calls(1) outs(1)] calls(2)])
  have orphan: "server_output j \<or> k' \<in> set (call_keys ?rest)" if "j \<in> set ?rest" "output_of j = Some k'" for j k'
  proof -
    have "j \<in> set ?all" using that(1) by auto
    then have "server_output j \<or> k' \<in> set (call_keys ?all)" using that(2) by (rule pairedD(2) [OF assms(1)])
    moreover have "k' \<noteq> k" using outs(2) that unfolding in_output_keys by blast
    ultimately show ?thesis unfolding calls(1) by simp
  qed
  show ?thesis using pairedI [OF sub orphan] uniq by simp
qed

lemma paired_without_server:
  assumes "paired (i # items)" and "unique_keys (i # items)" and "call_of i = None"
    and "\<And>k. output_of i = Some k \<Longrightarrow> k \<notin> set (call_keys items)"
  shows "paired items \<and> unique_keys items"
proof -
  have calls: "call_keys (i # items) = call_keys items" using assms(3) by simp
  have sub: "set (call_keys items) \<subseteq> set (output_keys items)"
  proof
    fix k assume k: "k \<in> set (call_keys items)"
    then have "k \<in> set (output_keys (i # items))" using pairedD(1) [OF assms(1)] calls by auto
    then show "k \<in> set (output_keys items)" using assms(4) k by (cases "output_of i") auto
  qed
  have "paired items" using pairedD(2) [OF assms(1)] calls by (intro pairedI [OF sub]) simp
  moreover have "unique_keys items" using assms(2) calls unfolding unique_keys_def by (cases "output_of i") simp_all
  ultimately show ?thesis by simp
qed

lemma remove_corresponding_paired:
  assumes "paired (i # items)" and "unique_keys (i # items)"
  shows "paired (remove_corresponding_for items i) \<and> unique_keys (remove_corresponding_for items i)"
proof -
  have d: "distinct (call_keys items)" using assms(2) by (auto simp: unique_keys_def split: option.splits)
  note eq = remove_corresponding_key [OF d, of i]
  show ?thesis
  proof (cases "call_of i")
    case (Some k)
    then have "k \<in> set (output_keys items)" using assms(1) call_no_output [OF Some] by (auto simp: paired_def)
    then obtain j where "j \<in> set items" "output_of j = Some k" by (auto simp: in_output_keys)
    then obtain ys x zs where "items = ys @ x # zs" "output_of x = Some k"
      "remove_first_matching (\<lambda>j. output_of j = Some k) items = ys @ zs"
      using remove_first_matching_split [of items "\<lambda>j. output_of j = Some k"] by blast
    then show ?thesis using paired_without_pair [of i ys x zs k] assms eq Some by simp
  next
    case None
    show ?thesis
    proof (cases "output_of i")
      case (Some k)
      from remove_first_matching_split [of items "\<lambda>j. call_of j = Some k"] show ?thesis
      proof
        assume "(\<forall>x \<in> set items. call_of x \<noteq> Some k) \<and> remove_first_matching (\<lambda>j. call_of j = Some k) items = items"
        then show ?thesis using paired_without_server [OF assms None] eq None Some by (auto simp: in_call_keys)
      next
        assume "\<exists>ys x zs. items = ys @ x # zs \<and> call_of x = Some k \<and> remove_first_matching (\<lambda>j. call_of j = Some k) items = ys @ zs"
        then obtain ys x zs where "items = ys @ x # zs" "call_of x = Some k"
          "remove_first_matching (\<lambda>j. call_of j = Some k) items = ys @ zs" by blast
        then show ?thesis using paired_without_pair [of i ys x zs k] assms eq None Some by simp
      qed
    next
      case None': None
      then show ?thesis using paired_without_server [OF assms None] eq None by simp
    qed
  qed
qed

section \<open>Properties\<close>

text \<open>C10: normalising a history outside debug builds pairs every call with an output and every output but those of
  the server with a call, keeps all other items in their order up to the images that are left out, and changes
  nothing when it is done again.\<close>

theorem normalize_history_pairs:
  assumes "\<not> debug_assertions env"
  shows "\<exists>out. normalize_history env ms items = Some out \<and> paired out \<and>
    filter (\<lambda>i. output_of i = None) out = strip_images_when_unsupported ms (filter (\<lambda>i. output_of i = None) items) \<and>
    normalize_history env ms out = Some out"
  using normalize_release [OF assms] normalized_paired normalized_others normalized_idem by metis

definition release_env :: history_env where
  "release_env = \<lparr>uuid_id = (\<lambda>p n. p @ lit ''_'' @ n), debug_assertions = False\<rparr>"

definition example_history :: "unit response_item list" where
  "example_history =
     [FunctionCall (Some (lit ''fc1'')) (lit ''shell'') None [] (lit ''a'') None,
      Message None (lit ''user'') [InputImageContent (lit ''u'') None] None None,
      CustomToolCallOutput None (lit ''b'') None (payload_from_text (lit ''x'')) None]"

theorem normalize_history_pairs_witness:
  "normalize_history release_env [TextModality] example_history =
     Some [FunctionCall (Some (lit ''fc1'')) (lit ''shell'') None [] (lit ''a'') None,
       FunctionCallOutput (Some (lit ''fco_fco:fc1'')) (lit ''a'') (payload_from_text (lit ''aborted'')) None,
       Message None (lit ''user'') [InputTextContent IMAGE_CONTENT_OMITTED_PLACEHOLDER] None None] \<and>
   (\<exists>out. normalize_history release_env [TextModality] example_history = Some out \<and> paired out \<and>
     normalize_history release_env [TextModality] out = Some out)"
proof
  have "\<not> debug_assertions release_env" by (simp add: release_env_def)
  from normalize_history_pairs [OF this, of "[TextModality]" example_history]
  show "\<exists>out. normalize_history release_env [TextModality] example_history = Some out \<and> paired out \<and>
     normalize_history release_env [TextModality] out = Some out" by blast
qed code_simp

end
