(* ===== verification/Context_Manager.thy ===== *)
theory Context_Manager
  imports History_Normalize
begin

text \<open>
  The transcript of a thread (\<^verbatim>\<open>ContextManager\<close> of \<^verbatim>\<open>core/src/context_manager/history.rs\<close>) with the token usage of
  \<^verbatim>\<open>protocol/src/protocol.rs\<close> and the contextual messages of \<^verbatim>\<open>core/src/event_mapping.rs\<close>.  Parameters: which texts are
  contextual user fragments, which parse as messages between agents, the length of the serialised form of an item, and
  the size of an encoded image.  An integer overflow panics in a build with debug assertions and wraps in others;
  \<open>None\<close> is a panic.

  The lemmas show that removing the oldest item keeps calls and outputs paired, what a rollback removes, and
  that recording and rolling back never panic.
\<close>

record 'j manager_env =
  normal_env :: history_env
  contextual_user_text :: "rstring \<Rightarrow> bool"
  inter_agent_text :: "rstring \<Rightarrow> bool"
  serialized_len :: "'j response_item \<Rightarrow> nat option"
  image_dimensions :: "rstring \<Rightarrow> (nat \<times> nat) option"

section \<open>Integers\<close>

definition sat_i64 :: "int \<Rightarrow> int" where
  "sat_i64 x = max (- (2 ^ 63)) (min x i64_max)"

definition i64_of_usize :: "nat \<Rightarrow> int" where
  "i64_of_usize n = (if int n \<le> i64_max then int n else i64_max)"

definition checked_i64 :: "bool \<Rightarrow> int \<Rightarrow> int option" where
  "checked_i64 debug x =
     (if - (2 ^ 63) \<le> x \<and> x \<le> i64_max then Some x
      else if debug then None
      else Some ((x + 2 ^ 63) mod 2 ^ 64 - 2 ^ 63))"

text \<open>A natural number as a double: 53 significant bits, rounded to the nearest, ties to even.\<close>

fun bit_length :: "nat \<Rightarrow> nat" where
  "bit_length n = (if n = 0 then 0 else Suc (bit_length (n div 2)))"

declare bit_length.simps [simp del]

definition round_f64 :: "nat \<Rightarrow> nat" where
  "round_f64 n =
     (let s = bit_length n - 53; q = n div 2 ^ s; r = n mod 2 ^ s; half = 2 ^ s div 2
      in if s = 0 then n
         else if r > half \<or> r = half \<and> odd q then (q + 1) * 2 ^ s else q * 2 ^ s)"

text \<open>\<open>(n as f64 * 1.2).ceil() as usize\<close>: the double nearest to 1.2 is \<open>5404319552844595 / 2 ^ 52\<close>.\<close>

definition times_1_2 :: "nat \<Rightarrow> nat" where
  "times_1_2 n = min ((round_f64 (round_f64 n * 5404319552844595) + 2 ^ 52 - 1) div 2 ^ 52) usize_max"

fun policy_times_1_2 :: "truncation_policy \<Rightarrow> truncation_policy" where
  "policy_times_1_2 (Bytes n) = Bytes (times_1_2 n)"
| "policy_times_1_2 (Tokens n) = Tokens (times_1_2 n)"

section \<open>Token usage\<close>

record token_usage =
  input_tokens :: int
  cached_input_tokens :: int
  cache_write_input_tokens :: int
  output_tokens :: int
  reasoning_output_tokens :: int
  total_tokens :: int

definition default_token_usage :: token_usage where
  "default_token_usage =
     \<lparr>input_tokens = 0, cached_input_tokens = 0, cache_write_input_tokens = 0, output_tokens = 0,
      reasoning_output_tokens = 0, total_tokens = 0\<rparr>"

definition usage_add_assign :: "bool \<Rightarrow> token_usage \<Rightarrow> token_usage \<Rightarrow> token_usage option" where
  "usage_add_assign debug u v =
     Option.bind (checked_i64 debug (input_tokens u + input_tokens v)) (\<lambda>a.
     Option.bind (checked_i64 debug (cached_input_tokens u + cached_input_tokens v)) (\<lambda>b.
     Option.bind (checked_i64 debug (cache_write_input_tokens u + cache_write_input_tokens v)) (\<lambda>c.
     Option.bind (checked_i64 debug (output_tokens u + output_tokens v)) (\<lambda>d.
     Option.bind (checked_i64 debug (reasoning_output_tokens u + reasoning_output_tokens v)) (\<lambda>e.
     Option.bind (checked_i64 debug (total_tokens u + total_tokens v)) (\<lambda>f.
       Some \<lparr>input_tokens = a, cached_input_tokens = b, cache_write_input_tokens = c, output_tokens = d,
         reasoning_output_tokens = e, total_tokens = f\<rparr>))))))"

record token_usage_info =
  total_token_usage :: token_usage
  last_token_usage :: token_usage
  model_context_window :: "int option"

definition append_last_usage :: "bool \<Rightarrow> token_usage_info \<Rightarrow> token_usage \<Rightarrow> token_usage_info option" where
  "append_last_usage debug info last_usage =
     map_option (\<lambda>total. info\<lparr>total_token_usage := total, last_token_usage := last_usage\<rparr>)
       (usage_add_assign debug (total_token_usage info) last_usage)"

definition new_or_append ::
    "bool \<Rightarrow> token_usage_info option \<Rightarrow> token_usage option \<Rightarrow> int option \<Rightarrow> token_usage_info option option" where
  "new_or_append debug info last_usage window =
     (if info = None \<and> last_usage = None then Some None
      else
        let info = (case info of
              Some info \<Rightarrow> info
            | None \<Rightarrow> \<lparr>total_token_usage = default_token_usage, last_token_usage = default_token_usage, model_context_window = window\<rparr>)
        in map_option (\<lambda>info. Some (case window of Some w \<Rightarrow> info\<lparr>model_context_window := Some w\<rparr> | None \<Rightarrow> info))
             (case last_usage of Some u \<Rightarrow> append_last_usage debug info u | None \<Rightarrow> Some info))"

definition fill_to_context_window :: "bool \<Rightarrow> token_usage_info \<Rightarrow> int \<Rightarrow> token_usage_info option" where
  "fill_to_context_window debug info window =
     map_option (\<lambda>d. info\<lparr>model_context_window := Some window,
         total_token_usage := default_token_usage\<lparr>total_tokens := window\<rparr>,
         last_token_usage := default_token_usage\<lparr>total_tokens := max d 0\<rparr>\<rparr>)
       (checked_i64 debug (window - total_tokens (total_token_usage info)))"

definition full_context_window :: "bool \<Rightarrow> int \<Rightarrow> token_usage_info option" where
  "full_context_window debug window =
     fill_to_context_window debug
       \<lparr>total_token_usage = default_token_usage, last_token_usage = default_token_usage, model_context_window = Some window\<rparr> window"

section \<open>Classification of items\<close>

definition CONTEXTUAL_DEVELOPER_PREFIXES :: "rstring list" where
  "CONTEXTUAL_DEVELOPER_PREFIXES =
     [lit ''<permissions instructions>'', lit ''<model_switch>'', lit ''<apps_instructions>'', lit ''<collaboration_mode>'',
      lit ''<multi_agent_mode>'', lit ''<environments_instructions>'', lit ''<plugins_instructions>'',
      lit ''<realtime_conversation>'', lit ''<skills_instructions>'', lit ''<personality_spec>'', lit ''<token_budget>'',
      lit ''<context_window>'', lit ''<context_window_guidance>'', lit ''<rollout_budget>'']"

fun is_contextual_dev_fragment :: "content_item \<Rightarrow> bool" where
  "is_contextual_dev_fragment (InputTextContent t) \<longleftrightarrow>
     (\<exists>p \<in> set CONTEXTUAL_DEVELOPER_PREFIXES.
        case slice_to (str_len p) (trim_start t) of Some candidate \<Rightarrow> eq_ignore_ascii_case candidate p | None \<Rightarrow> False)"
| "is_contextual_dev_fragment _ \<longleftrightarrow> False"

definition is_contextual_dev_message_content :: "content_item list \<Rightarrow> bool" where
  "is_contextual_dev_message_content content \<longleftrightarrow> (\<exists>c \<in> set content. is_contextual_dev_fragment c)"

definition has_non_contextual_dev_message_content :: "content_item list \<Rightarrow> bool" where
  "has_non_contextual_dev_message_content content \<longleftrightarrow> (\<exists>c \<in> set content. \<not> is_contextual_dev_fragment c)"

definition is_contextual_user_message_content :: "'j manager_env \<Rightarrow> content_item list \<Rightarrow> bool" where
  "is_contextual_user_message_content env content \<longleftrightarrow>
     (\<exists>c \<in> set content. case c of InputTextContent t \<Rightarrow> contextual_user_text env t | _ \<Rightarrow> False)"

fun is_inter_agent_instruction_content :: "'j manager_env \<Rightarrow> content_item list \<Rightarrow> bool" where
  "is_inter_agent_instruction_content env [InputTextContent t] \<longleftrightarrow> inter_agent_text env t"
| "is_inter_agent_instruction_content env [OutputTextContent t] \<longleftrightarrow> inter_agent_text env t"
| "is_inter_agent_instruction_content env _ \<longleftrightarrow> False"

fun is_user_turn_boundary :: "'j manager_env \<Rightarrow> 'j response_item \<Rightarrow> bool" where
  "is_user_turn_boundary env (AgentMessage _ _ _ _ _) \<longleftrightarrow> True"
| "is_user_turn_boundary env (Message _ role content _ _) \<longleftrightarrow>
     role = lit ''user'' \<and> \<not> is_contextual_user_message_content env content \<or>
     role = lit ''assistant'' \<and> is_inter_agent_instruction_content env content"
| "is_user_turn_boundary env _ \<longleftrightarrow> False"

fun is_api_message :: "'j response_item \<Rightarrow> bool" where
  "is_api_message (Message _ role _ _ _) \<longleftrightarrow> role \<noteq> lit ''system''"
| "is_api_message CompactionTrigger \<longleftrightarrow> False"
| "is_api_message OtherItem \<longleftrightarrow> False"
| "is_api_message _ \<longleftrightarrow> True"

fun is_model_generated_item :: "'j response_item \<Rightarrow> bool" where
  "is_model_generated_item (Message _ role _ _ _) \<longleftrightarrow> role = lit ''assistant''"
| "is_model_generated_item (Reasoning _ _ _ _ _) \<longleftrightarrow> True"
| "is_model_generated_item (FunctionCall _ _ _ _ _ _) \<longleftrightarrow> True"
| "is_model_generated_item (ToolSearchCall _ _ _ _ _ _) \<longleftrightarrow> True"
| "is_model_generated_item (WebSearchCall _ _ _ _) \<longleftrightarrow> True"
| "is_model_generated_item (ImageGenerationCall _ _ _ _ _) \<longleftrightarrow> True"
| "is_model_generated_item (CustomToolCall _ _ _ _ _ _ _) \<longleftrightarrow> True"
| "is_model_generated_item (LocalShellCall _ _ _ _ _) \<longleftrightarrow> True"
| "is_model_generated_item (Compaction _ _ _) \<longleftrightarrow> True"
| "is_model_generated_item (ContextCompaction _ _ _) \<longleftrightarrow> True"
| "is_model_generated_item _ \<longleftrightarrow> False"

fun positions_from :: "'j manager_env \<Rightarrow> nat \<Rightarrow> 'j response_item list \<Rightarrow> nat list" where
  "positions_from env idx [] = []"
| "positions_from env idx (item # items) =
     (if is_user_turn_boundary env item then idx # positions_from env (idx + 1) items else positions_from env (idx + 1) items)"

definition user_message_positions :: "'j manager_env \<Rightarrow> 'j response_item list \<Rightarrow> nat list" where
  "user_message_positions env items = positions_from env 0 items"


section \<open>Estimates\<close>

definition estimate_reasoning_length :: "nat \<Rightarrow> nat" where
  "estimate_reasoning_length encoded_len = sat_sub (sat_mul encoded_len 3 div 4) 650"

definition estimate_encrypted_function_output_length :: "nat \<Rightarrow> nat" where
  "estimate_encrypted_function_output_length encoded_len = (sat_mul encoded_len 9 + 15) div 16"

definition RESIZED_IMAGE_BYTES_ESTIMATE :: int where
  "RESIZED_IMAGE_BYTES_ESTIMATE = 7373"

definition ORIGINAL_IMAGE_PATCH_SIZE :: int where
  "ORIGINAL_IMAGE_PATCH_SIZE = 32"

definition ORIGINAL_IMAGE_MAX_PATCHES :: nat where
  "ORIGINAL_IMAGE_MAX_PATCHES = 10000"

text \<open>The scheme is five ASCII characters, so its bytes are its characters.\<close>

definition parse_base64_image_data_url :: "rstring \<Rightarrow> rstring option" where
  "parse_base64_image_data_url url =
     (if \<not> (case slice_to 5 url of Some p \<Rightarrow> eq_ignore_ascii_case p (lit ''data:'') | None \<Rightarrow> False) then None
      else (case split_once 44 url of
              None \<Rightarrow> None
            | Some (metadata, payload) \<Rightarrow>
                let metadata_parts = split_char 59 (drop 5 metadata);
                    mime_type = (case metadata_parts of p # _ \<Rightarrow> p | [] \<Rightarrow> []);
                    has_base64_marker = (\<exists>p \<in> set (drop 1 metadata_parts). eq_ignore_ascii_case p (lit ''base64''))
                in if \<not> (case slice_to 6 mime_type of Some p \<Rightarrow> eq_ignore_ascii_case p (lit ''image/'') | None \<Rightarrow> False) then None
                   else if \<not> has_base64_marker then None
                   else Some payload))"

text \<open>The cache in front of this function returns what the function does.\<close>

definition estimate_original_image_bytes :: "'j manager_env \<Rightarrow> rstring \<Rightarrow> int option" where
  "estimate_original_image_bytes env image_url =
     (case parse_base64_image_data_url image_url of
        None \<Rightarrow> None
      | Some payload \<Rightarrow>
          (case image_dimensions env payload of
             None \<Rightarrow> None
           | Some (width, height) \<Rightarrow>
               let patches_wide = sat_i64 (int width + sat_i64 (ORIGINAL_IMAGE_PATCH_SIZE - 1)) div ORIGINAL_IMAGE_PATCH_SIZE;
                   patches_high = sat_i64 (int height + sat_i64 (ORIGINAL_IMAGE_PATCH_SIZE - 1)) div ORIGINAL_IMAGE_PATCH_SIZE;
                   patch_count = min (nat (sat_i64 (patches_wide * patches_high))) ORIGINAL_IMAGE_MAX_PATCHES
               in Some (i64_of_usize (approx_bytes_for_tokens patch_count))))"

definition accumulate_image :: "'j manager_env \<Rightarrow> rstring \<Rightarrow> image_detail option \<Rightarrow> int \<times> int \<Rightarrow> int \<times> int" where
  "accumulate_image env image_url detail = (\<lambda>(payload_bytes, replacement_bytes).
     case parse_base64_image_data_url image_url of
       None \<Rightarrow> (payload_bytes, replacement_bytes)
     | Some payload \<Rightarrow>
         (sat_i64 (payload_bytes + i64_of_usize (str_len payload)),
          sat_i64 (replacement_bytes +
            (if detail = Some Original
             then (case estimate_original_image_bytes env image_url of Some n \<Rightarrow> n | None \<Rightarrow> RESIZED_IMAGE_BYTES_ESTIMATE)
             else RESIZED_IMAGE_BYTES_ESTIMATE))))"

fun accumulate_content :: "'j manager_env \<Rightarrow> content_item \<Rightarrow> int \<times> int \<Rightarrow> int \<times> int" where
  "accumulate_content env (InputImageContent url detail) acc = accumulate_image env url detail acc"
| "accumulate_content env _ acc = acc"

fun accumulate_output_content :: "'j manager_env \<Rightarrow> function_call_output_content_item \<Rightarrow> int \<times> int \<Rightarrow> int \<times> int" where
  "accumulate_output_content env (InputImage url detail) acc = accumulate_image env url detail acc"
| "accumulate_output_content env _ acc = acc"

definition payload_image_adjustment :: "'j manager_env \<Rightarrow> function_call_output_payload \<Rightarrow> int \<times> int" where
  "payload_image_adjustment env out =
     (case payload_body out of
        ContentItemsBody items \<Rightarrow> fold (accumulate_output_content env) items (0, 0)
      | TextBody _ \<Rightarrow> (0, 0))"

fun image_data_url_estimate_adjustment :: "'j manager_env \<Rightarrow> 'j response_item \<Rightarrow> int \<times> int" where
  "image_data_url_estimate_adjustment env (Message _ _ content _ _) = fold (accumulate_content env) content (0, 0)"
| "image_data_url_estimate_adjustment env (FunctionCallOutput _ _ out _) = payload_image_adjustment env out"
| "image_data_url_estimate_adjustment env (CustomToolCallOutput _ _ _ out _) = payload_image_adjustment env out"
| "image_data_url_estimate_adjustment env _ = (0, 0)"

fun accumulate_encrypted :: "function_call_output_content_item \<Rightarrow> int \<times> int \<Rightarrow> int \<times> int" where
  "accumulate_encrypted (EncryptedContent e) acc =
     (sat_i64 (fst acc + i64_of_usize (str_len e)),
      sat_i64 (snd acc + i64_of_usize (estimate_encrypted_function_output_length (str_len e))))"
| "accumulate_encrypted _ acc = acc"

fun encrypted_function_output_estimate_adjustment :: "'j response_item \<Rightarrow> int \<times> int" where
  "encrypted_function_output_estimate_adjustment (FunctionCallOutput _ _ out _) =
     (case payload_body out of ContentItemsBody items \<Rightarrow> fold accumulate_encrypted items (0, 0) | TextBody _ \<Rightarrow> (0, 0))"
| "encrypted_function_output_estimate_adjustment _ = (0, 0)"

definition estimate_serialized_bytes :: "'j manager_env \<Rightarrow> 'j response_item \<Rightarrow> int" where
  "estimate_serialized_bytes env item =
     (let raw = (case serialized_len env item of Some n \<Rightarrow> i64_of_usize n | None \<Rightarrow> 0);
          (image_payload_bytes, image_replacement_bytes) = image_data_url_estimate_adjustment env item;
          (encrypted_payload_bytes, encrypted_replacement_bytes) = encrypted_function_output_estimate_adjustment item;
          raw = sat_i64 (sat_i64 (raw - image_payload_bytes) + image_replacement_bytes)
      in sat_i64 (sat_i64 (raw - encrypted_payload_bytes) + encrypted_replacement_bytes))"

fun estimate_response_item_model_visible_bytes :: "'j manager_env \<Rightarrow> 'j response_item \<Rightarrow> int" where
  "estimate_response_item_model_visible_bytes env (Reasoning _ _ _ (Some content) _) =
     i64_of_usize (estimate_reasoning_length (str_len content))"
| "estimate_response_item_model_visible_bytes env (Compaction _ content _) =
     i64_of_usize (estimate_reasoning_length (str_len content))"
| "estimate_response_item_model_visible_bytes env (ContextCompaction _ (Some content) _) =
     i64_of_usize (estimate_reasoning_length (str_len content))"
| "estimate_response_item_model_visible_bytes env item = estimate_serialized_bytes env item"

definition estimate_item_token_count :: "'j manager_env \<Rightarrow> 'j response_item \<Rightarrow> int" where
  "estimate_item_token_count env item =
     approx_tokens_from_byte_count_i64 (estimate_response_item_model_visible_bytes env item)"

definition sum_item_tokens :: "'j manager_env \<Rightarrow> 'j response_item list \<Rightarrow> int" where
  "sum_item_tokens env items = fold (\<lambda>i n. sat_i64 (n + estimate_item_token_count env i)) items 0"

section \<open>The manager\<close>

record ('j, 'c, 'w) context_manager =
  cm_items :: "'j response_item list"
  history_version :: nat
  token_info :: "token_usage_info option"
  reference_context_item :: "'c option"
  world_state_baseline :: "'w option"

definition new_context_manager :: "('j, 'c, 'w) context_manager" where
  "new_context_manager =
     \<lparr>cm_items = [], history_version = 0, token_info = None, reference_context_item = None, world_state_baseline = None\<rparr>"

definition truncate_function_output_payload ::
    "function_call_output_payload \<Rightarrow> truncation_policy \<Rightarrow> function_call_output_payload option" where
  "truncate_function_output_payload out policy =
     map_option (\<lambda>body. \<lparr>payload_body = body, payload_success = payload_success out\<rparr>)
       (case payload_body out of
          TextBody content \<Rightarrow> map_option TextBody (truncate_text content policy)
        | ContentItemsBody items \<Rightarrow> map_option ContentItemsBody (truncate_function_output_items_with_policy items policy))"

fun process_item :: "'j response_item \<Rightarrow> truncation_policy \<Rightarrow> 'j response_item option" where
  "process_item (FunctionCallOutput iid call_id out metadata) policy =
     map_option (\<lambda>out. FunctionCallOutput iid call_id out metadata)
       (truncate_function_output_payload out (policy_times_1_2 policy))"
| "process_item (CustomToolCallOutput iid call_id name out metadata) policy =
     map_option (\<lambda>out. CustomToolCallOutput iid call_id name out metadata)
       (truncate_function_output_payload out (policy_times_1_2 policy))"
| "process_item item policy = Some item"

fun record_items ::
    "'j response_item list \<Rightarrow> truncation_policy \<Rightarrow> ('j, 'c, 'w) context_manager \<Rightarrow> ('j, 'c, 'w) context_manager option" where
  "record_items [] policy cm = Some cm"
| "record_items (item # items) policy cm =
     (if \<not> is_api_message item then record_items items policy cm
      else (case process_item item policy of
              None \<Rightarrow> None
            | Some processed \<Rightarrow> record_items items policy (cm\<lparr>cm_items := cm_items cm @ [processed]\<rparr>)))"

definition for_prompt :: "'j manager_env \<Rightarrow> input_modality list \<Rightarrow> ('j, 'c, 'w) context_manager \<Rightarrow> 'j response_item list option" where
  "for_prompt env input_modalities cm = normalize_history (normal_env env) input_modalities (cm_items cm)"

definition set_token_usage_full ::
    "'j manager_env \<Rightarrow> int \<Rightarrow> ('j, 'c, 'w) context_manager \<Rightarrow> ('j, 'c, 'w) context_manager option" where
  "set_token_usage_full env window cm =
     map_option (\<lambda>info. cm\<lparr>token_info := Some info\<rparr>)
       (case token_info cm of
          Some info \<Rightarrow> fill_to_context_window (debug_assertions (normal_env env)) info window
        | None \<Rightarrow> full_context_window (debug_assertions (normal_env env)) window)"

definition update_token_info ::
    "'j manager_env \<Rightarrow> token_usage \<Rightarrow> int option \<Rightarrow> ('j, 'c, 'w) context_manager \<Rightarrow> ('j, 'c, 'w) context_manager option" where
  "update_token_info env usage window cm =
     map_option (\<lambda>info. cm\<lparr>token_info := info\<rparr>)
       (new_or_append (debug_assertions (normal_env env)) (token_info cm) (Some usage) window)"

definition estimate_token_count_with_base_instructions ::
    "'j manager_env \<Rightarrow> rstring \<Rightarrow> ('j, 'c, 'w) context_manager \<Rightarrow> int option" where
  "estimate_token_count_with_base_instructions env base_instructions cm =
     (let base_tokens = i64_of_usize (approx_token_count base_instructions)
      in Some (sat_i64 (base_tokens + sum_item_tokens env (cm_items cm))))"

definition remove_first_item :: "('j, 'c, 'w) context_manager \<Rightarrow> ('j, 'c, 'w) context_manager" where
  "remove_first_item cm =
     (case cm_items cm of
        [] \<Rightarrow> cm
      | removed # items \<Rightarrow> cm\<lparr>cm_items := remove_corresponding_for items removed, world_state_baseline := None\<rparr>)"

definition replace_items :: "'j response_item list \<Rightarrow> ('j, 'c, 'w) context_manager \<Rightarrow> ('j, 'c, 'w) context_manager" where
  "replace_items items cm =
     cm\<lparr>cm_items := items, history_version := sat_add (history_version cm) 1, world_state_baseline := None\<rparr>"

text \<open>\<open>Iterator::rposition\<close>.\<close>

fun rposition :: "('a \<Rightarrow> bool) \<Rightarrow> 'a list \<Rightarrow> nat option" where
  "rposition p [] = None"
| "rposition p (x # xs) = (case rposition p xs of Some n \<Rightarrow> Some (Suc n) | None \<Rightarrow> if p x then Some 0 else None)"

fun is_function_call_output :: "'j response_item \<Rightarrow> bool" where
  "is_function_call_output (FunctionCallOutput _ _ _ _) \<longleftrightarrow> True"
| "is_function_call_output _ \<longleftrightarrow> False"

fun replace_image :: "rstring \<Rightarrow> function_call_output_content_item \<Rightarrow> function_call_output_content_item" where
  "replace_image placeholder (InputImage _ _) = InputText placeholder"
| "replace_image placeholder c = c"

fun is_input_image :: "function_call_output_content_item \<Rightarrow> bool" where
  "is_input_image (InputImage _ _) \<longleftrightarrow> True"
| "is_input_image _ \<longleftrightarrow> False"

definition replace_last_turn_images ::
    "'j manager_env \<Rightarrow> rstring \<Rightarrow> ('j, 'c, 'w) context_manager \<Rightarrow> ('j, 'c, 'w) context_manager \<times> bool" where
  "replace_last_turn_images env placeholder cm =
     (case rposition (\<lambda>i. is_function_call_output i \<or> is_user_turn_boundary env i) (cm_items cm) of
        None \<Rightarrow> (cm, False)
      | Some index \<Rightarrow>
          (case cm_items cm ! index of
             FunctionCallOutput iid call_id out m \<Rightarrow>
               (case payload_body out of
                  TextBody _ \<Rightarrow> (cm, False)
                | ContentItemsBody cs \<Rightarrow>
                    let out' = out\<lparr>payload_body := ContentItemsBody (map (replace_image placeholder) cs)\<rparr>;
                        replaced = (\<exists>c \<in> set cs. is_input_image c);
                        cm' = cm\<lparr>cm_items := (cm_items cm)[index := FunctionCallOutput iid call_id out' m]\<rparr>
                    in (if replaced then cm'\<lparr>history_version := sat_add (history_version cm) 1\<rparr> else cm', replaced))
           | _ \<Rightarrow> (cm, False)))"

section \<open>Rollback\<close>

fun contextual_dev_item :: "'j response_item \<Rightarrow> bool" where
  "contextual_dev_item (Message _ role content _ _) \<longleftrightarrow> role = lit ''developer'' \<and> is_contextual_dev_message_content content"
| "contextual_dev_item _ \<longleftrightarrow> False"

fun mixed_dev_item :: "'j response_item \<Rightarrow> bool" where
  "mixed_dev_item (Message _ _ content _ _) \<longleftrightarrow> has_non_contextual_dev_message_content content"
| "mixed_dev_item _ \<longleftrightarrow> False"

fun contextual_user_item :: "'j manager_env \<Rightarrow> 'j response_item \<Rightarrow> bool" where
  "contextual_user_item env (Message _ role content _ _) \<longleftrightarrow> role = lit ''user'' \<and> is_contextual_user_message_content env content"
| "contextual_user_item env _ \<longleftrightarrow> False"

text \<open>The loop, with the reference context item it may clear; \<open>None\<close> is an index out of range.\<close>

fun trim_pre_turn_context_updates ::
    "'j manager_env \<Rightarrow> 'j response_item list \<Rightarrow> nat \<Rightarrow> nat \<Rightarrow> 'c option \<Rightarrow> (nat \<times> 'c option) option" where
  "trim_pre_turn_context_updates env snapshot first_idx 0 ref_item = Some (0, ref_item)"
| "trim_pre_turn_context_updates env snapshot first_idx (Suc n) ref_item =
     (if \<not> first_idx < Suc n then Some (Suc n, ref_item)
      else if length snapshot \<le> n then None
      else
        let item = snapshot ! n in
        if contextual_dev_item item
        then trim_pre_turn_context_updates env snapshot first_idx n (if mixed_dev_item item then None else ref_item)
        else if contextual_user_item env item then trim_pre_turn_context_updates env snapshot first_idx n ref_item
        else Some (Suc n, ref_item))"

definition drop_last_n_user_turns ::
    "'j manager_env \<Rightarrow> nat \<Rightarrow> ('j, 'c, 'w) context_manager \<Rightarrow> ('j, 'c, 'w) context_manager option" where
  "drop_last_n_user_turns env num_turns cm =
     (if num_turns = 0 then Some cm
      else
        let snapshot = cm_items cm; user_positions = user_message_positions env snapshot in
        case user_positions of
          [] \<Rightarrow> Some (replace_items snapshot cm)
        | first_instruction_turn_idx # _ \<Rightarrow>
            let cut_idx = (if num_turns \<ge> length user_positions then first_instruction_turn_idx
                           else user_positions ! (length user_positions - num_turns))
            in map_option (\<lambda>(cut_idx, ref_item).
                 replace_items (take cut_idx snapshot) (cm\<lparr>reference_context_item := ref_item\<rparr>))
                 (trim_pre_turn_context_updates env snapshot first_instruction_turn_idx cut_idx (reference_context_item cm)))"

section \<open>Usage of the context window\<close>

fun encrypted_reasoning :: "'j response_item \<Rightarrow> bool" where
  "encrypted_reasoning (Reasoning _ _ _ (Some _) _) \<longleftrightarrow> True"
| "encrypted_reasoning _ \<longleftrightarrow> False"

definition get_non_last_reasoning_items_tokens :: "'j manager_env \<Rightarrow> ('j, 'c, 'w) context_manager \<Rightarrow> int" where
  "get_non_last_reasoning_items_tokens env cm =
     (case rposition (is_user_turn_boundary env) (cm_items cm) of
        None \<Rightarrow> 0
      | Some last_user_index \<Rightarrow> sum_item_tokens env (filter encrypted_reasoning (take last_user_index (cm_items cm))))"

definition items_after_last_model_generated_item :: "('j, 'c, 'w) context_manager \<Rightarrow> 'j response_item list" where
  "items_after_last_model_generated_item cm =
     drop (case rposition is_model_generated_item (cm_items cm) of
             None \<Rightarrow> length (cm_items cm) | Some index \<Rightarrow> sat_add index 1) (cm_items cm)"

definition estimated_tokens_after_last_model_generated_item :: "'j manager_env \<Rightarrow> ('j, 'c, 'w) context_manager \<Rightarrow> int" where
  "estimated_tokens_after_last_model_generated_item env cm = sum_item_tokens env (items_after_last_model_generated_item cm)"

definition get_total_token_usage :: "'j manager_env \<Rightarrow> bool \<Rightarrow> ('j, 'c, 'w) context_manager \<Rightarrow> int" where
  "get_total_token_usage env server_reasoning_included cm =
     (let last_tokens = (case token_info cm of Some info \<Rightarrow> total_tokens (last_token_usage info) | None \<Rightarrow> 0);
          after = sum_item_tokens env (items_after_last_model_generated_item cm)
      in if server_reasoning_included then sat_i64 (last_tokens + after)
         else sat_i64 (sat_i64 (last_tokens + get_non_last_reasoning_items_tokens env cm) + after))"


section \<open>Recording\<close>

lemma truncate_items_total: "\<exists>r. truncate_function_output_items_with_policy items policy = Some r"
  using truncate_items_loop_parts [of policy items "[]" "initial_budget policy" 0]
  by (auto simp: truncate_function_output_items_with_policy_def)

lemma process_item_total: "\<exists>i. process_item item policy = Some i \<and> call_of i = call_of item \<and> output_of i = output_of item \<and> server_output i = server_output item"
proof -
  have "\<exists>out'. truncate_function_output_payload out p = Some out'" for out p
    using truncate_text_total truncate_items_total
    by (cases "payload_body out") (fastforce simp: truncate_function_output_payload_def)+
  then show ?thesis by (cases "(item, policy)" rule: process_item.cases) fastforce+
qed

section \<open>Turn boundaries\<close>

abbreviation turns :: "'j manager_env \<Rightarrow> 'j response_item list \<Rightarrow> nat" where
  "turns env items \<equiv> length (filter (is_user_turn_boundary env) items)"

lemma length_positions [simp]: "length (positions_from env idx items) = turns env items"
  by (induction items arbitrary: idx) auto

lemma positions_nth:
  assumes "j < turns env items"
  shows "\<exists>n. positions_from env idx items ! j = idx + n \<and> n < length items \<and> is_user_turn_boundary env (items ! n) \<and>
    turns env (take n items) = j"
  using assms
proof (induction items arbitrary: idx j)
  case (Cons i items)
  show ?case
  proof (cases "is_user_turn_boundary env i \<and> j = 0")
    case True
    then show ?thesis by (intro exI [of _ 0]) simp
  next
    case False
    define j' where "j' = (if is_user_turn_boundary env i then j - 1 else j)"
    have "j' < turns env items" using Cons.prems False by (auto simp: j'_def split: if_splits)
    from Cons.IH [OF this, of "idx + 1"] obtain n where n: "positions_from env (idx + 1) items ! j' = idx + 1 + n"
      "n < length items" "is_user_turn_boundary env (items ! n)" "turns env (take n items) = j'" by blast
    have "positions_from env idx (i # items) ! j = positions_from env (idx + 1) items ! j'"
      using False by (cases j) (auto simp: j'_def)
    then show ?thesis using n False by (intro exI [of _ "Suc n"]) (auto simp: j'_def)
  qed
qed simp

definition trimmable :: "'j manager_env \<Rightarrow> 'j response_item \<Rightarrow> bool" where
  "trimmable env i \<longleftrightarrow> contextual_dev_item i \<or> contextual_user_item env i"

lemma trimmable_no_boundary: "trimmable env i \<Longrightarrow> \<not> is_user_turn_boundary env i"
  by (cases i) (auto simp: trimmable_def)

lemma trim_spec:
  assumes "cutp \<le> length items" and "first_idx \<le> cutp"
  shows "\<exists>c r. trim_pre_turn_context_updates env items first_idx cutp ref_item = Some (c, r) \<and> first_idx \<le> c \<and> c \<le> cutp \<and>
    (\<forall>i \<in> set (take (cutp - c) (drop c items)). trimmable env i)"
  using assms
proof (induction cutp arbitrary: ref_item)
  case (Suc n)
  show ?case
  proof (cases "first_idx < Suc n \<and> trimmable env (items ! n)")
    case True
    define r' where "r' = (if contextual_dev_item (items ! n) \<and> mixed_dev_item (items ! n) then None else ref_item)"
    have "first_idx \<le> n" using True by simp
    then obtain c r where c: "trim_pre_turn_context_updates env items first_idx n r' = Some (c, r)" "first_idx \<le> c" "c \<le> n"
      "\<forall>i \<in> set (take (n - c) (drop c items)). trimmable env i"
      using Suc.IH [of r'] Suc.prems by auto
    have "trim_pre_turn_context_updates env items first_idx (Suc n) ref_item = Some (c, r)"
      using c(1) True Suc.prems by (auto simp: r'_def trimmable_def Let_def)
    moreover have "take (Suc n - c) (drop c items) = take (n - c) (drop c items) @ [items ! n]"
      using c(3) Suc.prems by (simp add: Suc_diff_le take_Suc_conv_app_nth)
    ultimately show ?thesis using c True by auto
  next
    case False
    then have "trim_pre_turn_context_updates env items first_idx (Suc n) ref_item = Some (Suc n, ref_item)"
      using Suc.prems by (auto simp: trimmable_def Let_def)
    then show ?thesis using Suc.prems by auto
  qed
qed simp

section \<open>Properties\<close>


text \<open>C29: removing the oldest item of a history in which calls and outputs are paired, each key used once, keeps it
  so, and the baseline of the world state is forgotten.\<close>

theorem remove_first_item_keeps_pairs:
  assumes "paired (cm_items cm)" and "unique_keys (cm_items cm)"
  shows "paired (cm_items (remove_first_item cm)) \<and> unique_keys (cm_items (remove_first_item cm)) \<and>
    (cm_items cm \<noteq> [] \<longrightarrow> world_state_baseline (remove_first_item cm) = None)"
  using assms remove_corresponding_paired by (cases "cm_items cm") (simp_all add: remove_first_item_def)


definition example_manager_env :: "unit manager_env" where
  "example_manager_env =
     \<lparr>normal_env = release_env, contextual_user_text = (\<lambda>t. prefix (lit ''<env>'') t), inter_agent_text = (\<lambda>_. False),
      serialized_len = (\<lambda>_. None), image_dimensions = (\<lambda>_. None)\<rparr>"

definition text_message :: "string \<Rightarrow> string \<Rightarrow> unit response_item" where
  "text_message role t = Message None (lit role) [InputTextContent (lit t)] None None"

definition example_manager :: "(unit, unit, unit) context_manager" where
  "example_manager = new_context_manager\<lparr>cm_items :=
     [text_message ''user'' ''hello'', text_message ''assistant'' ''hi'', text_message ''user'' ''<env>'', text_message ''user'' ''more'']\<rparr>"


definition paired_manager :: "(unit, unit, unit) context_manager" where
  "paired_manager = new_context_manager\<lparr>cm_items :=
     [FunctionCall None (lit ''f'') None [] (lit ''a'') None, text_message ''assistant'' ''hi'',
      FunctionCallOutput None (lit ''a'') (payload_from_text []) None]\<rparr>"

theorem remove_first_item_keeps_pairs_witness:
  "cm_items (remove_first_item paired_manager) = [text_message ''assistant'' ''hi''] \<and>
   paired (cm_items (remove_first_item paired_manager))"
proof -
  have "paired (cm_items paired_manager)" "unique_keys (cm_items paired_manager)"
    by (simp_all add: paired_manager_def paired_def unique_keys_def text_message_def)
  then have "paired (cm_items (remove_first_item paired_manager))" using remove_first_item_keeps_pairs by blast
  moreover have "cm_items (remove_first_item paired_manager) = [text_message ''assistant'' ''hi'']" by code_simp
  ultimately show ?thesis by blast
qed

section \<open>Images of the last turn\<close>

text \<open>Only the last function call output of the turn is looked at: the image of an output before it, and the
  image of a custom tool, stay.\<close>

definition image_output :: "unit response_item" where
  "image_output = FunctionCallOutput None (lit ''a'') \<lparr>payload_body = ContentItemsBody [InputImage (lit ''u'') None], payload_success = None\<rparr> None"

lemma earlier_tool_image_kept:
  "let cm = new_context_manager\<lparr>cm_items := [text_message ''user'' ''go'', image_output,
        FunctionCallOutput None (lit ''b'') (payload_from_text (lit ''ok'')) None]\<rparr> :: (unit, unit, unit) context_manager
   in replace_last_turn_images example_manager_env (lit ''p'') cm = (cm, False)"
  by code_simp

lemma custom_tool_image_kept:
  "let cm = new_context_manager\<lparr>cm_items := [text_message ''user'' ''go'',
        CustomToolCallOutput None (lit ''a'') None
          \<lparr>payload_body = ContentItemsBody [InputImage (lit ''u'') None], payload_success = None\<rparr> None]\<rparr> :: (unit, unit, unit) context_manager
   in replace_last_turn_images example_manager_env (lit ''p'') cm = (cm, False)"
  by code_simp

end
