(* ===== verification/Spec2Isabelle.thy ===== *)
theory Spec2Isabelle
  imports Assistant_Text Utf8_Stream Head_Tail_Buffer Patch_Grammar Patch_Safety Context_Manager
begin

text \<open>
  A model of the deterministic core of Codex, a coding agent (the crates of \<^verbatim>\<open>src/codex/codex-rs\<close>; paths
  below are relative to it), with the theorems that make it correct.

  \<^bold>\<open>The program.\<close>  A model answers a conversation with text and with tool calls.  The text arrives in pieces
  and is cleaned of hidden markup while it streams.  A tool call runs a command or applies a patch.  A command
  is looked up in an execution policy; what no rule decides is classified by heuristics, and the result is that
  the command runs, that the user is asked, or that it is forbidden.  A patch is parsed, verified against the
  files, assessed against the file system permissions of the session and applied.  The permissions are also
  handed to an operating system sandbox as lists of roots.  The output of a command is kept in a capped
  buffer and truncated for the model, and all items go to the history of the thread, which is normalised before
  every request.

  \<^bold>\<open>Conventions.\<close>  A Rust \<open>char\<close> is its code point and a string the list of its chars (\<open>lit\<close> for literals);
  byte counts are computed by \<open>str_len\<close>.  A struct is a record, an enum a datatype, \<open>Result\<close> a sum with the
  error on the left.  A panic is \<open>None\<close>: a function that may slice, index or overflow returns an option, and the
  theorems show where it does not.  A hash map whose order can be seen is a list in iteration order, other
  maps are functions or association lists.  What lies outside of the crates is an argument: records of operations
  for the file system, for the policy file, for the host (\<open>executor_file_system\<close>, \<open>policy_file_io\<close>,
  \<open>path_env\<close>, \<open>sandbox_env\<close>, \<open>approval_env\<close>, \<open>manager_env\<close>) with named hypotheses where a theorem needs their
  documented behaviour (\<open>regular_files\<close>, \<open>plain_disk\<close>, \<open>appends_succeed\<close>), each of which holds for the concrete instance
  of a witness.

  \<^bold>\<open>Theories.\<close>

  \<^item> \<open>Prelude\<close>: the standard library on strings, options, results and saturating counters.
  \<open>Utf8\<close>: \<open>from_utf8\<close> and the encoding.  \<open>Unix_Path\<close>: \<open>std::path\<close> and
  \<^verbatim>\<open>utils/absolute-path\<close>.

  \<^item> \<open>Stream_Text\<close>: the trait \<open>StreamTextParser\<close> of \<^verbatim>\<open>utils/stream-parser\<close> as the locale
  \<open>stream_text_parser\<close>, whose laws say that the cutting of the input into chunks cannot be seen.
  \<open>Inline_Hidden_Tag\<close>, \<open>Citation\<close> and \<open>Proposed_Plan\<close> interpret it; \<open>Tagged_Line\<close> is the line
  parser under the plan parser; \<open>Assistant_Text\<close> composes citations and plans; \<open>Utf8_Stream\<close> wraps any
  parser of the locale for bytes.  One definition per method of the source file of the same name.  The
  theorems: the tag parser hides exactly the tagged regions (\<open>inline_collect_hides\<close>) and its loop ends; the
  line parser computes the segments of the whole text; every streamed result is the result on the whole text, also
  for bytes cut inside of a code point; errors are reported exactly for invalid or unfinished bytes.

  \<^item> \<open>Head_Tail_Buffer\<close>: \<^verbatim>\<open>core/src/unified_exec/head_tail_buffer.rs\<close>, the locale \<open>output_buffer\<close> of what its
  clients rely on, and the interleaving of the output task with the collecting loop as the inductive
  predicate \<open>output_run\<close>.  The buffer refines its specification \<open>kept\<close>, and collecting in pieces loses
  nothing more than one buffer would.  \<open>Truncate\<close>: \<^verbatim>\<open>utils/string/src/truncate.rs\<close> and
  \<^verbatim>\<open>utils/output-truncation\<close>: the kept ends, the counts in the marker, and no slice off a char boundary.

  \<^item> \<open>Patch_Parser\<close>: \<^verbatim>\<open>apply-patch/src/parser.rs\<close> and \<^verbatim>\<open>streaming_parser.rs\<close>.  \<open>Patch_Grammar\<close>: the grammar
  as data; every patch of the grammar is parsed to its meaning, everything accepted is well formed, and the
  streaming parser agrees.  \<open>Patch_Text\<close>: \<^verbatim>\<open>seek_sequence.rs\<close> and the replacement of lines: an edit script
  that describes a file is applied exactly, replacements are simultaneous, no index is out of range.
  \<open>Patch_Apply\<close>: the application of hunks over the file system record, with the delta of committed changes: an exact
  delta replays and reverts the changes, also after a failure; on regular files the application is
  a function of the files.  \<open>Patch_Invocation\<close>: \<^verbatim>\<open>invocation.rs\<close>: what is shown for approval is what
  is applied.  \<open>Patch_Safety\<close>: \<^verbatim>\<open>core/src/safety.rs\<close>, \<^verbatim>\<open>core/src/apply_patch.rs\<close> and the permission profiles
  of \<^verbatim>\<open>protocol/src/models.rs\<close>.  This theory joins them: an automatically approved patch changes only
  files that the permissions let be written.

  \<^item> \<open>Exec_Policy\<close>: \<^verbatim>\<open>execpolicy/src\<close> with rules, evaluation, overlays, network rules and the builder of policy
  files; the strictest deciding rule decides, an overlay only tightens, examples hold.  The locale
  \<open>rule_matcher\<close> is what the approval relies on.  \<open>Command_Safety\<close>:
  \<^verbatim>\<open>shell-command/src/command_safety\<close>; the dangerous commands are those that reach a forced removal (the inductive
  predicate \<open>reaches_rm\<close>), the safe git commands are characterised.  \<open>Policy_Amend\<close>: \<^verbatim>\<open>execpolicy/src/amend.rs\<close>.
  \<open>Exec_Approval\<close>: \<^verbatim>\<open>core/src/exec_policy.rs\<close>: what a skipped approval rests on, that rules and the approval
  policy are respected, and that accepting the proposed amendments ends the prompts.

  \<^item> \<open>Sandbox_Policy\<close>, \<open>Sandbox_Legacy\<close>, \<open>Sandbox_Roots\<close>: \<^verbatim>\<open>protocol/src/permissions.rs\<close> and the
  sandbox policies of \<^verbatim>\<open>protocol/src/protocol.rs\<close>.  The entry closest to a path decides; the translation of
  the older policies can be undone and protects the metadata of a workspace; deny entries survive a merge;
  the writable roots never allow more than the policy; the read matcher denies exactly what it should.

  \<^item> \<open>Response_Item\<close>, \<open>History_Normalize\<close>, \<open>Context_Manager\<close>: the items of \<^verbatim>\<open>protocol/src/models.rs\<close> and
  \<^verbatim>\<open>core/src/context_manager\<close>.  A normalised history pairs calls with outputs and loses nothing else;
  removing the oldest item keeps the pairs; a rollback removes whole turns.

  \<^bold>\<open>Bounds and fuel.\<close>  The loop of \<open>push_str\<close> (\<open>push_loop\<close>) has one unit of fuel more than the pending text
  has chars.  Every round consumes a char because delimiters are not empty, and more fuel changes nothing
  (\<open>push_str_terminates\<close>).  The search for dangerous commands has the depth bound of the source.  All other
  recursion is structural or has a termination proof.  Counters of the source that saturate do so at 64 bits,
  token counts are signed 64-bit values whose overflow panics with debug assertions and wraps without them.

  \<^bold>\<open>Where the code surprises.\<close>  Lemmas on concrete inputs show behaviour that a comment or the purpose
  contradicts: \<open>eof_chunk_overlaps\<close>, \<open>blank_last_line_lost\<close>, \<open>seek_eof_no_fallback\<close> (\<open>Patch_Text\<close>),
  \<open>self_move_deletes\<close>, \<open>denied_update_not_reported\<close> (\<open>Patch_Apply\<close>), \<open>two_updates_shown_as_one\<close>
  (\<open>Patch_Invocation\<close>), \<open>rename_outside_approved\<close> (\<open>Patch_Safety\<close>), \<open>relative_program_matches\<close> (\<open>Exec_Policy\<close>),
  \<open>nested_metadata_writable\<close> (\<open>Sandbox_Policy\<close>), \<open>order_changes_signature\<close> (\<open>Sandbox_Roots\<close>),
  \<open>earlier_tool_image_kept\<close> and \<open>custom_tool_image_kept\<close> (\<open>Context_Manager\<close>).  That no
  path is touched twice, a hypothesis of the theorems on approved patches, is what \<open>two_updates_shown_as_one\<close>
  and \<open>rename_outside_approved\<close> show to be needed.

  \<^bold>\<open>Not modelled.\<close>  Windows: paths, sandbox and command rules are those of Unix.  Code over a foreign parser
  or library, which is a parameter: the tree-sitter parsing of shell scripts, the Starlark evaluation of policy
  files (a file is the sequence of its calls), the diff of the \<^verbatim>\<open>similar\<close> crate, globs, URLs, JSON.  The
  waiting, cancelling and pausing of processes: only the order of the actions on the shared buffer is modelled.
  The loading of configuration, serialisation, the terminal interface, the servers and their protocols, the
  model client, the databases, telemetry, the operating system sandboxes and the network proxy are mostly input
  and output around this core.  Their deterministic parts (the layering of configuration, the matching of hosts in
  the proxy, the matching of hooks, the choice of messages in a compaction) and the hosted service under
  \<^verbatim>\<open>src/e2b\<close> are not covered.
\<close>

section \<open>Approval and application of a patch\<close>

lemma constrained_uri:
  assumes "is_write_patch_constrained_to_writable_paths env chs pol cwd" and "\<not> has_full_disk_write_access pol"
    and "(u, c) \<in> set chs" and "p \<in> change_paths fs u c"
  obtains native_cwd w where "to_abs_path env cwd = Some native_cwd" "to_path_buf fs w = p"
    "is_uri_writable env pol native_cwd w"
proof -
  obtain native_cwd where n: "to_abs_path env cwd = Some native_cwd" and c: "is_change_writable env pol native_cwd u c"
    using assms(1-3) by (auto simp: is_write_patch_constrained_to_writable_paths_def split: option.splits)
  from c assms(4) have "\<exists>w. to_path_buf fs w = p \<and> is_uri_writable env pol native_cwd w"
    by (cases rule: change_paths.cases [of "(fs, u, c)"]) (auto simp: is_change_writable_def)
  then show ?thesis using n that by blast
qed



end
